(* ===== verification/Prelude.thy ===== *)
theory Prelude
  imports Main "HOL-Library.Word"
begin

text \<open>
  The vocabulary every other theory of the development is written in.

  \<^item> The machine types of the Go source (\<open>u8\<close>, \<open>u16\<close>, \<open>u32\<close>, \<open>u64\<close>), byte slices
    (\<open>bytes\<close>) and Go strings as byte sequences (\<open>string\<close>, whose characters are bytes).
    A Go \<open>int\<close> that holds a length or an offset is a \<open>nat\<close>: the library is built for
    linux/amd64 only, so an \<open>int\<close> has 64 bits and never overflows on a slice length.
  \<^item> The errors of all packages as one datatype \<open>gerr\<close>, with \<open>Panic\<close> for a Go run-time
    panic (an index or a slice bound out of range), and results \<open>'a result = gerr + 'a\<close>
    with the bind \<open>bindE\<close> that a Go \<open>if err != nil { return err }\<close> is.
  \<^item> Slicing, indexing and the fixed-width little- and big-endian readers and writers of
    \<^verbatim>\<open>encoding/binary\<close>. Every one of them panics out of range, as in Go, so that a theorem
    about a successful result also says that no slice expression on its path panics.
  \<^item> The collections \<open>go_simps\<close> (in-range evaluation of the primitives) and
    \<open>codec_simps\<close> (round trips of the fixed-width codecs).
\<close>

unbundle bit_operations_syntax

named_theorems go_simps \<open>in-range evaluation of slicing, indexing and integer readers\<close>
named_theorems codec_simps \<open>round trips and lengths of the fixed-width codecs\<close>

section \<open>Machine types\<close>

type_synonym u8 = "8 word"
type_synonym u16 = "16 word"
type_synonym u32 = "32 word"
type_synonym u64 = "64 word"
type_synonym bytes = "u8 list"

section \<open>Errors and results\<close>

datatype gerr =
    Panic
  | ErrBadSID
  | ErrBadEvent
  | ErrBadSD
  | ErrBadACL
  | ErrBadACE
  | ErrBadClaim
  | ErrBadAuditContext
  | ErrNotSelfRelative
  | ErrMalformedValue
  | ErrReservedLayer
  | ErrInterrupted
  | ErrGenerationChanged
  | ErrBadMagic
  | Errno u32
  | SyntaxError nat string
  | Errorf string
  | Wrap string gerr
  | Join "gerr list"

type_synonym 'a result = "gerr + 'a"

text \<open>\<open>errors.Is\<close>: follow the \<open>%w\<close> chain and the members of \<open>errors.Join\<close>.\<close>

fun errors_is :: "gerr \<Rightarrow> gerr \<Rightarrow> bool" where
  "errors_is (Wrap s e) t = (Wrap s e = t \<or> errors_is e t)"
| "errors_is (Join es) t = (Join es = t \<or> list_ex (\<lambda>e. errors_is e t) es)"
| "errors_is e t = (e = t)"

definition bindE :: "'a result \<Rightarrow> ('a \<Rightarrow> 'b result) \<Rightarrow> 'b result" where
  "bindE m f = (case m of Inl e \<Rightarrow> Inl e | Inr x \<Rightarrow> f x)"

text \<open>\<open>fmt.Errorf("...: %w", err)\<close>: a panic is not an error value and is not wrapped.\<close>

definition wrapE :: "string \<Rightarrow> 'a result \<Rightarrow> 'a result" where
  "wrapE s m = (case m of Inl Panic \<Rightarrow> Inl Panic | Inl e \<Rightarrow> Inl (Wrap s e) | Inr x \<Rightarrow> Inr x)"

lemma bindE_simps [simp]:
  "bindE (Inl e) f = Inl e"
  "bindE (Inr x) f = f x"
  by (simp_all add: bindE_def)

lemma bindE_eq_Inr: "bindE m f = Inr y \<longleftrightarrow> (\<exists>x. m = Inr x \<and> f x = Inr y)"
  by (cases m) auto

lemma bindE_InrE [elim!]:
  assumes "bindE m f = Inr y"
  obtains x where "m = Inr x" and "f x = Inr y"
  using assms by (auto simp: bindE_eq_Inr)

lemma bindE_if: "bindE (if b then m else n) f = (if b then bindE m f else bindE n f)"
  by simp

lemma bindE_assoc: "bindE (bindE m f) g = bindE m (\<lambda>x. bindE (f x) g)"
  by (cases m) auto

lemma wrapE_Inr [simp]: "wrapE s (Inr x) = Inr x"
  by (simp add: wrapE_def)

lemma wrapE_eq_Inr [simp]: "wrapE s m = Inr x \<longleftrightarrow> m = Inr x"
  by (auto simp: wrapE_def split: sum.splits gerr.splits)

lemma wrapE_panic [simp]: "wrapE s m = Inl Panic \<longleftrightarrow> m = Inl Panic"
  by (auto simp: wrapE_def split: sum.splits gerr.splits)

text \<open>A computation that never panics: the safety part of a parser's contract.\<close>

definition no_panic :: "'a result \<Rightarrow> bool" where
  "no_panic r \<longleftrightarrow> r \<noteq> Inl Panic"

lemma no_panic_simps [simp]:
  "no_panic (Inr x)"
  "no_panic (Inl e) \<longleftrightarrow> e \<noteq> Panic"
  "no_panic (wrapE s m) \<longleftrightarrow> no_panic m"
  by (simp_all add: no_panic_def)

lemma no_panic_bindE [intro]:
  assumes "no_panic m" and "\<And>x. m = Inr x \<Longrightarrow> no_panic (f x)"
  shows "no_panic (bindE m f)"
  using assms by (cases m) (auto simp: no_panic_def)

text \<open>Replacing an error by another; a panic passes through.\<close>

definition relabel :: "(gerr \<Rightarrow> gerr) \<Rightarrow> 'a result \<Rightarrow> 'a result" where
  "relabel f m = (case m of Inl e \<Rightarrow> Inl (if e = Panic then Panic else f e) | Inr x \<Rightarrow> Inr x)"

lemma relabel_Inr [simp]: "relabel f (Inr x) = Inr x"
  by (simp add: relabel_def)

lemma relabel_eq_Inr [simp]: "relabel f m = Inr x \<longleftrightarrow> m = Inr x"
  by (auto simp: relabel_def split: sum.splits)

lemma no_panic_relabel: "no_panic m \<Longrightarrow> (\<And>e. f e \<noteq> Panic) \<Longrightarrow> no_panic (relabel f m)"
  by (auto simp: relabel_def no_panic_def split: sum.splits)

section \<open>Slices\<close>

definition index_at :: "'a list \<Rightarrow> nat \<Rightarrow> 'a result" where
  "index_at xs i = (if i < length xs then Inr (xs ! i) else Inl Panic)"

definition slice :: "'a list \<Rightarrow> nat \<Rightarrow> nat \<Rightarrow> 'a list result" where
  "slice xs i j = (if i \<le> j \<and> j \<le> length xs then Inr (take (j - i) (drop i xs)) else Inl Panic)"

definition slice_from :: "'a list \<Rightarrow> nat \<Rightarrow> 'a list result" where
  "slice_from xs i = (if i \<le> length xs then Inr (drop i xs) else Inl Panic)"

text \<open>A write of \<open>bs\<close> into \<open>xs\<close> at offset \<open>off\<close> (\<open>PutUint32(out[off:], v)\<close> and kin).\<close>

definition put_at :: "'a list \<Rightarrow> nat \<Rightarrow> 'a list \<Rightarrow> 'a list result" where
  "put_at xs off bs =
     (if off + length bs \<le> length xs then Inr (take off xs @ bs @ drop (off + length bs) xs)
      else Inl Panic)"

text \<open>\<open>copy(dst[:], src)\<close> on an array: the copied prefix, then what \<open>dst\<close> held.\<close>

definition copy_into :: "'a list \<Rightarrow> 'a list \<Rightarrow> 'a list" where
  "copy_into dst src = take (length dst) src @ drop (length src) dst"

lemma index_at_in [go_simps]: "i < length xs \<Longrightarrow> index_at xs i = Inr (xs ! i)"
  by (simp add: index_at_def)

lemma slice_in [go_simps]:
  "i \<le> j \<Longrightarrow> j \<le> length xs \<Longrightarrow> slice xs i j = Inr (take (j - i) (drop i xs))"
  by (simp add: slice_def)

lemma slice_from_in [go_simps]: "i \<le> length xs \<Longrightarrow> slice_from xs i = Inr (drop i xs)"
  by (simp add: slice_from_def)

lemma put_at_in [go_simps]:
  "off + length bs \<le> length xs \<Longrightarrow>
   put_at xs off bs = Inr (take off xs @ bs @ drop (off + length bs) xs)"
  by (simp add: put_at_def)

lemma put_at_mid:
  "length xs = off \<Longrightarrow> length bs = length ms \<Longrightarrow>
   put_at (xs @ ms @ zs) off bs = Inr (xs @ bs @ zs)"
  by (auto simp: put_at_def)

lemma put_at_length: "put_at xs off bs = Inr ys \<Longrightarrow> length ys = length xs"
  by (auto simp: put_at_def split: if_splits)

section \<open>Fixed-width integers as bytes\<close>

primrec le_bytes :: "nat \<Rightarrow> 'a::len word \<Rightarrow> bytes" where
  "le_bytes 0 w = []"
| "le_bytes (Suc n) w = ucast w # le_bytes n (drop_bit 8 w)"

primrec le_val :: "bytes \<Rightarrow> 'a::len word" where
  "le_val [] = 0"
| "le_val (b # bs) = ucast b OR push_bit 8 (le_val bs)"

definition be_bytes :: "nat \<Rightarrow> 'a::len word \<Rightarrow> bytes" where
  "be_bytes n w = rev (le_bytes n w)"

definition be_val :: "bytes \<Rightarrow> 'a::len word" where
  "be_val bs = le_val (rev bs)"

lemma length_le_bytes [simp]: "length (le_bytes n w) = n"
  by (induction n arbitrary: w) auto

lemma length_be_bytes [simp]: "length (be_bytes n w) = n"
  by (simp add: be_bytes_def)

lemma le_val_le_bytes: "le_val (le_bytes n w) = take_bit (8 * n) w"
proof (induction n arbitrary: w)
  case 0
  show ?case by simp
next
  case (Suc n)
  have "ucast (ucast w :: u8) OR push_bit 8 (take_bit (8 * n) (drop_bit 8 w))
      = take_bit (8 * Suc n) w"
    by (rule bit_word_eqI) (auto simp: bit_simps le_add_diff_inverse)
  with Suc show ?case by simp
qed

lemma le_bytes_le_val:
  "8 * length bs \<le> LENGTH('a) \<Longrightarrow> le_bytes (length bs) (le_val bs :: 'a::len word) = bs"
proof (induction bs)
  case Nil
  show ?case by simp
next
  case (Cons b bs)
  let ?v = "le_val bs :: 'a word"
  have 8: "8 \<le> LENGTH('a)" using Cons.prems by simp
  have low: "ucast (ucast b OR push_bit 8 ?v) = b"
    by (rule bit_word_eqI) (use 8 in \<open>auto simp: bit_simps\<close>)
  have small: "le_bytes (length bs) (take_bit (LENGTH('a) - 8) ?v) = le_bytes (length bs) ?v"
  proof -
    have *: "le_bytes m (take_bit k w) = le_bytes m w" if "8 * m \<le> k" for m k and w :: "'a word"
      using that
    proof (induction m arbitrary: k w)
      case (Suc m)
      then have k: "8 \<le> k" "8 * m \<le> k - 8" by auto
      have "(ucast (take_bit k w) :: u8) = ucast w"
        by (rule bit_word_eqI) (use k(1) in \<open>auto simp: bit_simps\<close>)
      moreover have "drop_bit 8 (take_bit k w) = take_bit (k - 8) (drop_bit 8 w)"
        by (simp add: drop_bit_take_bit)
      ultimately show ?case using Suc.IH [OF k(2)] by simp
    qed simp
    show ?thesis by (rule *) (use Cons.prems in simp)
  qed
  have high: "drop_bit 8 (ucast b OR push_bit 8 ?v) = take_bit (LENGTH('a) - 8) ?v"
    by (rule bit_word_eqI) (use 8 in \<open>auto simp: bit_simps dest: bit_imp_le_length\<close>)
  show ?case
    using Cons low small high by simp
qed

lemma take_bit_le_val:
  "8 * length bs \<le> k \<Longrightarrow> take_bit k (le_val bs :: 'a::len word) = le_val bs"
proof (induction bs arbitrary: k)
  case (Cons b bs)
  have "take_bit k (ucast b :: 'a word) = ucast b"
    by (rule bit_word_eqI) (use Cons.prems in \<open>auto simp: bit_simps dest: bit_imp_le_length\<close>)
  moreover have "take_bit (k - 8) (le_val bs :: 'a word) = le_val bs"
    by (rule Cons.IH) (use Cons.prems in simp)
  ultimately show ?case by (simp add: take_bit_or take_bit_push_bit)
qed simp

lemma le_bytes_le_val_take:
  "n \<le> length b \<Longrightarrow> 8 * n \<le> LENGTH('a) \<Longrightarrow> le_bytes n (le_val (take n b) :: 'a::len word) = take n b"
  using le_bytes_le_val [of "take n b", where 'a = 'a] by (simp add: min_absorb2)

text \<open>The widths the source uses.\<close>

abbreviation le16 :: "u16 \<Rightarrow> bytes" where "le16 \<equiv> le_bytes 2"
abbreviation le32 :: "u32 \<Rightarrow> bytes" where "le32 \<equiv> le_bytes 4"
abbreviation le64 :: "u64 \<Rightarrow> bytes" where "le64 \<equiv> le_bytes 8"
abbreviation be16 :: "u16 \<Rightarrow> bytes" where "be16 \<equiv> be_bytes 2"
abbreviation be32 :: "u32 \<Rightarrow> bytes" where "be32 \<equiv> be_bytes 4"
abbreviation be64 :: "u64 \<Rightarrow> bytes" where "be64 \<equiv> be_bytes 8"

lemma le_round [codec_simps]:
  "le_val (le16 w2) = w2"
  "le_val (le32 w4) = w4"
  "le_val (le64 w8) = w8"
  by (simp_all add: le_val_le_bytes take_bit_word_eq_self)

lemma be_round [codec_simps]:
  "be_val (be16 w2) = w2"
  "be_val (be32 w4) = w4"
  "be_val (be64 w8) = w8"
  by (simp_all add: be_val_def be_bytes_def codec_simps)

text \<open>
  \<open>binary.LittleEndian.Uint16(b)\<close> and its siblings read the first bytes of \<open>b\<close> and
  panic when there are too few.
\<close>

definition get_le :: "nat \<Rightarrow> bytes \<Rightarrow> 'a::len word result" where
  "get_le n b = (if n \<le> length b then Inr (le_val (take n b)) else Inl Panic)"

definition get_be :: "nat \<Rightarrow> bytes \<Rightarrow> 'a::len word result" where
  "get_be n b = (if n \<le> length b then Inr (be_val (take n b)) else Inl Panic)"

definition get_le16 :: "bytes \<Rightarrow> u16 result" where "get_le16 b = get_le 2 b"
definition get_le32 :: "bytes \<Rightarrow> u32 result" where "get_le32 b = get_le 4 b"
definition get_le64 :: "bytes \<Rightarrow> u64 result" where "get_le64 b = get_le 8 b"

lemma get_le_in [go_simps]:
  "2 \<le> length b \<Longrightarrow> get_le16 b = Inr (le_val (take 2 b))"
  "4 \<le> length b \<Longrightarrow> get_le32 b = Inr (le_val (take 4 b))"
  "8 \<le> length b \<Longrightarrow> get_le64 b = Inr (le_val (take 8 b))"
  by (simp_all add: get_le16_def get_le32_def get_le64_def get_le_def)

lemma get_le_append [codec_simps]:
  "get_le16 (le16 w2 @ r) = Inr w2"
  "get_le32 (le32 w4 @ r) = Inr w4"
  "get_le64 (le64 w8 @ r) = Inr w8"
  by (simp_all add: go_simps codec_simps)

section \<open>Small facts on lists and words\<close>

lemma length_copy_into [simp]: "length (copy_into dst src) = length dst"
  by (simp add: copy_into_def)

lemma copy_into_fits:
  "length src \<le> n \<Longrightarrow> copy_into (replicate n z) src = src @ replicate (n - length src) z"
  by (simp add: copy_into_def)

lemma take_drop_append_mid:
  "length xs = i \<Longrightarrow> length ys = n \<Longrightarrow> take n (drop i (xs @ ys @ zs)) = ys"
  by auto

lemma unat_of_nat_len [simp]:
  "n < 65536 \<Longrightarrow> unat (of_nat n :: u16) = n"
  "n < 4294967296 \<Longrightarrow> unat (of_nat n :: u32) = n"
  "n < 256 \<Longrightarrow> unat (of_nat n :: u8) = n"
  by (simp_all add: unsigned_of_nat take_bit_eq_mod)

text \<open>Go's \<open>&^\<close> (bit clear).\<close>

definition bit_clear :: "'a::len word \<Rightarrow> 'a word \<Rightarrow> 'a word" where
  "bit_clear x y = x AND NOT y"

lemma bit_clear_disjoint: "bit_clear x y AND y = 0"
  by (simp add: bit_clear_def and.assoc)

text \<open>The bytes of a Go string, and the string of a byte slice.\<close>

definition bytes_of :: "string \<Rightarrow> bytes" where
  "bytes_of s = map (\<lambda>c. of_nat (of_char c)) s"

definition string_of :: "bytes \<Rightarrow> string" where
  "string_of b = map (\<lambda>x. char_of (unat x)) b"

lemma string_of_bytes_of [simp]: "string_of (bytes_of s) = s"
  by (induction s) (simp_all add: string_of_def bytes_of_def)

lemma bytes_of_string_of [simp]: "bytes_of (string_of b) = b"
proof (induction b)
  case (Cons x xs)
  have "unat x < 256" using unsigned_less [of x] by simp
  with Cons show ?case by (simp add: string_of_def bytes_of_def)
qed (simp add: string_of_def bytes_of_def)

lemma length_bytes_of [simp]: "length (bytes_of s) = length s"
  by (simp add: bytes_of_def)

lemma bytes_of_append [simp]: "bytes_of (s @ t) = bytes_of s @ bytes_of t"
  by (simp add: bytes_of_def)

lemma string_of_append [simp]: "string_of (a @ b) = string_of a @ string_of b"
  by (simp add: string_of_def)

end
