(* ===== verification/Codec.thy ===== *)
theory Codec
  imports Prelude
begin

text \<open>
  The two interfaces the codecs of the library share.

  \<^item> \<open>framed_codec\<close>: a self-delimiting binary codec. The decoder reads one element from the
    start of a buffer and reports how many bytes it took; \<open>ok\<close> says which elements the
    encoder writes faithfully. Inside it, once and for all: encodings are prefix-free, and
    the counted loop \<open>parse_seq\<close> (the loop of \<^verbatim>\<open>ParseACL\<close>) reads a concatenation back.
  \<^item> \<open>text_codec\<close>: a printer and a parser that inverts it, as the textual forms of SIDs,
    GUIDs, access masks and flag runs have. Inside it: printing is injective.
\<close>

section \<open>Sequences of framed elements\<close>

text \<open>
  \<^verbatim>\<open>for range count { a, n, err := dec(rest); ...; out = append(out, a); rest = rest[n:] }\<close>
\<close>

fun parse_seq :: "(bytes \<Rightarrow> ('a \<times> nat) result) \<Rightarrow> nat \<Rightarrow> bytes \<Rightarrow> 'a list result" where
  "parse_seq dec 0 rest = Inr []"
| "parse_seq dec (Suc k) rest =
     bindE (dec rest) (\<lambda>(a, n).
     bindE (slice_from rest n) (\<lambda>rest'.
     bindE (parse_seq dec k rest') (\<lambda>as. Inr (a # as))))"

lemma parse_seq_length: "parse_seq dec k buf = Inr as \<Longrightarrow> length as = k"
  by (induction k arbitrary: buf as) auto

lemma parse_seq_all:
  assumes "\<And>b a n. dec b = Inr (a, n) \<Longrightarrow> P a" and "parse_seq dec k buf = Inr as"
  shows "\<forall>a \<in> set as. P a"
  using assms(2)
proof (induction k arbitrary: buf as)
  case (Suc k)
  then show ?case using assms(1) by fastforce
qed simp

lemma parse_seq_no_panic:
  assumes "\<And>b. no_panic (dec b)" and "\<And>b a n. dec b = Inr (a, n) \<Longrightarrow> n \<le> length b"
  shows "no_panic (parse_seq dec k buf)"
proof (induction k arbitrary: buf)
  case (Suc k)
  show ?case
    by (auto intro!: no_panic_bindE assms(1) Suc split: prod.splits
        dest: assms(2) simp: slice_from_in)
qed simp

locale framed_codec =
  fixes enc :: "'a \<Rightarrow> bytes"
    and dec :: "bytes \<Rightarrow> ('a \<times> nat) result"
    and ok :: "'a \<Rightarrow> bool"
  assumes dec_enc: "ok a \<Longrightarrow> dec (enc a @ rest) = Inr (a, length (enc a))"
begin

lemma prefix_free:
  assumes "ok a" and "ok b" and "enc a @ r = enc b @ s"
  shows "a = b \<and> r = s"
proof -
  have "Inr (a, length (enc a)) = (Inr (b, length (enc b)) :: ('a \<times> nat) result)"
    using dec_enc [OF assms(1), of r] dec_enc [OF assms(2), of s] assms(3) by simp
  then show ?thesis using assms(3) by simp
qed

lemma enc_inj: "ok a \<Longrightarrow> ok b \<Longrightarrow> enc a = enc b \<Longrightarrow> a = b"
  using prefix_free [of a b "[]" "[]"] by simp

lemma parse_seq_enc:
  "\<forall>a \<in> set as. ok a \<Longrightarrow>
   parse_seq dec (length as) (concat (map enc as) @ rest) = Inr as"
  by (induction as) (simp_all add: dec_enc slice_from_in)

lemma enc_concat_inj:
  assumes "\<forall>a \<in> set as. ok a" and "\<forall>b \<in> set bs. ok b" and "length as = length bs"
    and "concat (map enc as) = concat (map enc bs)"
  shows "as = bs"
  using parse_seq_enc [OF assms(1), of "[]"] parse_seq_enc [OF assms(2), of "[]"] assms(3,4)
  by simp

end

locale text_codec =
  fixes pr :: "'a \<Rightarrow> string"
    and ps :: "string \<Rightarrow> 'a result"
    and ok :: "'a \<Rightarrow> bool"
  assumes ps_pr: "ok a \<Longrightarrow> ps (pr a) = Inr a"
begin

lemma pr_inj: "ok a \<Longrightarrow> ok b \<Longrightarrow> pr a = pr b \<Longrightarrow> a = b"
  by (metis ps_pr sum.inject(2))

lemma pr_inj_on: "inj_on pr {a. ok a}"
  by (auto intro: inj_onI pr_inj)

end

end
