(* ===== verification/Strconv.thy ===== *)
theory Strconv
  imports Codec
begin

text \<open>
  The parts of Go's \<^verbatim>\<open>strconv\<close> and \<^verbatim>\<open>strings\<close> packages the library calls:
  \<open>FormatUint\<close> and \<open>ParseUint\<close> for the bases 10 and 16 and \<open>Split\<close> on a one-byte
  separator, with the facts that make them inverse to each other.
\<close>

section \<open>Digits\<close>

definition digit_char :: "nat \<Rightarrow> char" where
  "digit_char d = (if d < 10 then char_of (48 + d) else char_of (87 + d))"

definition digit_val :: "char \<Rightarrow> nat option" where
  "digit_val c =
     (let n = of_char c :: nat in
      if 48 \<le> n \<and> n \<le> 57 then Some (n - 48)
      else if 97 \<le> n \<and> n \<le> 122 then Some (n - 87)
      else if 65 \<le> n \<and> n \<le> 90 then Some (n - 55)
      else None)"

lemma of_char_char_of_small: "n < 256 \<Longrightarrow> of_char (char_of n :: char) = (n :: nat)"
  by simp

lemma digit_val_char: "d < 36 \<Longrightarrow> digit_val (digit_char d) = Some d"
  by (simp add: digit_val_def digit_char_def Let_def)

section \<open>FormatUint\<close>

function fmt_nat :: "nat \<Rightarrow> nat \<Rightarrow> string" where
  "fmt_nat b n =
     (if n < b \<or> b < 2 then [digit_char n] else fmt_nat b (n div b) @ [digit_char (n mod b)])"
  by pat_completeness auto
termination
  by (relation "measure snd") (auto intro: div_less_dividend)

declare fmt_nat.simps [simp del]

definition FormatUint :: "nat \<Rightarrow> nat \<Rightarrow> string" where
  "FormatUint n base = fmt_nat base n"

section \<open>ParseUint\<close>

fun parse_digits :: "nat \<Rightarrow> nat \<Rightarrow> string \<Rightarrow> nat option" where
  "parse_digits b acc [] = Some acc"
| "parse_digits b acc (c # cs) =
     (case digit_val c of
        None \<Rightarrow> None
      | Some d \<Rightarrow> if d < b then parse_digits b (acc * b + d) cs else None)"

text \<open>An empty string, a non-digit and a value of more than \<open>bits\<close> bits are errors.\<close>

definition ParseUint :: "string \<Rightarrow> nat \<Rightarrow> nat \<Rightarrow> nat option" where
  "ParseUint s base bits =
     (if s = [] then None
      else case parse_digits base 0 s of
             None \<Rightarrow> None
           | Some v \<Rightarrow> if v < 2 ^ bits then Some v else None)"

lemma parse_digits_append:
  "parse_digits b acc (xs @ ys) =
     (case parse_digits b acc xs of None \<Rightarrow> None | Some v \<Rightarrow> parse_digits b v ys)"
  by (induction b acc xs rule: parse_digits.induct) (auto split: option.splits)

lemma fmt_nat_nonempty [simp]: "fmt_nat b n \<noteq> []"
  by (subst fmt_nat.simps) simp

lemma parse_digits_fmt_nat:
  assumes "2 \<le> b" and "b \<le> 36"
  shows "parse_digits b 0 (fmt_nat b n) = Some n"
  using assms
proof (induction b n rule: fmt_nat.induct)
  case (1 b n)
  show ?case
  proof (cases "n < b")
    case True
    with 1 show ?thesis by (simp add: fmt_nat.simps [of b n] digit_val_char)
  next
    case False
    have "n mod b < b" using 1 by simp
    then have "digit_val (digit_char (n mod b)) = Some (n mod b)"
      using 1 by (intro digit_val_char) linarith
    with False 1 show ?thesis
      by (simp add: fmt_nat.simps [of b n] parse_digits_append)
  qed
qed

lemma ParseUint_FormatUint:
  "2 \<le> base \<Longrightarrow> base \<le> 36 \<Longrightarrow> n < 2 ^ bits \<Longrightarrow>
   ParseUint (FormatUint n base) base bits = Some n"
  by (simp add: ParseUint_def FormatUint_def parse_digits_fmt_nat)

lemma ParseUint_bound: "ParseUint s base bits = Some v \<Longrightarrow> v < 2 ^ bits"
  by (auto simp: ParseUint_def split: if_splits option.splits)

text \<open>Every character \<open>FormatUint\<close> writes is a digit of the base.\<close>

lemma set_fmt_nat:
  assumes "2 \<le> b"
  shows "set (fmt_nat b n) \<subseteq> digit_char ` {..<b}"
  using assms
proof (induction b n rule: fmt_nat.induct)
  case (1 b n)
  show ?case
  proof (cases "n < b")
    case True
    with 1 show ?thesis by (simp add: fmt_nat.simps [of b n])
  next
    case False
    with 1 have "set (fmt_nat b (n div b)) \<subseteq> digit_char ` {..<b}" by simp
    with False 1 show ?thesis by (auto simp: fmt_nat.simps [of b n])
  qed
qed

definition is_dec :: "char \<Rightarrow> bool" where
  "is_dec c \<longleftrightarrow> 48 \<le> (of_char c :: nat) \<and> (of_char c :: nat) \<le> 57"

definition is_lower_hex :: "char \<Rightarrow> bool" where
  "is_lower_hex c \<longleftrightarrow> is_dec c \<or> 97 \<le> (of_char c :: nat) \<and> (of_char c :: nat) \<le> 102"

lemma digit_char_dec: "c \<in> digit_char ` {..<10} \<Longrightarrow> is_dec c"
  by (auto simp: digit_char_def is_dec_def)

lemma digit_char_hex: "c \<in> digit_char ` {..<16} \<Longrightarrow> is_lower_hex c"
  by (auto simp: digit_char_def is_lower_hex_def is_dec_def)

lemma FormatUint_dec: "c \<in> set (FormatUint n 10) \<Longrightarrow> is_dec c"
  using set_fmt_nat [of 10 n] by (auto simp: FormatUint_def intro: digit_char_dec)

lemma FormatUint_hex: "c \<in> set (FormatUint n 16) \<Longrightarrow> is_lower_hex c"
  using set_fmt_nat [of 16 n] by (auto simp: FormatUint_def intro: digit_char_hex)

lemma FormatUint_nonempty [simp]: "FormatUint n b \<noteq> []"
  by (simp add: FormatUint_def)

lemma FormatUint_no_dash:
  "CHR ''-'' \<notin> set (FormatUint n 10)" "CHR ''-'' \<notin> set (FormatUint n 16)"
  using FormatUint_dec [of "CHR ''-''" n] FormatUint_hex [of "CHR ''-''" n]
  by (auto simp: is_dec_def is_lower_hex_def)

lemma FormatUint_no_x: "CHR ''x'' \<notin> set (FormatUint n 10)" "CHR ''X'' \<notin> set (FormatUint n 10)"
  using FormatUint_dec [of "CHR ''x''" n] FormatUint_dec [of "CHR ''X''" n]
  by (auto simp: is_dec_def)

section \<open>strings.Split on a one-byte separator\<close>

fun split_on :: "'a \<Rightarrow> 'a list \<Rightarrow> 'a list list" where
  "split_on sep [] = [[]]"
| "split_on sep (c # cs) =
     (if c = sep then [] # split_on sep cs
      else case split_on sep cs of [] \<Rightarrow> [[c]] | w # ws \<Rightarrow> (c # w) # ws)"

lemma split_on_nonempty [simp]: "split_on sep s \<noteq> []"
  by (cases s) (auto split: list.splits)

lemma split_on_none: "sep \<notin> set s \<Longrightarrow> split_on sep s = [s]"
  by (induction s) auto

lemma split_on_append: "sep \<notin> set s \<Longrightarrow> split_on sep (s @ sep # t) = s # split_on sep t"
  by (induction s) auto

text \<open>Joining words that do not hold the separator, and splitting them again.\<close>

fun join_with :: "'a \<Rightarrow> 'a list list \<Rightarrow> 'a list" where
  "join_with sep [] = []"
| "join_with sep [w] = w"
| "join_with sep (w # ws) = w @ sep # join_with sep ws"

lemma split_on_join:
  "ws \<noteq> [] \<Longrightarrow> \<forall>w \<in> set ws. sep \<notin> set w \<Longrightarrow> split_on sep (join_with sep ws) = ws"
  by (induction sep ws rule: join_with.induct) (simp_all add: split_on_none split_on_append)

lemma join_with_Cons: "join_with sep ((c # w) # ws) = c # join_with sep (w # ws)"
  by (cases ws) auto

lemma join_with_Nil_Cons: "ws \<noteq> [] \<Longrightarrow> join_with sep ([] # ws) = sep # join_with sep ws"
  by (cases ws) auto

lemma join_with_split_on: "join_with sep (split_on sep s) = s"
  by (induction s)
     (auto simp: join_with_Nil_Cons join_with_Cons neq_Nil_conv split: list.splits)

end
