(* ===== verification/Sid.thy ===== *)
theory Sid
  imports Strconv
begin

text \<open>
  \<^verbatim>\<open>wire/sid.go\<close>: security identifiers.

  A \<open>SID\<close> holds a 68-byte array with the canonical binary encoding and a zero tail. The
  operations follow the source: \<open>ParseSID\<close>, \<open>NewSID\<close>, \<open>SIDFromString\<close>, \<open>Child\<close>,
  \<open>IsValid\<close>, \<open>SID_Bytes\<close> and \<open>SID_String\<close>. The abstract view is the pair of the 48-bit
  identifier authority and the list of sub-authorities (\<open>authority\<close>, \<open>subs\<close>), and
  \<open>sid_inv\<close> is the representation invariant (the array is unexported, so the operations
  of this theory are the only way to build a SID). The lemmas show that every operation
  keeps the invariant, that the binary and the textual forms round-trip, and that
  equality of the arrays (Go's \<open>==\<close>) is equality of the abstract view.
\<close>

section \<open>Definitions\<close>

definition maxSubAuthorities :: nat where "maxSubAuthorities = 15"

definition maxSIDBytes :: nat where "maxSIDBytes = 8 + 4 * maxSubAuthorities"

record SID =
  raw :: bytes

definition zero_SID :: SID where
  "zero_SID = \<lparr>raw = replicate maxSIDBytes 0\<rparr>"

definition ParseSID :: "bytes \<Rightarrow> SID result" where
  "ParseSID buf =
     (if length buf < 8 \<or> buf ! 0 \<noteq> 1 then Inl ErrBadSID
      else bindE (index_at buf 1) (\<lambda>c.
        let count = unat c in
        if count > maxSubAuthorities then Inl ErrBadSID
        else
          let n = 8 + 4 * count in
          if length buf < n then Inl ErrBadSID
          else bindE (slice buf 0 n) (\<lambda>b.
            Inr \<lparr>raw = copy_into (replicate maxSIDBytes 0) b\<rparr>)))"

definition NewSID :: "u64 \<Rightarrow> u32 list \<Rightarrow> SID result" where
  "NewSID auth sas =
     (if length sas > maxSubAuthorities then Inl ErrBadSID
      else Inr \<lparr>raw = copy_into (replicate maxSIDBytes 0)
             ([1, of_nat (length sas)]
              @ map (\<lambda>i. ucast (drop_bit (8 * (5 - i)) auth)) [0..<6]
              @ concat (map (\<lambda>sa. [ucast sa, ucast (drop_bit 8 sa),
                                    ucast (drop_bit 16 sa), ucast (drop_bit 24 sa)]) sas))\<rparr>)"

definition IsValid :: "SID \<Rightarrow> bool" where
  "IsValid s \<longleftrightarrow> raw s ! 0 = 1"

definition sub_count :: "SID \<Rightarrow> nat" where
  "sub_count s = unat (raw s ! 1)"

text \<open>The 48-bit big-endian authority, read as \<^verbatim>\<open>auth = auth<<8 | uint64(x)\<close>.\<close>

definition authority :: "SID \<Rightarrow> u64" where
  "authority s = foldl (\<lambda>a x. push_bit 8 a OR ucast x) 0 (take 6 (drop 2 (raw s)))"

definition sub_at :: "SID \<Rightarrow> nat \<Rightarrow> u32" where
  "sub_at s i =
     (let off = 8 + 4 * i in
      ucast (raw s ! off) OR push_bit 8 (ucast (raw s ! (off + 1)))
      OR push_bit 16 (ucast (raw s ! (off + 2))) OR push_bit 24 (ucast (raw s ! (off + 3))))"

definition subs :: "SID \<Rightarrow> u32 list" where
  "subs s = map (sub_at s) [0..<sub_count s]"

definition SID_Bytes :: "SID \<Rightarrow> bytes" where
  "SID_Bytes s = (if \<not> IsValid s then [] else take (8 + 4 * sub_count s) (raw s))"

definition SID_String :: "SID \<Rightarrow> string" where
  "SID_String s =
     (if \<not> IsValid s then ''S-?''
      else
        ''S-1-''
        @ (if authority s \<ge> 2 ^ 32 then ''0x'' @ FormatUint (unat (authority s)) 16
           else FormatUint (unat (authority s)) 10)
        @ concat (map (\<lambda>i. CHR ''-'' # FormatUint (unat (sub_at s i)) 10) [0..<sub_count s]))"

fun parse_subs :: "string list \<Rightarrow> u32 list result" where
  "parse_subs [] = Inr []"
| "parse_subs (p # ps) =
     (case ParseUint p 10 32 of
        None \<Rightarrow> Inl ErrBadSID
      | Some v \<Rightarrow> bindE (parse_subs ps) (\<lambda>vs. Inr (of_nat v # vs)))"

definition SIDFromString :: "string \<Rightarrow> SID result" where
  "SIDFromString s =
     (let parts = split_on (CHR ''-'') s in
      if length parts < 3 \<or> parts ! 0 \<noteq> ''S'' \<or> parts ! 1 \<noteq> ''1'' then Inl ErrBadSID
      else
        let a = parts ! 2;
            auth = (if length a > 2 \<and> (take 2 a = ''0x'' \<or> take 2 a = ''0X'')
                    then ParseUint (drop 2 a) 16 48
                    else ParseUint a 10 48)
        in case auth of
             None \<Rightarrow> Inl ErrBadSID
           | Some v \<Rightarrow> bindE (parse_subs (drop 3 parts)) (NewSID (of_nat v)))"

definition Child :: "SID \<Rightarrow> u32 \<Rightarrow> SID result" where
  "Child s rid =
     (if \<not> IsValid s then Inl ErrBadSID
      else
        let count = sub_count s in
        if count \<ge> maxSubAuthorities then Inl ErrBadSID
        else
          let off = 8 + 4 * count in
          bindE (put_at (raw s) off
                   [ucast rid, ucast (drop_bit 8 rid), ucast (drop_bit 16 rid), ucast (drop_bit 24 rid)])
            (\<lambda>r. Inr \<lparr>raw = r[1 := of_nat (count + 1)]\<rparr>))"

text \<open>The representation invariant: 68 bytes; all zero, or revision 1, at most 15
  sub-authorities and a zero tail.\<close>

definition sid_inv :: "SID \<Rightarrow> bool" where
  "sid_inv s \<longleftrightarrow> length (raw s) = maxSIDBytes \<and>
     (s = zero_SID \<or>
      IsValid s \<and> sub_count s \<le> maxSubAuthorities \<and>
      drop (8 + 4 * sub_count s) (raw s) = replicate (maxSIDBytes - (8 + 4 * sub_count s)) 0)"

definition valid_sid :: "SID \<Rightarrow> bool" where
  "valid_sid s \<longleftrightarrow> sid_inv s \<and> IsValid s"

section \<open>The canonical layout\<close>

lemmas sid_consts = maxSubAuthorities_def maxSIDBytes_def

text \<open>The encoding of an abstract SID.\<close>

definition sid_enc :: "u64 \<Rightarrow> u32 list \<Rightarrow> bytes" where
  "sid_enc a ss = [1, of_nat (length ss)] @ be_bytes 6 a @ concat (map le32 ss)"

lemma length_concat_le32 [simp]: "length (concat (map le32 ss)) = 4 * length ss"
  by (induction ss) auto

lemma length_sid_enc [simp]: "length (sid_enc a ss) = 8 + 4 * length ss"
  by (simp add: sid_enc_def)

lemma be6_eq: "map (\<lambda>i. ucast (drop_bit (8 * (5 - i)) a)) [0..<6] = be_bytes 6 (a :: u64)"
  by (simp add: be_bytes_def eval_nat_numeral drop_bit_drop_bit)

lemma le32_eq:
  "[ucast sa, ucast (drop_bit 8 sa), ucast (drop_bit 16 sa), ucast (drop_bit 24 sa)] = le32 sa"
  by (simp add: eval_nat_numeral drop_bit_drop_bit)

lemma NewSID_eq:
  "NewSID a ss = (if length ss > 15 then Inl ErrBadSID
     else Inr \<lparr>raw = sid_enc a ss @ replicate (60 - 4 * length ss) 0\<rparr>)"
  by (simp add: NewSID_def be6_eq le32_eq sid_enc_def copy_into_def sid_consts del: upt_rec_numeral)

fun chunk4 :: "nat \<Rightarrow> bytes \<Rightarrow> u32 list" where
  "chunk4 0 b = []"
| "chunk4 (Suc n) b = le_val (take 4 b) # chunk4 n (drop 4 b)"

lemma length_chunk4 [simp]: "length (chunk4 n b) = n"
  by (induction n arbitrary: b) auto

lemma chunk4_concat: "chunk4 (length ss) (concat (map le32 ss) @ r) = ss"
  by (induction ss) (simp_all add: codec_simps)

lemma concat_chunk4: "length b = 4 * n \<Longrightarrow> concat (map le32 (chunk4 n b)) = b"
proof (induction n arbitrary: b)
  case (Suc n)
  have "le32 (le_val (take 4 b)) = take 4 b"
    using Suc.prems by (simp add: le_bytes_le_val_take)
  moreover have "concat (map le32 (chunk4 n (drop 4 b))) = drop 4 b"
    by (rule Suc.IH) (use Suc.prems in simp)
  ultimately show ?case by simp
qed simp

lemma chunk4_nth: "i < n \<Longrightarrow> chunk4 n b ! i = le_val (take 4 (drop (4 * i) b))"
proof (induction n arbitrary: i b)
  case (Suc n)
  show ?case using Suc by (cases i) (auto simp: add.commute)
qed simp

lemma take4_drop:
  assumes "off + 4 \<le> length xs"
  shows "take 4 (drop off xs) = [xs ! off, xs ! (off + 1), xs ! (off + 2), xs ! (off + 3)]"
  using assms by (intro nth_equalityI) (auto simp: nth_Cons' numeral_eq_Suc less_Suc_eq)

lemma sub_at_eq:
  assumes "8 + 4 * i + 4 \<le> length (raw s)"
  shows "sub_at s i = le_val (take 4 (drop (8 + 4 * i) (raw s)))"
  by (simp add: sub_at_def Let_def take4_drop [OF assms] push_bit_or push_bit_push_bit)

lemma subs_eq:
  assumes "8 + 4 * sub_count s \<le> length (raw s)"
  shows "subs s = chunk4 (sub_count s) (drop 8 (raw s))"
  by (rule nth_equalityI) (use assms in \<open>auto simp: subs_def chunk4_nth sub_at_eq add.commute\<close>)

lemma authority_eq: "authority s = be_val (take 6 (drop 2 (raw s)))"
proof -
  have "foldl (\<lambda>a x. push_bit 8 a OR ucast x) 0 bs = (le_val (rev bs) :: u64)" for bs
    by (induction bs rule: rev_induct) (simp_all add: or.commute)
  then show ?thesis by (simp add: authority_def be_val_def)
qed

text \<open>What the accessors read from a canonical layout.\<close>

lemma sid_enc_view:
  assumes "length ss \<le> 15" and "raw s = sid_enc a ss @ r"
  shows "IsValid s" "sub_count s = length ss" "subs s = ss" "authority s = take_bit 48 a"
proof -
  show valid: "IsValid s" using assms(2) by (simp add: IsValid_def sid_enc_def)
  show cnt: "sub_count s = length ss"
    using assms by (simp add: sub_count_def sid_enc_def)
  have "drop 8 (raw s) = concat (map le32 ss) @ r"
    using assms(2) by (simp add: sid_enc_def numeral_eq_Suc)
  then show "subs s = ss"
    using assms by (simp add: subs_eq cnt chunk4_concat)
  have "take 6 (drop 2 (raw s)) = be_bytes 6 a"
    using assms(2) by (simp add: sid_enc_def)
  then show "authority s = take_bit 48 a"
    by (simp add: authority_eq be_val_def be_bytes_def le_val_le_bytes)
qed

text \<open>Every valid SID has the canonical layout of its abstract view.\<close>

lemma valid_sid_layout:
  assumes "valid_sid s"
  shows "raw s = sid_enc (authority s) (subs s) @ replicate (60 - 4 * length (subs s)) 0"
    and "length (subs s) \<le> 15" and "sub_count s = length (subs s)"
proof -
  have len: "length (raw s) = 68" and v: "raw s ! 0 = 1" and c: "sub_count s \<le> 15"
    and tl: "drop (8 + 4 * sub_count s) (raw s) = replicate (60 - 4 * sub_count s) 0"
    using assms by (auto simp: valid_sid_def sid_inv_def sid_consts zero_SID_def IsValid_def)
  show cnt: "sub_count s = length (subs s)" by (simp add: subs_def)
  show "length (subs s) \<le> 15" using c cnt by simp
  have "subs s = chunk4 (sub_count s) (take (4 * sub_count s) (drop 8 (raw s)))"
    using len c by (subst subs_eq) (auto intro!: nth_equalityI simp: chunk4_nth min_def drop_take)
  then have "concat (map le32 (subs s)) = take (4 * sub_count s) (drop 8 (raw s))"
    using len c by (simp add: concat_chunk4)
  moreover have "be_bytes 6 (authority s) = take 6 (drop 2 (raw s))"
    using le_bytes_le_val [of "rev (take 6 (drop 2 (raw s)))", where 'a = 64] len
    by (simp add: authority_eq be_val_def be_bytes_def)
  moreover have "[1, of_nat (sub_count s)] = take 2 (raw s)"
    using len v by (intro nth_equalityI) (auto simp: sub_count_def less_Suc_eq)
  ultimately have "sid_enc (authority s) (subs s)
      = take 2 (raw s) @ take 6 (drop 2 (raw s)) @ take (4 * sub_count s) (drop 8 (raw s))"
    by (simp add: sid_enc_def flip: cnt)
  also have "\<dots> = take (8 + 4 * sub_count s) (raw s)"
    using take_add [of 2 6 "raw s"] by (simp add: take_add)
  finally show "raw s = sid_enc (authority s) (subs s) @ replicate (60 - 4 * length (subs s)) 0"
    using tl cnt by (metis append_take_drop_id)
qed

lemma valid_sid_IsValid [dest]: "valid_sid s \<Longrightarrow> IsValid s"
  by (simp add: valid_sid_def)

lemma sid_inv_zero [simp]: "sid_inv zero_SID"
  by (simp add: sid_inv_def zero_SID_def)

lemma zero_not_valid [simp]: "\<not> IsValid zero_SID"
  by (simp add: IsValid_def zero_SID_def sid_consts)

lemma sid_inv_cases: "sid_inv s \<Longrightarrow> s = zero_SID \<or> valid_sid s"
  by (auto simp: sid_inv_def valid_sid_def)

lemma valid_sid_inv [dest]: "valid_sid s \<Longrightarrow> sid_inv s"
  by (simp add: valid_sid_def)

text \<open>A SID with the canonical layout of an abstract SID is valid.\<close>

lemma layout_valid:
  assumes "length ss \<le> 15" and "raw s = sid_enc a ss @ replicate (60 - 4 * length ss) 0"
  shows "valid_sid s"
  using sid_enc_view [OF assms] assms
  by (simp add: valid_sid_def sid_inv_def sid_consts)

lemma SID_eqI:
  assumes "valid_sid s" and "valid_sid t" and "authority s = authority t" and "subs s = subs t"
  shows "s = t"
  using valid_sid_layout(1) [OF assms(1)] valid_sid_layout(1) [OF assms(2)] assms(3,4)
  by (simp add: SID.equality)

section \<open>NewSID and the abstract view\<close>

lemma authority_48: "take_bit 48 (authority s) = authority s"
  by (simp add: authority_eq be_val_def take_bit_le_val)

lemma SID_Bytes_layout:
  assumes "valid_sid s"
  shows "SID_Bytes s = sid_enc (authority s) (subs s)"
  using valid_sid_layout [OF assms] assms
  by (simp add: SID_Bytes_def valid_sid_IsValid)

lemma length_SID_Bytes: "valid_sid s \<Longrightarrow> length (SID_Bytes s) = 8 + 4 * length (subs s)"
  by (simp add: SID_Bytes_layout)

lemma length_SID_Bytes_le: "valid_sid s \<Longrightarrow> length (SID_Bytes s) \<le> 68"
  using valid_sid_layout(2) [of s] by (simp add: length_SID_Bytes)

lemma SID_Bytes_invalid [simp]: "SID_Bytes zero_SID = []"
  by (simp add: SID_Bytes_def)

section \<open>The binary form\<close>

lemma ParseSID_enc:
  assumes "length ss \<le> 15"
  shows "ParseSID (sid_enc a ss @ rest)
    = Inr \<lparr>raw = sid_enc a ss @ replicate (60 - 4 * length ss) 0\<rparr>"
proof -
  have "(sid_enc a ss @ rest) ! 0 = 1" and "(sid_enc a ss @ rest) ! 1 = of_nat (length ss)"
    by (simp_all add: sid_enc_def)
  then show ?thesis
    using assms by (simp add: ParseSID_def sid_consts go_simps Let_def copy_into_def)
qed

lemma ParseSID_no_panic: "no_panic (ParseSID buf)"
  by (auto simp: ParseSID_def Let_def go_simps sid_consts)

lemma ParseSID_error: "ParseSID buf = Inl e \<Longrightarrow> e = ErrBadSID"
  by (auto simp: ParseSID_def Let_def go_simps sid_consts split: if_splits)

lemma ParseSID_round: "valid_sid s \<Longrightarrow> ParseSID (SID_Bytes s @ rest) = Inr s"
  using valid_sid_layout [of s] by (simp add: SID_Bytes_layout ParseSID_enc)

lemma ParseSID_sound:
  assumes "ParseSID buf = Inr s"
  shows "valid_sid s" and "take (length (SID_Bytes s)) buf = SID_Bytes s"
proof -
  have len: "8 \<le> length buf" "buf ! 0 = 1" "unat (buf ! 1) \<le> 15"
    "8 + 4 * unat (buf ! 1) \<le> length buf"
    and s: "raw s = take (8 + 4 * unat (buf ! 1)) buf @ replicate (60 - 4 * unat (buf ! 1)) 0"
    using assms
    by (auto simp: ParseSID_def Let_def go_simps sid_consts copy_into_def split: if_splits)
  have nth: "raw s ! 0 = 1" "raw s ! 1 = buf ! 1"
    using len by (simp_all add: s nth_append)
  then have "sub_count s = unat (buf ! 1)" by (simp add: sub_count_def)
  then show v: "valid_sid s"
    using len nth by (simp add: valid_sid_def sid_inv_def IsValid_def sid_consts s)
  show "take (length (SID_Bytes s)) buf = SID_Bytes s"
    using len nth \<open>sub_count s = _\<close> by (simp add: SID_Bytes_def IsValid_def s min_def)
qed

text \<open>C11
  The binary decoder is exactly the inverse of the encoder. \<open>ParseSID\<close> accepts a buffer
  with result \<open>s\<close> if and only if \<open>s\<close> is a valid SID (revision 1, at most 15
  sub-authorities, zero tail) and the buffer begins with the canonical bytes of \<open>s\<close>;
  bytes after them are ignored.\<close>

theorem ParseSID_iff:
  "ParseSID buf = Inr s \<longleftrightarrow> valid_sid s \<and> (\<exists>rest. buf = SID_Bytes s @ rest)"
proof
  assume "ParseSID buf = Inr s"
  then have "valid_sid s" and "take (length (SID_Bytes s)) buf = SID_Bytes s"
    by (rule ParseSID_sound)+
  moreover from this(2) have "buf = SID_Bytes s @ drop (length (SID_Bytes s)) buf"
    by (metis append_take_drop_id)
  ultimately show "valid_sid s \<and> (\<exists>rest. buf = SID_Bytes s @ rest)" by blast
qed (auto simp: ParseSID_round)

interpretation sid_codec: framed_codec SID_Bytes
  "\<lambda>b. bindE (ParseSID b) (\<lambda>s. Inr (s, length (SID_Bytes s)))" valid_sid
  by unfold_locales (simp add: ParseSID_round)

text \<open>
  Go's \<open>==\<close> on two SIDs that satisfy the representation invariant is equality of their
  encodings, so a SID is usable as a map key.\<close>

theorem SID_eq_iff_bytes:
  assumes "sid_inv s" and "sid_inv t"
  shows "s = t \<longleftrightarrow> SID_Bytes s = SID_Bytes t"
proof
  assume eq: "SID_Bytes s = SID_Bytes t"
  have nonempty: "SID_Bytes u \<noteq> []" if "valid_sid u" for u
    using length_SID_Bytes [OF that] by auto
  show "s = t"
    using sid_inv_cases [OF assms(1)] sid_inv_cases [OF assms(2)] eq nonempty sid_codec.enc_inj
    by (metis SID_Bytes_invalid)
qed simp

theorem SID_eq_iff_bytes_witness:
  "sid_inv (projr (NewSID 5 [18])) \<and> sid_inv (projr (NewSID 5 [19])) \<and>
   projr (NewSID 5 [18]) \<noteq> projr (NewSID 5 [19])"
proof -
  have i: "sid_inv (projr (NewSID 5 [18]))" "sid_inv (projr (NewSID 5 [19]))"
    by code_simp+
  have "SID_Bytes (projr (NewSID 5 [18])) \<noteq> SID_Bytes (projr (NewSID 5 [19]))"
    by code_simp
  with SID_eq_iff_bytes [OF i] i show ?thesis by simp
qed

section \<open>NewSID and Child\<close>

lemma NewSID_valid: "NewSID a ss = Inr s \<Longrightarrow> valid_sid s"
  by (rule layout_valid [of ss _ a]) (auto simp: NewSID_eq split: if_splits)

text \<open>
  \<open>NewSID\<close> fails exactly on more than 15 sub-authorities; otherwise it builds a valid SID
  that holds the sub-authorities given and the low 48 bits of the authority.\<close>

theorem NewSID_spec:
  "NewSID a ss = (if length ss > 15 then Inl ErrBadSID
     else Inr \<lparr>raw = sid_enc a ss @ replicate (60 - 4 * length ss) 0\<rparr>)
   \<and> (NewSID a ss = Inr s \<longleftrightarrow>
        length ss \<le> 15 \<and> valid_sid s \<and> authority s = take_bit 48 a \<and> subs s = ss)"
proof (intro conjI iffI)
  assume "NewSID a ss = Inr s"
  then have l: "length ss \<le> 15" and r: "raw s = sid_enc a ss @ replicate (60 - 4 * length ss) 0"
    by (auto simp: NewSID_eq split: if_splits)
  show "length ss \<le> 15" by (rule l)
  show "valid_sid s" by (rule layout_valid [OF l r])
  show "authority s = take_bit 48 a" and "subs s = ss" by (rule sid_enc_view [OF l r])+
next
  assume *: "length ss \<le> 15 \<and> valid_sid s \<and> authority s = take_bit 48 a \<and> subs s = ss"
  then have l: "length ss \<le> 15" by simp
  let ?t = "\<lparr>raw = sid_enc a ss @ replicate (60 - 4 * length ss) 0\<rparr>"
  have r: "raw ?t = sid_enc a ss @ replicate (60 - 4 * length ss) 0" by simp
  have "?t = s"
    using * by (intro SID_eqI) (simp_all only: layout_valid [OF l r] sid_enc_view [OF l r])
  then show "NewSID a ss = Inr s" using l by (simp add: NewSID_eq)
qed (simp add: NewSID_eq)

lemma NewSID_subs: "NewSID a ss = Inr s \<Longrightarrow> subs s = ss"
  using sid_enc_view [of ss s a] by (auto simp: NewSID_eq split: if_splits)

lemma NewSID_view:
  assumes "valid_sid s"
  shows "NewSID (authority s) (subs s) = Inr s"
  using valid_sid_layout [OF assms] by (simp add: NewSID_eq)

lemma Child_layout:
  assumes v: "valid_sid s" and lt: "length (subs s) < 15"
  shows "Child s rid = NewSID (authority s) (subs s @ [rid])"
proof -
  let ?n = "length (subs s)"
  note lay = valid_sid_layout [OF v]
  let ?body = "be_bytes 6 (authority s) @ concat (map le32 (subs s))"
  have raw: "raw s = 1 # of_nat ?n # ?body @ replicate 4 0 @ replicate (56 - 4 * ?n) 0"
  proof -
    have "replicate (60 - 4 * ?n) (0::u8) = replicate 4 0 @ replicate (56 - 4 * ?n) 0"
      using lt by (simp flip: replicate_add)
    then show ?thesis by (subst lay(1)) (simp only: sid_enc_def append_assoc append_Cons append_Nil)
  qed
  have "put_at (raw s) (8 + 4 * ?n) (le32 rid)
      = Inr ((1 # of_nat ?n # ?body) @ le32 rid @ replicate (56 - 4 * ?n) 0)"
    using put_at_mid [of "1 # of_nat ?n # ?body" "8 + 4 * ?n" "le32 rid" "replicate 4 0"]
    by (simp add: raw)
  then show ?thesis
    using v lt lay(3)
    by (simp add: Child_def valid_sid_IsValid le32_eq sid_consts Let_def NewSID_eq sid_enc_def)
qed

lemma Child_eq:
  assumes "sid_inv s"
  shows "Child s rid =
    (if IsValid s \<and> length (subs s) < 15 then NewSID (authority s) (subs s @ [rid])
     else Inl ErrBadSID)"
proof (cases "IsValid s")
  case True
  with assms have v: "valid_sid s" by (simp add: valid_sid_def)
  then show ?thesis
    using Child_layout [OF v] valid_sid_layout(3) [OF v] True
    by (auto simp: Child_def sid_consts Let_def)
qed (simp add: Child_def)

text \<open>
  \<open>Child\<close> on a valid SID fails exactly when it already holds 15 sub-authorities;
  otherwise it is the valid SID with the same authority and the relative identifier
  appended. On an invalid SID it fails.\<close>

theorem Child_spec:
  assumes "sid_inv s"
  shows "Child s rid =
    (if IsValid s \<and> length (subs s) < 15 then NewSID (authority s) (subs s @ [rid])
     else Inl ErrBadSID)"
  using assms by (rule Child_eq)

theorem Child_spec_witness:
  "sid_inv (projr (NewSID 5 [21])) \<and>
   Child (projr (NewSID 5 [21])) 512 = NewSID 5 [21, 512]"
proof -
  have i: "sid_inv (projr (NewSID 5 [21]))" by code_simp
  have a: "IsValid (projr (NewSID 5 [21]))" "length (subs (projr (NewSID 5 [21]))) < 15"
    "authority (projr (NewSID 5 [21])) = 5" "subs (projr (NewSID 5 [21])) = [21]"
    by code_simp+
  show ?thesis using i Child_spec [OF i, of 512] by (simp add: a)
qed

lemma Child_valid: "sid_inv s \<Longrightarrow> Child s rid = Inr c \<Longrightarrow> valid_sid c"
  by (auto simp: Child_eq dest: NewSID_valid split: if_splits)

section \<open>The textual form\<close>

lemma join_with_concat:
  "join_with sep (w # map f xs) = w @ concat (map (\<lambda>x. sep # f x) xs)"
  by (induction xs arbitrary: w) auto

definition auth_text :: "u64 \<Rightarrow> string" where
  "auth_text a = (if a \<ge> 2 ^ 32 then ''0x'' @ FormatUint (unat a) 16 else FormatUint (unat a) 10)"

definition sub_text :: "u32 \<Rightarrow> string" where
  "sub_text v = FormatUint (unat v) 10"

lemma SID_String_join:
  assumes "IsValid s"
  shows "SID_String s = join_with (CHR ''-'')
    (''S'' # ''1'' # auth_text (authority s) # map sub_text (subs s))"
  using assms
  by (simp add: SID_String_def join_with_concat subs_def auth_text_def sub_text_def comp_def)

lemma no_dash_auth: "CHR ''-'' \<notin> set (auth_text a)"
  by (simp add: auth_text_def FormatUint_no_dash)

lemma no_dash_sub: "CHR ''-'' \<notin> set (sub_text v)"
  by (simp add: sub_text_def FormatUint_no_dash)

lemma split_SID_String:
  assumes "IsValid s"
  shows "split_on (CHR ''-'') (SID_String s)
    = ''S'' # ''1'' # auth_text (authority s) # map sub_text (subs s)"
  unfolding SID_String_join [OF assms]
  by (rule split_on_join) (auto simp: no_dash_auth no_dash_sub)

lemma parse_subs_text: "parse_subs (map sub_text vs) = Inr vs"
proof (induction vs)
  case (Cons v vs)
  have "unat v < 2 ^ 32" using unsigned_less [of v] by simp
  then have "ParseUint (sub_text v) 10 32 = Some (unat v)"
    by (simp add: sub_text_def ParseUint_FormatUint)
  with Cons show ?case by simp
qed simp

lemma take2_not_hex: "take 2 (FormatUint n 10) \<noteq> ''0x'' \<and> take 2 (FormatUint n 10) \<noteq> ''0X''"
proof -
  have "set (take 2 (FormatUint n 10)) \<subseteq> set (FormatUint n 10)" by (rule set_take_subset)
  then show ?thesis using FormatUint_no_x [of n] by auto
qed

lemma auth_text_parse:
  assumes "take_bit 48 a = a"
  shows "(if length (auth_text a) > 2 \<and> (take 2 (auth_text a) = ''0x'' \<or> take 2 (auth_text a) = ''0X'')
      then ParseUint (drop 2 (auth_text a)) 16 48 else ParseUint (auth_text a) 10 48) = Some (unat a)"
proof -
  have "unat (take_bit 48 a) < 2 ^ 48"
    using take_bit_nat_less_exp [of 48 "unat a"] by (simp add: unsigned_take_bit_eq)
  then have "unat a < 2 ^ 48" by (simp add: assms)
  then show ?thesis
    using take2_not_hex [of "unat a"]
    by (auto simp: auth_text_def ParseUint_FormatUint)
qed

interpretation sid_text: text_codec SID_String SIDFromString valid_sid
proof unfold_locales
  fix s assume v: "valid_sid s"
  note p = auth_text_parse [OF authority_48, of s]
  show "SIDFromString (SID_String s) = Inr s"
    unfolding SIDFromString_def split_SID_String [OF valid_sid_IsValid [OF v]]
    by (simp add: Let_def p parse_subs_text NewSID_view [OF v])
qed

text \<open>C37
  The textual form round-trips: \<open>SIDFromString\<close> reads back what \<open>String\<close> wrote, for
  every valid SID, whether its authority is written in decimal or in hexadecimal.\<close>

theorem SID_String_roundtrip:
  assumes "valid_sid s"
  shows "SIDFromString (SID_String s) = Inr s"
  by (rule sid_text.ps_pr [OF assms])

theorem SID_String_roundtrip_witness:
  "valid_sid (projr (NewSID 0x123456789abc [32, 544])) \<and>
   SIDFromString (SID_String (projr (NewSID 0x123456789abc [32, 544])))
     = NewSID 0x123456789abc [32, 544]"
proof -
  have v: "valid_sid (projr (NewSID 0x123456789abc [32, 544]))" by code_simp
  have "NewSID 0x123456789abc [32, 544] = Inr (projr (NewSID 0x123456789abc [32, 544]))"
    by code_simp
  with v SID_String_roundtrip [OF v] show ?thesis by simp
qed

lemma SIDFromString_valid: "SIDFromString t = Inr s \<Longrightarrow> valid_sid s"
  by (auto simp: SIDFromString_def Let_def dest: NewSID_valid split: if_splits option.splits)

end
