(* ===== verification/WellKnown.thy ===== *)
theory WellKnown
  imports Sid
begin

text \<open>
  \<^verbatim>\<open>sd/wellknown.go\<close>: the well-known SIDs, their table and the reverse lookup.
\<close>

datatype WellKnown = WK_Null | Everyone | Anonymous | AuthenticatedUsers | LocalSystem
  | LocalService | NetworkService | BuiltinAdministrators | BuiltinUsers | UntrustedIL | LowIL
  | MediumIL | MediumPlusIL | HighIL | SystemIL | ProtectedProcessIL | CreatorOwner | CreatorGroup

definition allWellKnown :: "WellKnown list" where
  "allWellKnown = [WK_Null, Everyone, Anonymous, AuthenticatedUsers, LocalSystem,
     LocalService, NetworkService, BuiltinAdministrators, BuiltinUsers,
     UntrustedIL, LowIL, MediumIL, MediumPlusIL, HighIL, SystemIL,
     ProtectedProcessIL, CreatorOwner, CreatorGroup]"

fun wk_parts :: "WellKnown \<Rightarrow> u64 \<times> u32 list" where
  "wk_parts WK_Null = (0, [0])"
| "wk_parts Everyone = (1, [0])"
| "wk_parts Anonymous = (5, [7])"
| "wk_parts AuthenticatedUsers = (5, [11])"
| "wk_parts LocalSystem = (5, [18])"
| "wk_parts LocalService = (5, [19])"
| "wk_parts NetworkService = (5, [20])"
| "wk_parts BuiltinAdministrators = (5, [32, 544])"
| "wk_parts BuiltinUsers = (5, [32, 545])"
| "wk_parts UntrustedIL = (16, [0])"
| "wk_parts LowIL = (16, [4096])"
| "wk_parts MediumIL = (16, [8192])"
| "wk_parts MediumPlusIL = (16, [8448])"
| "wk_parts HighIL = (16, [12288])"
| "wk_parts SystemIL = (16, [16384])"
| "wk_parts ProtectedProcessIL = (16, [20480])"
| "wk_parts CreatorOwner = (3, [0])"
| "wk_parts CreatorGroup = (3, [1])"

text \<open>\<^verbatim>\<open>s, _ := wire.NewSID(...)\<close>: the zero SID where \<open>NewSID\<close> fails.\<close>

definition wk_SID :: "WellKnown \<Rightarrow> SID" where
  "wk_SID w = (case NewSID (fst (wk_parts w)) (snd (wk_parts w)) of Inl _ \<Rightarrow> zero_SID | Inr s \<Rightarrow> s)"

fun wk_String :: "WellKnown \<Rightarrow> string" where
  "wk_String WK_Null = ''Null''"
| "wk_String Everyone = ''Everyone''"
| "wk_String Anonymous = ''Anonymous''"
| "wk_String AuthenticatedUsers = ''Authenticated Users''"
| "wk_String LocalSystem = ''LocalSystem''"
| "wk_String LocalService = ''LocalService''"
| "wk_String NetworkService = ''NetworkService''"
| "wk_String BuiltinAdministrators = ''BUILTIN'' @ [CHR 0x5C] @ ''Administrators''"
| "wk_String BuiltinUsers = ''BUILTIN'' @ [CHR 0x5C] @ ''Users''"
| "wk_String UntrustedIL = ''Untrusted IL''"
| "wk_String LowIL = ''Low IL''"
| "wk_String MediumIL = ''Medium IL''"
| "wk_String MediumPlusIL = ''Medium-Plus IL''"
| "wk_String HighIL = ''High IL''"
| "wk_String SystemIL = ''System IL''"
| "wk_String ProtectedProcessIL = ''Protected-Process IL''"
| "wk_String CreatorOwner = ''Creator Owner''"
| "wk_String CreatorGroup = ''Creator Group''"

definition LookupWellKnown :: "SID \<Rightarrow> WellKnown option" where
  "LookupWellKnown sid = find (\<lambda>cand. wk_SID cand = sid) allWellKnown"

lemma wk_view:
  "valid_sid (wk_SID w) \<and> authority (wk_SID w) = fst (wk_parts w) \<and> subs (wk_SID w) = snd (wk_parts w)"
proof -
  have len: "length (snd (wk_parts w)) \<le> 15" by (cases w) simp_all
  have 48: "take_bit 48 (fst (wk_parts w)) = fst (wk_parts w)" by (cases w) simp_all
  let ?s = "\<lparr>raw = sid_enc (fst (wk_parts w)) (snd (wk_parts w))
    @ replicate (60 - 4 * length (snd (wk_parts w))) 0\<rparr>"
  have s: "wk_SID w = ?s" using len by (simp add: wk_SID_def NewSID_eq)
  have r: "raw (wk_SID w) = sid_enc (fst (wk_parts w)) (snd (wk_parts w))
    @ replicate (60 - 4 * length (snd (wk_parts w))) 0" by (simp add: s)
  show ?thesis
    using layout_valid [OF len r] sid_enc_view [OF len r] 48 by simp
qed

lemma wk_SID_valid [intro]: "valid_sid (wk_SID w)"
  using wk_view by blast

lemma wk_parts_inj: "wk_parts v = wk_parts w \<Longrightarrow> v = w"
  by (cases v; cases w) simp_all

lemma wk_SID_inj: "wk_SID v = wk_SID w \<longleftrightarrow> v = w"
  using wk_view [of v] wk_view [of w] wk_parts_inj [of v w] by (metis prod.collapse)

lemma in_allWellKnown: "w \<in> set allWellKnown"
  by (cases w) (simp_all add: allWellKnown_def)

lemma find_unique:
  assumes "x \<in> set xs" and "\<And>y. P y \<longleftrightarrow> y = x"
  shows "find P xs = Some x"
  using assms by (induction xs) auto

text \<open>
  Every well-known identity has a valid SID, no two share one, and \<open>LookupWellKnown\<close>
  finds exactly the identity a SID belongs to.\<close>

theorem LookupWellKnown_iff:
  "valid_sid (wk_SID w) \<and> (LookupWellKnown sid = Some w \<longleftrightarrow> sid = wk_SID w)"
proof (intro conjI iffI)
  show "valid_sid (wk_SID w)" ..
  show "LookupWellKnown sid = Some w \<Longrightarrow> sid = wk_SID w"
    by (auto simp: LookupWellKnown_def find_Some_iff)
  show "LookupWellKnown sid = Some w" if "sid = wk_SID w"
    unfolding LookupWellKnown_def that
    by (rule find_unique [OF in_allWellKnown]) (simp add: wk_SID_inj)
qed

end
