(* ===== verification/Utf.thy ===== *)
theory Utf
  imports Prelude
begin

text \<open>
  The parts of Go's \<^verbatim>\<open>unicode/utf8\<close> and \<^verbatim>\<open>unicode/utf16\<close> packages, and of the conversions
  between strings and rune slices, that the library uses: \<open>DecodeRune\<close>, \<open>utf8.Valid\<close>,
  \<open>[]rune(s)\<close>, \<open>string(runes)\<close>, \<open>utf16.Encode\<close>, \<open>utf16.Decode\<close>. A rune is a \<open>nat\<close>. An
  invalid byte decodes to U+FFFD with width 1, as in Go. The lemmas show that a valid
  UTF-8 string survives the detour over runes and over UTF-16 code units.
\<close>

section \<open>UTF-8\<close>

definition rune_error :: nat where "rune_error = 0xFFFD"

definition cont_byte :: "nat \<Rightarrow> bool" where
  "cont_byte x \<longleftrightarrow> 0x80 \<le> x \<and> x \<le> 0xBF"

text \<open>The range of the second byte, by the first (\<open>acceptRanges\<close>).\<close>

definition accept_lo :: "nat \<Rightarrow> nat" where
  "accept_lo x = (if x = 0xE0 then 0xA0 else if x = 0xF0 then 0x90 else 0x80)"

definition accept_hi :: "nat \<Rightarrow> nat" where
  "accept_hi x = (if x = 0xED then 0x9F else if x = 0xF4 then 0x8F else 0xBF)"

text \<open>\<open>(rune, width, valid)\<close>; \<open>valid\<close> is false exactly on Go's \<open>(RuneError, 1)\<close> and
  \<open>(RuneError, 0)\<close>.\<close>

definition decode_rune :: "bytes \<Rightarrow> nat \<times> nat \<times> bool" where
  "decode_rune b =
     (case map unat b of
        [] \<Rightarrow> (rune_error, 0, False)
      | x # t \<Rightarrow>
          if x < 0x80 then (x, 1, True)
          else if 0xC2 \<le> x \<and> x \<le> 0xDF then
            (case t of
               y # _ \<Rightarrow> if cont_byte y then ((x - 0xC0) * 64 + (y - 0x80), 2, True)
                       else (rune_error, 1, False)
             | _ \<Rightarrow> (rune_error, 1, False))
          else if 0xE0 \<le> x \<and> x \<le> 0xEF then
            (case t of
               y # z # _ \<Rightarrow>
                 if accept_lo x \<le> y \<and> y \<le> accept_hi x \<and> cont_byte z
                 then ((x - 0xE0) * 4096 + (y - 0x80) * 64 + (z - 0x80), 3, True)
                 else (rune_error, 1, False)
             | _ \<Rightarrow> (rune_error, 1, False))
          else if 0xF0 \<le> x \<and> x \<le> 0xF4 then
            (case t of
               y # z # w # _ \<Rightarrow>
                 if accept_lo x \<le> y \<and> y \<le> accept_hi x \<and> cont_byte z \<and> cont_byte w
                 then ((x - 0xF0) * 262144 + (y - 0x80) * 4096 + (z - 0x80) * 64 + (w - 0x80), 4, True)
                 else (rune_error, 1, False)
             | _ \<Rightarrow> (rune_error, 1, False))
          else (rune_error, 1, False))"

function runes :: "bytes \<Rightarrow> nat list" where
  "runes b = (if b = [] then []
     else case decode_rune b of (r, n, _) \<Rightarrow> r # runes (drop (max 1 n) b))"
  by pat_completeness auto
termination
  by (relation "measure length") auto

function utf8_valid :: "bytes \<Rightarrow> bool" where
  "utf8_valid b = (if b = [] then True
     else case decode_rune b of (r, n, ok) \<Rightarrow> ok \<and> utf8_valid (drop (max 1 n) b))"
  by pat_completeness auto
termination
  by (relation "measure length") auto

declare runes.simps [simp del] utf8_valid.simps [simp del]

definition scalar :: "nat \<Rightarrow> bool" where
  "scalar r \<longleftrightarrow> r < 0xD800 \<or> 0xE000 \<le> r \<and> r \<le> 0x10FFFF"

definition encode_rune :: "nat \<Rightarrow> bytes" where
  "encode_rune r0 =
     (let r = (if scalar r0 then r0 else rune_error) in
      map of_nat
       (if r < 0x80 then [r]
        else if r < 0x800 then [0xC0 + r div 64, 0x80 + r mod 64]
        else if r < 0x10000 then [0xE0 + r div 4096, 0x80 + r div 64 mod 64, 0x80 + r mod 64]
        else [0xF0 + r div 262144, 0x80 + r div 4096 mod 64, 0x80 + r div 64 mod 64,
              0x80 + r mod 64]))"

definition string_of_runes :: "nat list \<Rightarrow> bytes" where
  "string_of_runes rs = concat (map encode_rune rs)"

lemma unat_of_nat_u8: "word_of_nat (unat (x :: u8)) = x"
  by simp

lemma decode_rune_cases:
  assumes "decode_rune b = (r, n, True)"
  obtains
    (1) x where "map unat (take n b) = [x]" "n = 1" "n \<le> length b" "x < 0x80" "r = x"
  | (2) x y where "map unat (take n b) = [x, y]" "n = 2" "n \<le> length b"
      "0xC2 \<le> x" "x \<le> 0xDF" "cont_byte y" "r = (x - 0xC0) * 64 + (y - 0x80)"
  | (3) x y z where "map unat (take n b) = [x, y, z]" "n = 3" "n \<le> length b"
      "0xE0 \<le> x" "x \<le> 0xEF" "accept_lo x \<le> y" "y \<le> accept_hi x" "cont_byte z"
      "r = (x - 0xE0) * 4096 + (y - 0x80) * 64 + (z - 0x80)"
  | (4) x y z w where "map unat (take n b) = [x, y, z, w]" "n = 4" "n \<le> length b"
      "0xF0 \<le> x" "x \<le> 0xF4" "accept_lo x \<le> y" "y \<le> accept_hi x" "cont_byte z" "cont_byte w"
      "r = (x - 0xF0) * 262144 + (y - 0x80) * 4096 + (z - 0x80) * 64 + (w - 0x80)"
proof -
  obtain x t where b: "map unat b = x # t"
    using assms by (cases "map unat b") (auto simp: decode_rune_def)
  have len: "length b = Suc (length t)" using arg_cong [OF b, of length] by simp
  note dec = assms [unfolded decode_rune_def b list.case]
  consider "x < 0x80" | "0xC2 \<le> x" "x \<le> 0xDF" | "0xE0 \<le> x" "x \<le> 0xEF" | "0xF0 \<le> x" "x \<le> 0xF4"
    using dec by (auto split: if_splits)
  then show thesis
  proof cases
    case 1
    with dec have "r = x" "n = 1" by auto
    with 1 b len show thesis by (intro that(1)) (simp_all add: take_map [symmetric])
  next
    case 2
    with dec obtain y t' where "t = y # t'" "cont_byte y" "r = (x - 0xC0) * 64 + (y - 0x80)" "n = 2"
      by (auto split: list.splits if_splits)
    with 2 b len show thesis by (intro that(2)) (simp_all add: take_map [symmetric])
  next
    case 3
    with dec obtain y z t' where "t = y # z # t'" "accept_lo x \<le> y" "y \<le> accept_hi x" "cont_byte z"
      "r = (x - 0xE0) * 4096 + (y - 0x80) * 64 + (z - 0x80)" "n = 3"
      by (auto split: list.splits if_splits)
    with 3 b len show thesis by (intro that(3)) (simp_all add: take_map [symmetric])
  next
    case 4
    with dec obtain y z w t' where "t = y # z # w # t'" "accept_lo x \<le> y" "y \<le> accept_hi x"
      "cont_byte z" "cont_byte w"
      "r = (x - 0xF0) * 262144 + (y - 0x80) * 4096 + (z - 0x80) * 64 + (w - 0x80)" "n = 4"
      by (auto split: list.splits if_splits)
    with 4 b len show thesis by (intro that(4)) (simp_all add: take_map [symmetric])
  qed
qed

lemma div_mod_shift:
  fixes a b m :: nat
  assumes "b < m"
  shows "(a * m + b) div m = a" and "(a * m + b) mod m = b"
  using assms by auto

lemma encode_rune_ranges:
  assumes "scalar r"
  shows "r < 0x80 \<Longrightarrow> encode_rune r = map of_nat [r]"
    and "0x80 \<le> r \<Longrightarrow> r < 0x800 \<Longrightarrow> encode_rune r = map of_nat [0xC0 + r div 64, 0x80 + r mod 64]"
    and "0x800 \<le> r \<Longrightarrow> r < 0x10000 \<Longrightarrow> encode_rune r
      = map of_nat [0xE0 + r div 4096, 0x80 + r div 64 mod 64, 0x80 + r mod 64]"
    and "0x10000 \<le> r \<Longrightarrow> encode_rune r
      = map of_nat [0xF0 + r div 262144, 0x80 + r div 4096 mod 64, 0x80 + r div 64 mod 64,
          0x80 + r mod 64]"
  using assms by (simp_all add: encode_rune_def Let_def del: of_nat_add)

lemma map_unat_of_nat: "\<forall>x \<in> set xs. x < 256 \<Longrightarrow> map unat (map of_nat xs :: bytes) = xs"
  by (induction xs) simp_all

lemma decode_rune_encode:
  assumes "decode_rune b = (r, n, True)"
  shows "scalar r" and "encode_rune r = take n b" and "1 \<le> n" and "n \<le> length b"
proof -
  have enc: "map of_nat (map unat c) = c" for c :: bytes
    by (simp add: comp_def)
  have "scalar r \<and> map unat (encode_rune r) = map unat (take n b) \<and> 1 \<le> n \<and> n \<le> length b"
    using assms
  proof (cases rule: decode_rune_cases)
    case (1 x)
    then show ?thesis by (simp add: scalar_def encode_rune_def)
  next
    case (2 x y)
    then have y: "y - 0x80 < 64" "0x80 + (y - 0x80) = y" "y < 256" by (auto simp: cont_byte_def)
    note dm = div_mod_shift [OF y(1), of "x - 0xC0"]
    have b: "128 \<le> r" "r < 0x800" "scalar r" using 2 by (auto simp: cont_byte_def scalar_def)
    have "encode_rune r = map of_nat [x, y]"
      unfolding encode_rune_ranges(2) [OF b(3) b(1,2)] using 2 y dm by simp
    then show ?thesis using map_unat_of_nat [of "[x, y]"] 2 y b by simp
  next
    case (3 x y z)
    have z: "z - 0x80 < 64" "0x80 + (z - 0x80) = z" "z < 256"
      and y: "y - 0x80 < 64" "0x80 + (y - 0x80) = y" "y < 256"
      using 3 by (auto simp: cont_byte_def accept_lo_def accept_hi_def split: if_splits)
    have r: "r = ((x - 0xE0) * 64 + (y - 0x80)) * 64 + (z - 0x80)" using 3 by simp
    have d1: "r div 64 = (x - 0xE0) * 64 + (y - 0x80)" and m1: "r mod 64 = z - 0x80"
      unfolding r by (rule div_mod_shift [OF z(1)])+
    have d2: "r div 4096 = x - 0xE0" and m2: "r div 64 mod 64 = y - 0x80"
      using div_mod_shift [OF y(1), of "x - 0xE0"] div_mult2_eq [of r 64 64] by (simp_all add: d1)
    have b: "0x800 \<le> r" "r < 0x10000" "scalar r"
      using 3 by (auto simp: cont_byte_def scalar_def accept_lo_def accept_hi_def split: if_splits)
    have "encode_rune r = map of_nat [x, y, z]"
      unfolding encode_rune_ranges(3) [OF b(3) b(1,2)] d2 m2 m1 y(2) z(2) using 3 by simp
    then show ?thesis using map_unat_of_nat [of "[x, y, z]"] 3 y z b by simp
  next
    case (4 x y z w)
    have w: "w - 0x80 < 64" "0x80 + (w - 0x80) = w" "w < 256"
      and z: "z - 0x80 < 64" "0x80 + (z - 0x80) = z" "z < 256"
      and y: "y - 0x80 < 64" "0x80 + (y - 0x80) = y" "y < 256"
      using 4 by (auto simp: cont_byte_def accept_lo_def accept_hi_def split: if_splits)
    have r: "r = (((x - 0xF0) * 64 + (y - 0x80)) * 64 + (z - 0x80)) * 64 + (w - 0x80)" using 4 by simp
    have d1: "r div 64 = ((x - 0xF0) * 64 + (y - 0x80)) * 64 + (z - 0x80)" and m1: "r mod 64 = w - 0x80"
      unfolding r by (rule div_mod_shift [OF w(1)])+
    have d2: "r div 4096 = (x - 0xF0) * 64 + (y - 0x80)" and m2: "r div 64 mod 64 = z - 0x80"
      using div_mod_shift [OF z(1), of "(x - 0xF0) * 64 + (y - 0x80)"] div_mult2_eq [of r 64 64]
      by (simp_all add: d1)
    have d3: "r div 262144 = x - 0xF0" and m3: "r div 4096 mod 64 = y - 0x80"
      using div_mod_shift [OF y(1), of "x - 0xF0"] div_mult2_eq [of r 4096 64] by (simp_all add: d2)
    have "16 \<le> (x - 0xF0) * 64 + (y - 0x80)" "(x - 0xF0) * 64 + (y - 0x80) \<le> 271"
      using 4(4-7) y by (auto simp: accept_lo_def accept_hi_def split: if_splits)
    then have "16 \<le> r div 4096" "r div 4096 \<le> 271" by (simp_all only: d2)
    moreover have "r div 4096 * 4096 + r mod 4096 = r" "r mod 4096 < 4096" by simp_all
    ultimately have b: "0x10000 \<le> r" "scalar r" unfolding scalar_def by linarith+
    have "encode_rune r = map of_nat [x, y, z, w]"
      unfolding encode_rune_ranges(4) [OF b(2) b(1)] d3 m3 m2 m1 y(2) z(2) w(2) using 4 by simp
    then show ?thesis using map_unat_of_nat [of "[x, y, z, w]"] 4 y z w b by simp
  qed
  then show "scalar r" "encode_rune r = take n b" "1 \<le> n" "n \<le> length b"
    using enc by (metis+)
qed

lemma utf8_valid_runes:
  "utf8_valid b \<Longrightarrow> string_of_runes (runes b) = b \<and> list_all scalar (runes b)"
proof (induction b rule: length_induct)
  case (1 b)
  show ?case
  proof (cases "b = []")
    case True
    then show ?thesis by (simp add: runes.simps string_of_runes_def)
  next
    case False
    obtain r n ok where d: "decode_rune b = (r, n, ok)" by (cases "decode_rune b")
    with 1 False have ok: "ok" and v: "utf8_valid (drop (max 1 n) b)"
      by (simp_all add: utf8_valid.simps [of b])
    note dec = decode_rune_encode [OF d [unfolded eqTrueI [OF ok]]]
    have "string_of_runes (runes (drop n b)) = drop n b \<and> list_all scalar (runes (drop n b))"
      using 1 v dec(3,4) False by (simp add: max_def)
    then show ?thesis
      using False d dec by (simp add: runes.simps [of b] string_of_runes_def max_def)
  qed
qed

section \<open>UTF-16\<close>

fun utf16_encode :: "nat list \<Rightarrow> u16 list" where
  "utf16_encode [] = []"
| "utf16_encode (v # vs) =
     (if v < 0xD800 \<or> 0xE000 \<le> v \<and> v < 0x10000 then [of_nat v]
      else if 0x10000 \<le> v \<and> v \<le> 0x10FFFF
           then [of_nat (0xD800 + (v - 0x10000) div 1024), of_nat (0xDC00 + (v - 0x10000) mod 1024)]
           else [of_nat rune_error]) @ utf16_encode vs"

fun utf16_decode :: "u16 list \<Rightarrow> nat list" where
  "utf16_decode [] = []"
| "utf16_decode (u # us) =
     (let x = unat u in
      if x < 0xD800 \<or> 0xE000 \<le> x then x # utf16_decode us
      else case us of
             [] \<Rightarrow> [rune_error]
           | u2 # us' \<Rightarrow>
               let y = unat u2 in
               if x < 0xDC00 \<and> 0xDC00 \<le> y \<and> y < 0xE000
               then ((x - 0xD800) * 1024 + (y - 0xDC00) + 0x10000) # utf16_decode us'
               else rune_error # utf16_decode us)"

lemma utf16_decode_encode:
  "list_all scalar vs \<Longrightarrow> utf16_decode (utf16_encode vs) = vs"
proof (induction vs)
  case (Cons v vs)
  then have sc: "scalar v" and IH: "utf16_decode (utf16_encode vs) = vs" by simp_all
  show ?case
  proof (cases "v < 0x10000")
    case True
    then have "v < 0xD800 \<or> 0xE000 \<le> v \<and> v < 0x10000" using sc by (auto simp: scalar_def)
    then show ?thesis using IH by (auto simp: Let_def)
  next
    case False
    let ?q = "(v - 0x10000) div 1024" and ?m = "(v - 0x10000) mod 1024"
    have q: "?q < 1024" using sc False by (auto simp: scalar_def intro: less_mult_imp_div_less)
    have m: "?m < 1024" by simp
    have eq: "?q * 1024 + ?m + 0x10000 = v"
      using False div_mult_mod_eq [of "v - 0x10000" 1024] by simp
    have u: "unat (of_nat (0xD800 + ?q) :: u16) = 0xD800 + ?q"
      "unat (of_nat (0xDC00 + ?m) :: u16) = 0xDC00 + ?m"
      using q m by (simp_all del: of_nat_add)
    have "utf16_encode (v # vs)
        = of_nat (0xD800 + ?q) # of_nat (0xDC00 + ?m) # utf16_encode vs"
      using False sc by (auto simp: scalar_def)
    then show ?thesis
      using q m eq IH by (simp only: utf16_decode.simps Let_def u list.case) simp
  qed
qed simp

end
