(* ===== verification/Condition.thy ===== *)
theory Condition
  imports Sid Utf
begin

text \<open>
  \<^verbatim>\<open>sd/condition.go\<close>: the builders of conditional-ACE expressions. An \<open>Operand\<close> and a
  \<open>Condition\<close> hold an encoded fragment of the postfix token stream; the constructors
  concatenate fragments and \<open>Cond_Encode\<close> adds the magic and the padding. \<open>utf16le\<close> is
  also used by the claim encoder.
\<close>

section \<open>Token values\<close>

definition tokInt64 :: u8 where "tokInt64 = 0x04"
definition tokString :: u8 where "tokString = 0x10"
definition tokOctet :: u8 where "tokOctet = 0x18"
definition tokComposite :: u8 where "tokComposite = 0x50"
definition tokSID :: u8 where "tokSID = 0x51"
definition tokExists :: u8 where "tokExists = 0x87"
definition tokNotExists :: u8 where "tokNotExists = 0x8d"
definition tokAnd :: u8 where "tokAnd = 0xa0"
definition tokOr :: u8 where "tokOr = 0xa1"
definition tokNot :: u8 where "tokNot = 0xa2"
definition tokAttrLocal :: u8 where "tokAttrLocal = 0xf8"
definition tokAttrUser :: u8 where "tokAttrUser = 0xf9"
definition tokAttrResource :: u8 where "tokAttrResource = 0xfa"
definition tokAttrDevice :: u8 where "tokAttrDevice = 0xfb"
definition signNegative :: u8 where "signNegative = 0x02"
definition signNone :: u8 where "signNone = 0x03"
definition baseDecimal :: u8 where "baseDecimal = 0x02"

lemmas tok_defs = tokInt64_def tokString_def tokOctet_def tokComposite_def tokSID_def
  tokExists_def tokNotExists_def tokAnd_def tokOr_def tokNot_def tokAttrLocal_def
  tokAttrUser_def tokAttrResource_def tokAttrDevice_def signNegative_def signNone_def
  baseDecimal_def

datatype CompareOp = OpEqual | OpNotEqual | OpLess | OpLessEqual | OpGreater | OpGreaterEqual
  | OpContains | OpAnyOf | OpNotContains | OpNotAnyOf

fun compare_byte :: "CompareOp \<Rightarrow> u8" where
  "compare_byte OpEqual = 0x80"
| "compare_byte OpNotEqual = 0x81"
| "compare_byte OpLess = 0x82"
| "compare_byte OpLessEqual = 0x83"
| "compare_byte OpGreater = 0x84"
| "compare_byte OpGreaterEqual = 0x85"
| "compare_byte OpContains = 0x86"
| "compare_byte OpAnyOf = 0x88"
| "compare_byte OpNotContains = 0x8e"
| "compare_byte OpNotAnyOf = 0x8f"

datatype MemberOp = OpMemberOf | OpDeviceMemberOf | OpMemberOfAny | OpDeviceMemberOfAny
  | OpNotMemberOf | OpNotDeviceMemberOf | OpNotMemberOfAny | OpNotDeviceMemberOfAny

fun member_byte :: "MemberOp \<Rightarrow> u8" where
  "member_byte OpMemberOf = 0x89"
| "member_byte OpDeviceMemberOf = 0x8a"
| "member_byte OpMemberOfAny = 0x8b"
| "member_byte OpDeviceMemberOfAny = 0x8c"
| "member_byte OpNotMemberOf = 0x90"
| "member_byte OpNotDeviceMemberOf = 0x91"
| "member_byte OpNotMemberOfAny = 0x92"
| "member_byte OpNotDeviceMemberOfAny = 0x93"

section \<open>Operands\<close>

record Operand =
  otok :: bytes

text \<open>\<open>[]rune(s)\<close> first: an invalid byte of the string becomes U+FFFD.\<close>

definition utf16le :: "string \<Rightarrow> bytes" where
  "utf16le s = concat (map (\<lambda>u. [ucast u, ucast (drop_bit 8 u)]) (utf16_encode (runes (bytes_of s))))"

definition tokenWith :: "u8 \<Rightarrow> bytes \<Rightarrow> bytes" where
  "tokenWith tag data = [tag] @ le32 (of_nat (length data)) @ data"

text \<open>An \<open>int64\<close> is its 64-bit pattern; \<^verbatim>\<open>n < 0\<close> reads the pattern as signed.\<close>

definition IntOperand :: "u64 \<Rightarrow> Operand" where
  "IntOperand n = \<lparr>otok = [tokInt64] @ le64 n
     @ [if sint n < 0 then signNegative else signNone] @ [baseDecimal]\<rparr>"

definition StringOperand :: "string \<Rightarrow> Operand" where
  "StringOperand s = \<lparr>otok = tokenWith tokString (utf16le s)\<rparr>"

definition SIDOperand :: "SID \<Rightarrow> Operand" where
  "SIDOperand sid = \<lparr>otok = tokenWith tokSID (SID_Bytes sid)\<rparr>"

definition OctetOperand :: "bytes \<Rightarrow> Operand" where
  "OctetOperand data = \<lparr>otok = tokenWith tokOctet data\<rparr>"

definition LocalAttr :: "string \<Rightarrow> Operand" where
  "LocalAttr name = \<lparr>otok = tokenWith tokAttrLocal (utf16le name)\<rparr>"

definition UserAttr :: "string \<Rightarrow> Operand" where
  "UserAttr name = \<lparr>otok = tokenWith tokAttrUser (utf16le name)\<rparr>"

definition ResourceAttr :: "string \<Rightarrow> Operand" where
  "ResourceAttr name = \<lparr>otok = tokenWith tokAttrResource (utf16le name)\<rparr>"

definition DeviceAttr :: "string \<Rightarrow> Operand" where
  "DeviceAttr name = \<lparr>otok = tokenWith tokAttrDevice (utf16le name)\<rparr>"

definition Composite :: "Operand list \<Rightarrow> Operand" where
  "Composite items = \<lparr>otok = tokenWith tokComposite (concat (map otok items))\<rparr>"

section \<open>Conditions\<close>

record Condition =
  ctok :: bytes

definition Compare :: "CompareOp \<Rightarrow> Operand \<Rightarrow> Operand \<Rightarrow> Condition" where
  "Compare op lhs rhs = \<lparr>ctok = otok lhs @ otok rhs @ [compare_byte op]\<rparr>"

definition Member :: "MemberOp \<Rightarrow> Operand \<Rightarrow> Condition" where
  "Member op operand = \<lparr>ctok = otok operand @ [member_byte op]\<rparr>"

definition Exists :: "Operand \<Rightarrow> Condition" where
  "Exists operand = \<lparr>ctok = otok operand @ [tokExists]\<rparr>"

definition NotExists :: "Operand \<Rightarrow> Condition" where
  "NotExists operand = \<lparr>ctok = otok operand @ [tokNotExists]\<rparr>"

definition Cond_And :: "Condition \<Rightarrow> Condition \<Rightarrow> Condition" where
  "Cond_And c rhs = \<lparr>ctok = ctok c @ ctok rhs @ [tokAnd]\<rparr>"

definition Cond_Or :: "Condition \<Rightarrow> Condition \<Rightarrow> Condition" where
  "Cond_Or c rhs = \<lparr>ctok = ctok c @ ctok rhs @ [tokOr]\<rparr>"

definition Cond_Not :: "Condition \<Rightarrow> Condition" where
  "Cond_Not c = \<lparr>ctok = ctok c @ [tokNot]\<rparr>"

lemma pad4_measure:
  fixes n :: nat
  assumes "0 < n mod 4"
  shows "(4 - Suc n mod 4) mod 4 < 4 - n mod 4"
proof -
  have "n mod 4 < 4" by simp
  then consider "n mod 4 = 1" | "n mod 4 = 2" | "n mod 4 = 3" using assms by linarith
  then show ?thesis by cases (simp_all add: mod_Suc)
qed

function pad4 :: "bytes \<Rightarrow> bytes" where
  "pad4 out = (if length out mod 4 \<noteq> 0 then pad4 (out @ [0]) else out)"
  by pat_completeness auto
termination
  by (relation "measure (\<lambda>out. (4 - length out mod 4) mod 4)") (auto simp: pad4_measure)

declare pad4.simps [simp del]

definition artx :: bytes where "artx = bytes_of ''artx''"

definition Cond_Encode :: "Condition \<Rightarrow> bytes" where
  "Cond_Encode c = pad4 (artx @ ctok c)"

section \<open>Facts\<close>

lemma length_artx [simp]: "length artx = 4"
  by (simp add: artx_def)

lemma pad4_zeros:
  "\<exists>k. pad4 out = out @ replicate k 0 \<and> k < 4 \<and> length (pad4 out) mod 4 = 0"
proof (induction out rule: pad4.induct)
  case (1 out)
  show ?case
  proof (cases "length out mod 4 = 0")
    case True
    then show ?thesis by (intro exI [of _ 0]) (simp add: pad4.simps [of out])
  next
    case False
    with 1 obtain k where k: "pad4 (out @ [0]) = (out @ [0]) @ replicate k 0"
      "length (pad4 (out @ [0])) mod 4 = 0" "k < 4" by auto
    have "pad4 out = out @ replicate (Suc k) 0"
      using False k(1) by (subst pad4.simps) simp
    moreover have "Suc k < 4"
    proof -
      have "(length out + 1 + k) mod 4 = 0" using k(1,2) by simp
      with False k(3) show ?thesis by presburger
    qed
    ultimately show ?thesis using k(2) False by (intro exI [of _ "Suc k"]) (simp add: pad4.simps [of out])
  qed
qed

text \<open>
  The encoding of a condition is the magic \<^verbatim>\<open>artx\<close>, the tokens in order, and fewer than
  four zero bytes, up to a length that is a multiple of four.\<close>

theorem Cond_Encode_shape:
  "\<exists>k. Cond_Encode c = artx @ ctok c @ replicate k 0 \<and> k < 4 \<and> 4 dvd length (Cond_Encode c)"
  using pad4_zeros [of "artx @ ctok c"] by (auto simp: Cond_Encode_def mod_eq_0_iff_dvd)

lemma utf16le_le16: "utf16le s = concat (map le16 (utf16_encode (runes (bytes_of s))))"
proof -
  have "[ucast u, ucast (drop_bit 8 u)] = le16 u" for u :: u16
    by (simp add: numeral_2_eq_2)
  then show ?thesis by (simp add: utf16le_def)
qed

end
