(* ===== verification/Claims.thy ===== *)
theory Claims
  imports Condition
begin

text \<open>
  \<^verbatim>\<open>sd/claims.go\<close> and \<^verbatim>\<open>sd/objecttree.go\<close>: claim attributes and object-type trees, the two
  side buffers of an access check. \<open>Claim_Encode\<close> follows the source's three passes: the
  value slots are laid out, the indirect data is appended and its pointers are filled in,
  then the header and the value offsets are filled in. Each fill-in is a write into the
  payload and panics out of range; the lemmas show that none does.
\<close>

section \<open>Claims\<close>

datatype claimKind = kindInt64 | kindUInt64 | kindBoolean | kindString | kindSID | kindOctet

record claim_abi =
  CLAIM_TYPE_INT64 :: u16
  CLAIM_TYPE_UINT64 :: u16
  CLAIM_TYPE_BOOLEAN :: u16
  CLAIM_TYPE_STRING :: u16
  CLAIM_TYPE_SID :: u16
  CLAIM_TYPE_OCTET :: u16

fun typeCode :: "claim_abi \<Rightarrow> claimKind \<Rightarrow> u16" where
  "typeCode K kindInt64 = CLAIM_TYPE_INT64 K"
| "typeCode K kindUInt64 = CLAIM_TYPE_UINT64 K"
| "typeCode K kindBoolean = CLAIM_TYPE_BOOLEAN K"
| "typeCode K kindString = CLAIM_TYPE_STRING K"
| "typeCode K kindSID = CLAIM_TYPE_SID K"
| "typeCode K kindOctet = CLAIM_TYPE_OCTET K"

record ClaimValue =
  ckind :: claimKind
  ci64 :: u64
  cu64 :: u64
  cstr :: string
  csid :: SID
  coct :: bytes

definition zero_ClaimValue :: ClaimValue where
  "zero_ClaimValue = \<lparr>ckind = kindInt64, ci64 = 0, cu64 = 0, cstr = [], csid = zero_SID, coct = []\<rparr>"

definition Int64Value :: "u64 \<Rightarrow> ClaimValue" where
  "Int64Value n = zero_ClaimValue\<lparr>ckind := kindInt64, ci64 := n\<rparr>"

definition UInt64Value :: "u64 \<Rightarrow> ClaimValue" where
  "UInt64Value n = zero_ClaimValue\<lparr>ckind := kindUInt64, cu64 := n\<rparr>"

definition StringValue :: "string \<Rightarrow> ClaimValue" where
  "StringValue s = zero_ClaimValue\<lparr>ckind := kindString, cstr := s\<rparr>"

definition SIDValue :: "SID \<Rightarrow> ClaimValue" where
  "SIDValue s = zero_ClaimValue\<lparr>ckind := kindSID, csid := s\<rparr>"

definition OctetValue :: "bytes \<Rightarrow> ClaimValue" where
  "OctetValue b = zero_ClaimValue\<lparr>ckind := kindOctet, coct := b\<rparr>"

definition BoolValue :: "bool \<Rightarrow> ClaimValue" where
  "BoolValue b = zero_ClaimValue\<lparr>ckind := kindBoolean, cu64 := (if b then 1 else 0)\<rparr>"

record Claim =
  cName :: string
  cFlags :: u32
  cValues :: "ClaimValue list"

text \<open>The layout loop: payload so far, the value offsets, and the slots to fill in later.\<close>

type_synonym layout = "bytes \<times> u32 list \<times> (nat \<times> bytes) list"

definition lay_value :: "layout \<Rightarrow> ClaimValue \<Rightarrow> layout" where
  "lay_value st v =
     (case st of (payload, offs, inds) \<Rightarrow>
       let offs' = offs @ [of_nat (length payload)] in
       case ckind v of
         kindInt64 \<Rightarrow> (payload @ le64 (ci64 v), offs', inds)
       | kindUInt64 \<Rightarrow> (payload @ le64 (cu64 v), offs', inds)
       | kindBoolean \<Rightarrow> (payload @ le64 (cu64 v), offs', inds)
       | kindString \<Rightarrow>
           (payload @ le32 0, offs', inds @ [(length payload, utf16le (cstr v) @ [0, 0])])
       | kindSID \<Rightarrow> (payload @ le32 0, offs', inds @ [(length payload, SID_Bytes (csid v))])
       | kindOctet \<Rightarrow>
           (payload @ le32 0, offs',
            inds @ [(length payload, le32 (of_nat (length (coct v))) @ coct v)]))"

fun backfill :: "bytes \<Rightarrow> (nat \<times> bytes) list \<Rightarrow> bytes result" where
  "backfill payload [] = Inr payload"
| "backfill payload ((slot, data) # inds) =
     bindE (put_at payload slot (le32 (of_nat (length payload)))) (\<lambda>p. backfill (p @ data) inds)"

fun put_offsets :: "nat \<Rightarrow> bytes \<Rightarrow> u32 list \<Rightarrow> bytes result" where
  "put_offsets i payload [] = Inr payload"
| "put_offsets i payload (off # offs) =
     bindE (put_at payload (16 + i * 4) (le32 off)) (\<lambda>p. put_offsets (Suc i) p offs)"

definition Claim_Encode :: "claim_abi \<Rightarrow> Claim \<Rightarrow> bytes result" where
  "Claim_Encode K c =
     (case cValues c of
        [] \<Rightarrow> Inl (Wrap ''libp/sd: claim has no values: '' ErrBadClaim)
      | v0 # _ \<Rightarrow>
          if \<exists>v \<in> set (cValues c). ckind v \<noteq> ckind v0
          then Inl (Wrap ''libp/sd: claim has mixed value kinds: '' ErrBadClaim)
          else
            let count = length (cValues c);
                payload0 = replicate (16 + count * 4) 0;
                nameOffset = of_nat (length payload0);
                payload1 = payload0 @ utf16le (cName c) @ [0, 0];
                (payload2, offs, inds) = foldl lay_value (payload1, [], []) (cValues c)
            in bindE (backfill payload2 inds) (\<lambda>p.
               bindE (put_at p 0 (le32 nameOffset)) (\<lambda>p.
               bindE (put_at p 4 (le16 (typeCode K (ckind v0)))) (\<lambda>p.
               bindE (put_at p 8 (le32 (cFlags c))) (\<lambda>p.
               bindE (put_at p 12 (le32 (of_nat count))) (\<lambda>p.
               put_offsets 0 p offs))))))"

fun EncodeClaimsArray :: "claim_abi \<Rightarrow> Claim list \<Rightarrow> bytes result" where
  "EncodeClaimsArray K [] = Inr []"
| "EncodeClaimsArray K (c # cs) =
     bindE (Claim_Encode K c) (\<lambda>entry.
     bindE (EncodeClaimsArray K cs) (\<lambda>out.
     Inr (le32 (of_nat (length entry)) @ entry @ out)))"

section \<open>Object-type trees\<close>

type_synonym GUID = bytes

record ObjectNode =
  oLevel :: u16
  oGUID :: GUID

definition EncodeObjectTree :: "ObjectNode list \<Rightarrow> bytes" where
  "EncodeObjectTree nodes = concat (map (\<lambda>n. le16 (oLevel n) @ le16 0 @ oGUID n) nodes)"

section \<open>The encoder never panics\<close>

definition slots_in :: "bytes \<Rightarrow> (nat \<times> bytes) list \<Rightarrow> bool" where
  "slots_in p inds \<longleftrightarrow> (\<forall>(slot, d) \<in> set inds. slot + 4 \<le> length p)"

lemma slots_in_mono: "slots_in p inds \<Longrightarrow> length p \<le> length q \<Longrightarrow> slots_in q inds"
  by (fastforce simp: slots_in_def)

lemma lay_value_grows:
  assumes "lay_value (p, offs, inds) v = (p', offs', inds')" and "slots_in p inds"
  shows "length p \<le> length p' \<and> length offs' = Suc (length offs) \<and> slots_in p' inds'"
  using assms by (cases "ckind v") (fastforce simp: lay_value_def slots_in_def Let_def)+

lemma lay_values_grow:
  assumes "foldl lay_value (p, offs, inds) vs = (p', offs', inds')" and "slots_in p inds"
  shows "length p \<le> length p' \<and> length offs' = length offs + length vs \<and> slots_in p' inds'"
  using assms
proof (induction vs arbitrary: p offs inds)
  case (Cons v vs)
  obtain q o' i' where l: "lay_value (p, offs, inds) v = (q, o', i')"
    by (cases "lay_value (p, offs, inds) v")
  note g = lay_value_grows [OF l Cons.prems(2)]
  have "length q \<le> length p' \<and> length offs' = length o' + length vs \<and> slots_in p' inds'"
    by (rule Cons.IH [of q o' i']) (use Cons.prems(1) l g in auto)
  with g show ?case by simp
qed simp

lemma backfill_ok:
  "slots_in p inds \<Longrightarrow> \<exists>q. backfill p inds = Inr q \<and> length p \<le> length q"
proof (induction p inds rule: backfill.induct)
  case (2 p slot data inds)
  then have s: "slot + 4 \<le> length p" by (simp add: slots_in_def)
  let ?p = "take slot p @ le32 (of_nat (length p)) @ drop (slot + 4) p"
  have put: "put_at p slot (le32 (of_nat (length p))) = Inr ?p" using s by (simp add: put_at_def)
  have len: "length ?p = length p" using s by simp
  have "slots_in (?p @ data) inds"
    by (rule slots_in_mono [of p]) (use 2(2) len in \<open>auto simp: slots_in_def\<close>)
  then obtain q where "backfill (?p @ data) inds = Inr q" "length (?p @ data) \<le> length q"
    using 2(1) by blast
  then show ?case using put len by auto
qed simp

lemma put_offsets_ok:
  "16 + (i + length offs) * 4 \<le> length p \<Longrightarrow> \<exists>q. put_offsets i p offs = Inr q \<and> length q = length p"
proof (induction i p offs rule: put_offsets.induct)
  case (2 i p off offs)
  then obtain q where q: "put_at p (16 + i * 4) (le32 off) = Inr q"
    by (simp add: put_at_def)
  then have "length q = length p" by (rule put_at_length)
  with 2(1) [of q] 2(2) q show ?case by auto
qed simp

lemma put_at_ok: "off + length bs \<le> length p \<Longrightarrow> \<exists>q. put_at p off bs = Inr q \<and> length q = length p"
  by (auto simp: put_at_def)

definition claim_ok :: "Claim \<Rightarrow> bool" where
  "claim_ok c \<longleftrightarrow>
     cValues c \<noteq> [] \<and> list_all (\<lambda>v. ckind v = ckind (hd (cValues c))) (cValues c)"

lemma Claim_Encode_total:
  "((\<exists>b. Claim_Encode K c = Inr b) \<longleftrightarrow> claim_ok c)
   \<and> (case Claim_Encode K c of Inl e \<Rightarrow> errors_is e ErrBadClaim | Inr b \<Rightarrow> True)"
proof -
  have *: "\<exists>b. Claim_Encode K c = Inr b"
    if ne: "cValues c = v0 # vs" and same: "\<forall>v \<in> set (cValues c). ckind v = ckind v0" for v0 vs
  proof -
    let ?n = "length (cValues c)"
    let ?p1 = "replicate (16 + ?n * 4) (0::u8) @ utf16le (cName c) @ [0, 0]"
    obtain p2 offs inds where f: "foldl lay_value (?p1, [], []) (cValues c) = (p2, offs, inds)"
      by (cases "foldl lay_value (?p1, [], []) (cValues c)")
    have g: "length ?p1 \<le> length p2" "length offs = ?n" "slots_in p2 inds"
      using lay_values_grow [OF f] by (simp_all add: slots_in_def)
    obtain p3 where b: "backfill p2 inds = Inr p3" "length p2 \<le> length p3"
      using backfill_ok [OF g(3)] by blast
    then have len: "16 + ?n * 4 \<le> length p3" using g(1) by simp
    obtain p4 where p4: "put_at p3 0 (le32 (of_nat (16 + ?n * 4))) = Inr p4" "length p4 = length p3"
      using put_at_ok [of 0 "le32 (of_nat (16 + ?n * 4))" p3] len by auto
    obtain p5 where p5: "put_at p4 4 (le16 (typeCode K (ckind v0))) = Inr p5" "length p5 = length p3"
      using put_at_ok [of 4 "le16 (typeCode K (ckind v0))" p4] len p4 by auto
    obtain p6 where p6: "put_at p5 8 (le32 (cFlags c)) = Inr p6" "length p6 = length p3"
      using put_at_ok [of 8 "le32 (cFlags c)" p5] len p5 by auto
    obtain p7 where p7: "put_at p6 12 (le32 (of_nat ?n)) = Inr p7" "length p7 = length p3"
      using put_at_ok [of 12 "le32 (of_nat ?n)" p6] len p6 by auto
    obtain q where "put_offsets 0 p7 offs = Inr q"
      using put_offsets_ok [of 0 offs p7] len p7 g(2) by auto
    then have "bindE (backfill p2 inds) (\<lambda>p.
        bindE (put_at p 0 (le32 (of_nat (length (replicate (16 + ?n * 4) (0::u8)))))) (\<lambda>p.
        bindE (put_at p 4 (le16 (typeCode K (ckind v0)))) (\<lambda>p.
        bindE (put_at p 8 (le32 (cFlags c))) (\<lambda>p.
        bindE (put_at p 12 (le32 (of_nat ?n))) (\<lambda>p. put_offsets 0 p offs))))) = Inr q"
      by (simp only: b(1) p4(1) p5(1) p6(1) p7(1) bindE_simps length_replicate)
    moreover have "\<not> (\<exists>v \<in> set (cValues c). ckind v \<noteq> ckind v0)" using same by blast
    ultimately show ?thesis
      unfolding Claim_Encode_def Let_def f prod.case
      by (simp only: ne list.case if_False) blast
  qed
  show ?thesis
  proof (cases "cValues c")
    case Nil
    then show ?thesis by (simp add: Claim_Encode_def claim_ok_def)
  next
    case (Cons v0 vs)
    show ?thesis
    proof (cases "\<exists>v \<in> set (cValues c). ckind v \<noteq> ckind v0")
      case True
      then have e: "Claim_Encode K c = Inl (Wrap ''libp/sd: claim has mixed value kinds: '' ErrBadClaim)"
        by (simp add: Claim_Encode_def Cons)
      have "\<not> claim_ok c"
        using True Cons by (auto simp: claim_ok_def list_all_iff)
      then show ?thesis by (simp add: e)
    next
      case False
      then obtain b where "Claim_Encode K c = Inr b" using * [OF Cons] by blast
      then show ?thesis using False Cons by (auto simp: claim_ok_def list_all_iff)
    qed
  qed
qed

text \<open>
  \<open>EncodeClaimsArray\<close> succeeds exactly when every claim has values, all of one kind; the
  only error is \<open>ErrBadClaim\<close>, and none of the encoder's fill-in writes is out of range.\<close>

theorem EncodeClaimsArray_total:
  "((\<exists>b. EncodeClaimsArray K cs = Inr b) \<longleftrightarrow>
     list_all (\<lambda>c. cValues c \<noteq> [] \<and> list_all (\<lambda>v. ckind v = ckind (hd (cValues c))) (cValues c)) cs)
   \<and> (case EncodeClaimsArray K cs of Inl e \<Rightarrow> errors_is e ErrBadClaim | Inr b \<Rightarrow> True)"
proof (induction cs)
  case (Cons c cs)
  show ?case
    using Cons Claim_Encode_total [of K c]
    by (cases "Claim_Encode K c"; cases "EncodeClaimsArray K cs") (simp_all add: claim_ok_def)
qed simp

lemma EncodeClaimsArray_iff: "(\<exists>b. EncodeClaimsArray K cs = Inr b) \<longleftrightarrow> list_all claim_ok cs"
proof (induction cs)
  case (Cons c cs)
  then show ?case
    using Claim_Encode_total [of K c]
    by (cases "Claim_Encode K c"; cases "EncodeClaimsArray K cs") simp_all
qed simp

end
