(* ===== verification/Abi.thy ===== *)
theory Abi
  imports Prelude
begin

text \<open>
  The constants the library takes from \<^verbatim>\<open>github.com/peios/pkm/uapi/go\<close>, the generated kernel
  binding. That package is not part of the repository, so its values are a parameter: each
  group of constants the Go packages re-declare is a record, and every definition that uses
  one of them takes the record as its first argument. The records extend each other
  (\<open>ace_abi\<close>, then \<open>sd_abi\<close>), so one argument serves all the layers above.

  What the source relies on is stated as the predicates \<open>ace_abi_ok\<close> and \<open>sd_abi_ok\<close>: the
  ACE type codes are distinct, those of the object and callback types and no others lie in
  the range \<open>needsDSRevision\<close> tests, flags are distinct single-purpose bits, the
  self-relative header has 20 bytes. These are properties of the MS-DTYP layout the
  comments of the source refer to; \<open>ms_dtyp\<close> is the instance with the MS-DTYP values.
\<close>

section \<open>ACEs\<close>

record ace_abi =
  AceAccessAllowed :: u8
  AceAccessDenied :: u8
  AceSystemAudit :: u8
  AceSystemAlarm :: u8
  AceAccessAllowedCompound :: u8
  AceAccessAllowedObject :: u8
  AceAccessDeniedObject :: u8
  AceSystemAuditObject :: u8
  AceSystemAlarmObject :: u8
  AceAccessAllowedCallback :: u8
  AceAccessDeniedCallback :: u8
  AceAccessAllowedCallbackObject :: u8
  AceAccessDeniedCallbackObject :: u8
  AceSystemAuditCallback :: u8
  AceSystemAlarmCallback :: u8
  AceSystemAuditCallbackObject :: u8
  AceSystemAlarmCallbackObject :: u8
  AceSystemMandatoryLabel :: u8
  AceSystemResourceAttribute :: u8
  AceSystemScopedPolicyID :: u8
  AceSystemProcessTrustLabel :: u8
  AceSystemAccessFilter :: u8
  FlagObjectInherit :: u8
  FlagContainerInherit :: u8
  FlagNoPropagateInherit :: u8
  FlagInheritOnly :: u8
  FlagInherited :: u8
  FlagSuccessfulAccess :: u8
  FlagFailedAccess :: u8
  ObjectTypePresent :: u32
  InheritedObjectTypePresent :: u32

section \<open>Security descriptors\<close>

record sd_abi = ace_abi +
  sdHeaderBytes :: nat
  ControlOwnerDefaulted :: u16
  ControlGroupDefaulted :: u16
  ControlDACLPresent :: u16
  ControlDACLDefaulted :: u16
  ControlSACLPresent :: u16
  ControlSACLDefaulted :: u16
  ControlDACLAutoInherited :: u16
  ControlSACLAutoInherited :: u16
  ControlDACLProtected :: u16
  ControlSACLProtected :: u16
  ControlSelfRelative :: u16
  InfoOwner :: u32
  InfoGroup :: u32
  InfoDACL :: u32
  InfoSACL :: u32
  InfoLabel :: u32

section \<open>What the source relies on\<close>

fun disjoint_bits :: "'a::len word list \<Rightarrow> bool" where
  "disjoint_bits [] = True"
| "disjoint_bits (w # ws) = (w \<noteq> 0 \<and> list_all (\<lambda>v. w AND v = 0) ws \<and> disjoint_bits ws)"

definition simple_types :: "'m ace_abi_scheme \<Rightarrow> u8 list" where
  "simple_types U = [AceAccessAllowed U, AceAccessDenied U, AceSystemAudit U, AceSystemAlarm U,
     AceSystemMandatoryLabel U]"

definition object_types :: "'m ace_abi_scheme \<Rightarrow> u8 list" where
  "object_types U = [AceAccessAllowedObject U, AceAccessDeniedObject U, AceSystemAuditObject U,
     AceSystemAlarmObject U]"

definition callback_types :: "'m ace_abi_scheme \<Rightarrow> u8 list" where
  "callback_types U = [AceAccessAllowedCallback U, AceAccessDeniedCallback U,
     AceAccessAllowedCallbackObject U, AceAccessDeniedCallbackObject U,
     AceSystemAuditCallback U, AceSystemAlarmCallback U,
     AceSystemAuditCallbackObject U, AceSystemAlarmCallbackObject U]"

definition other_types :: "'m ace_abi_scheme \<Rightarrow> u8 list" where
  "other_types U = [AceAccessAllowedCompound U, AceSystemResourceAttribute U,
     AceSystemScopedPolicyID U, AceSystemProcessTrustLabel U, AceSystemAccessFilter U]"

definition flag_bits :: "'m ace_abi_scheme \<Rightarrow> u8 list" where
  "flag_bits U = [FlagObjectInherit U, FlagContainerInherit U, FlagNoPropagateInherit U,
     FlagInheritOnly U, FlagInherited U, FlagSuccessfulAccess U, FlagFailedAccess U]"

definition ace_abi_ok :: "'m ace_abi_scheme \<Rightarrow> bool" where
  "ace_abi_ok U \<longleftrightarrow>
     distinct (simple_types U @ object_types U @ callback_types U @ other_types U) \<and>
     list_all (\<lambda>t. 5 \<le> t \<and> t \<le> 0x10) (object_types U @ callback_types U) \<and>
     list_all (\<lambda>t. \<not> (5 \<le> t \<and> t \<le> 0x10)) (simple_types U @ other_types U) \<and>
     disjoint_bits (flag_bits U) \<and>
     disjoint_bits [ObjectTypePresent U, InheritedObjectTypePresent U]"

definition control_bits :: "'m sd_abi_scheme \<Rightarrow> u16 list" where
  "control_bits U = [ControlOwnerDefaulted U, ControlGroupDefaulted U, ControlDACLPresent U,
     ControlDACLDefaulted U, ControlSACLPresent U, ControlSACLDefaulted U,
     ControlDACLAutoInherited U, ControlSACLAutoInherited U, ControlDACLProtected U,
     ControlSACLProtected U, ControlSelfRelative U]"

definition sd_abi_ok :: "'m sd_abi_scheme \<Rightarrow> bool" where
  "sd_abi_ok U \<longleftrightarrow> ace_abi_ok U \<and> sdHeaderBytes U = 20 \<and> disjoint_bits (control_bits U) \<and>
     disjoint_bits [InfoOwner U, InfoGroup U, InfoDACL U, InfoSACL U, InfoLabel U]"

lemmas abi_lists = simple_types_def object_types_def callback_types_def other_types_def
  flag_bits_def control_bits_def

section \<open>The MS-DTYP instance\<close>

definition ms_dtyp :: sd_abi where
  "ms_dtyp = \<lparr>
     AceAccessAllowed = 0x00, AceAccessDenied = 0x01, AceSystemAudit = 0x02,
     AceSystemAlarm = 0x03, AceAccessAllowedCompound = 0x04, AceAccessAllowedObject = 0x05,
     AceAccessDeniedObject = 0x06, AceSystemAuditObject = 0x07, AceSystemAlarmObject = 0x08,
     AceAccessAllowedCallback = 0x09, AceAccessDeniedCallback = 0x0a,
     AceAccessAllowedCallbackObject = 0x0b, AceAccessDeniedCallbackObject = 0x0c,
     AceSystemAuditCallback = 0x0d, AceSystemAlarmCallback = 0x0e,
     AceSystemAuditCallbackObject = 0x0f, AceSystemAlarmCallbackObject = 0x10,
     AceSystemMandatoryLabel = 0x11, AceSystemResourceAttribute = 0x12,
     AceSystemScopedPolicyID = 0x13, AceSystemProcessTrustLabel = 0x14,
     AceSystemAccessFilter = 0x15,
     FlagObjectInherit = 0x01, FlagContainerInherit = 0x02, FlagNoPropagateInherit = 0x04,
     FlagInheritOnly = 0x08, FlagInherited = 0x10, FlagSuccessfulAccess = 0x40,
     FlagFailedAccess = 0x80,
     ObjectTypePresent = 1, InheritedObjectTypePresent = 2,
     sdHeaderBytes = 20,
     ControlOwnerDefaulted = 0x0001, ControlGroupDefaulted = 0x0002,
     ControlDACLPresent = 0x0004, ControlDACLDefaulted = 0x0008,
     ControlSACLPresent = 0x0010, ControlSACLDefaulted = 0x0020,
     ControlDACLAutoInherited = 0x0400, ControlSACLAutoInherited = 0x0800,
     ControlDACLProtected = 0x1000, ControlSACLProtected = 0x2000,
     ControlSelfRelative = 0x8000,
     InfoOwner = 0x1, InfoGroup = 0x2, InfoDACL = 0x4, InfoSACL = 0x8, InfoLabel = 0x10\<rparr>"

lemma ms_dtyp_ace_ok: "ace_abi_ok ms_dtyp"
  by code_simp

lemma ms_dtyp_ok: "sd_abi_ok ms_dtyp"
  by code_simp

end
