(* ===== verification/Ace.thy ===== *)
theory Ace
  imports Abi Claims WellKnown
begin

text \<open>
  \<^verbatim>\<open>sd/ace.go\<close>: access-control entries. \<open>ACE_Marshal\<close> writes the 4-byte header and the body,
  \<open>ParseACE\<close> reads one entry and reports its size. \<open>aRaw\<close> is an option because the source
  tests \<open>Raw != nil\<close>: \<open>None\<close> is the nil slice.

  \<open>ace_ok\<close> describes the entries in normal form (mask and SID for the simple types, mask,
  GUIDs and SID for the object types, a non-empty raw body for the rest). The lemmas show
  that the codec is a self-delimiting codec on them (an instance of \<open>framed_codec\<close>), that
  the parser never panics, consumes what the header says and yields entries in normal form,
  with the one exception of a body-less entry of a raw type.
\<close>

section \<open>Types\<close>

definition isSimpleMaskSID :: "'m ace_abi_scheme \<Rightarrow> u8 \<Rightarrow> bool" where
  "isSimpleMaskSID U t \<longleftrightarrow> t \<in> set (simple_types U)"

definition isObject :: "'m ace_abi_scheme \<Rightarrow> u8 \<Rightarrow> bool" where
  "isObject U t \<longleftrightarrow> t \<in> set (object_types U)"

definition needsDSRevision :: "u8 \<Rightarrow> bool" where
  "needsDSRevision t \<longleftrightarrow> t \<ge> 0x05 \<and> t \<le> 0x10"

record ACE =
  aType :: u8
  aFlags :: u8
  aMask :: u32
  aSID :: SID
  aObjectType :: "GUID option"
  aInheritedObjectType :: "GUID option"
  aRaw :: "bytes option"

definition zero_ACE :: ACE where
  "zero_ACE = \<lparr>aType = 0, aFlags = 0, aMask = 0, aSID = zero_SID,
     aObjectType = None, aInheritedObjectType = None, aRaw = None\<rparr>"

text \<open>\<^verbatim>\<open>append([]byte(nil), b...)\<close>: a copy, and nil where \<open>b\<close> is empty.\<close>

definition append_nil :: "bytes \<Rightarrow> bytes option" where
  "append_nil b = (if b = [] then None else Some b)"

section \<open>Constructors\<close>

definition Allow :: "'m ace_abi_scheme \<Rightarrow> SID \<Rightarrow> u32 \<Rightarrow> ACE" where
  "Allow U sid msk = zero_ACE\<lparr>aType := AceAccessAllowed U, aMask := msk, aSID := sid\<rparr>"

definition Deny :: "'m ace_abi_scheme \<Rightarrow> SID \<Rightarrow> u32 \<Rightarrow> ACE" where
  "Deny U sid msk = zero_ACE\<lparr>aType := AceAccessDenied U, aMask := msk, aSID := sid\<rparr>"

definition Audit :: "'m ace_abi_scheme \<Rightarrow> SID \<Rightarrow> u32 \<Rightarrow> ACE" where
  "Audit U sid msk = zero_ACE\<lparr>aType := AceSystemAudit U, aMask := msk, aSID := sid\<rparr>"

definition MandatoryLabel :: "'m ace_abi_scheme \<Rightarrow> SID \<Rightarrow> u32 \<Rightarrow> ACE" where
  "MandatoryLabel U integrityLevel policy =
     zero_ACE\<lparr>aType := AceSystemMandatoryLabel U, aMask := policy, aSID := integrityLevel\<rparr>"

definition AllowObject ::
  "'m ace_abi_scheme \<Rightarrow> SID \<Rightarrow> u32 \<Rightarrow> GUID option \<Rightarrow> GUID option \<Rightarrow> ACE" where
  "AllowObject U sid msk ot iot =
     zero_ACE\<lparr>aType := AceAccessAllowedObject U, aMask := msk, aSID := sid,
       aObjectType := ot, aInheritedObjectType := iot\<rparr>"

definition DenyObject ::
  "'m ace_abi_scheme \<Rightarrow> SID \<Rightarrow> u32 \<Rightarrow> GUID option \<Rightarrow> GUID option \<Rightarrow> ACE" where
  "DenyObject U sid msk ot iot =
     zero_ACE\<lparr>aType := AceAccessDeniedObject U, aMask := msk, aSID := sid,
       aObjectType := ot, aInheritedObjectType := iot\<rparr>"

definition AuditObject ::
  "'m ace_abi_scheme \<Rightarrow> SID \<Rightarrow> u32 \<Rightarrow> GUID option \<Rightarrow> GUID option \<Rightarrow> ACE" where
  "AuditObject U sid msk ot iot =
     zero_ACE\<lparr>aType := AceSystemAuditObject U, aMask := msk, aSID := sid,
       aObjectType := ot, aInheritedObjectType := iot\<rparr>"

definition RawACE :: "u8 \<Rightarrow> bytes \<Rightarrow> ACE" where
  "RawACE t b = zero_ACE\<lparr>aType := t, aRaw := append_nil b\<rparr>"

definition guid_bytes :: "GUID option \<Rightarrow> bytes" where
  "guid_bytes g = (case g of None \<Rightarrow> [] | Some b \<Rightarrow> b)"

definition objectBody ::
  "'m ace_abi_scheme \<Rightarrow> u32 \<Rightarrow> GUID option \<Rightarrow> GUID option \<Rightarrow> SID \<Rightarrow> bytes" where
  "objectBody U msk ot iot sid =
     (let present = (if ot \<noteq> None then ObjectTypePresent U else 0)
                 OR (if iot \<noteq> None then InheritedObjectTypePresent U else 0)
      in le32 msk @ le32 present @ guid_bytes ot @ guid_bytes iot @ SID_Bytes sid)"

definition callbackBody :: "u32 \<Rightarrow> SID \<Rightarrow> Condition \<Rightarrow> bytes" where
  "callbackBody msk sid cond = le32 msk @ SID_Bytes sid @ Cond_Encode cond"

definition AllowCallback :: "'m ace_abi_scheme \<Rightarrow> SID \<Rightarrow> u32 \<Rightarrow> Condition \<Rightarrow> ACE" where
  "AllowCallback U sid msk cond =
     zero_ACE\<lparr>aType := AceAccessAllowedCallback U, aRaw := Some (callbackBody msk sid cond)\<rparr>"

definition DenyCallback :: "'m ace_abi_scheme \<Rightarrow> SID \<Rightarrow> u32 \<Rightarrow> Condition \<Rightarrow> ACE" where
  "DenyCallback U sid msk cond =
     zero_ACE\<lparr>aType := AceAccessDeniedCallback U, aRaw := Some (callbackBody msk sid cond)\<rparr>"

definition AuditCallback :: "'m ace_abi_scheme \<Rightarrow> SID \<Rightarrow> u32 \<Rightarrow> Condition \<Rightarrow> ACE" where
  "AuditCallback U sid msk cond =
     zero_ACE\<lparr>aType := AceSystemAuditCallback U, aRaw := Some (callbackBody msk sid cond)\<rparr>"

definition AllowCallbackObject ::
  "'m ace_abi_scheme \<Rightarrow> SID \<Rightarrow> u32 \<Rightarrow> GUID option \<Rightarrow> GUID option \<Rightarrow> Condition \<Rightarrow> ACE" where
  "AllowCallbackObject U sid msk ot iot cond =
     zero_ACE\<lparr>aType := AceAccessAllowedCallbackObject U,
       aRaw := Some (objectBody U msk ot iot sid @ Cond_Encode cond)\<rparr>"

definition DenyCallbackObject ::
  "'m ace_abi_scheme \<Rightarrow> SID \<Rightarrow> u32 \<Rightarrow> GUID option \<Rightarrow> GUID option \<Rightarrow> Condition \<Rightarrow> ACE" where
  "DenyCallbackObject U sid msk ot iot cond =
     zero_ACE\<lparr>aType := AceAccessDeniedCallbackObject U,
       aRaw := Some (objectBody U msk ot iot sid @ Cond_Encode cond)\<rparr>"

definition AuditCallbackObject ::
  "'m ace_abi_scheme \<Rightarrow> SID \<Rightarrow> u32 \<Rightarrow> GUID option \<Rightarrow> GUID option \<Rightarrow> Condition \<Rightarrow> ACE" where
  "AuditCallbackObject U sid msk ot iot cond =
     zero_ACE\<lparr>aType := AceSystemAuditCallbackObject U,
       aRaw := Some (objectBody U msk ot iot sid @ Cond_Encode cond)\<rparr>"

definition ResourceAttribute :: "'m ace_abi_scheme \<Rightarrow> claim_abi \<Rightarrow> Claim \<Rightarrow> ACE result" where
  "ResourceAttribute U K claim =
     bindE (Claim_Encode K claim) (\<lambda>entry.
       Inr (zero_ACE\<lparr>aType := AceSystemResourceAttribute U,
              aRaw := Some (le32 0 @ SID_Bytes (wk_SID Everyone) @ entry)\<rparr>))"

section \<open>Marshal and ParseACE\<close>

definition no_structured :: gerr where
  "no_structured = Errorf ''libp/sd: ACE type has no structured encoding - use RawACE''"

definition ACE_body :: "'m ace_abi_scheme \<Rightarrow> ACE \<Rightarrow> bytes result" where
  "ACE_body U a =
     (case aRaw a of
        Some r \<Rightarrow> Inr r
      | None \<Rightarrow>
          if isObject U (aType a) then
            Inr (objectBody U (aMask a) (aObjectType a) (aInheritedObjectType a) (aSID a))
          else if isSimpleMaskSID U (aType a) then Inr (le32 (aMask a) @ SID_Bytes (aSID a))
          else Inl no_structured)"

definition ACE_Marshal :: "'m ace_abi_scheme \<Rightarrow> ACE \<Rightarrow> bytes result" where
  "ACE_Marshal U a =
     bindE (ACE_body U a) (\<lambda>body.
       let size = 4 + length body in
       if size > 0xFFFF then Inl (Errorf ''libp/sd: ACE size exceeds 65535'')
       else Inr ([aType a, aFlags a] @ le16 (of_nat size) @ body))"

text \<open>One optional GUID of an object ACE body: the GUID read and the next offset.\<close>

definition guid_field :: "u32 \<Rightarrow> u32 \<Rightarrow> bytes \<Rightarrow> nat \<Rightarrow> (GUID option \<times> nat) result" where
  "guid_field present flag body off =
     (if present AND flag \<noteq> 0 then
        if length body < off + 16 then Inl ErrBadACE
        else bindE (slice body off (off + 16)) (\<lambda>g. Inr (Some g, off + 16))
      else Inr (None, off))"

text \<open>The switch on the ACE type, on the body the header delimits.\<close>

definition parse_ace_body :: "'m ace_abi_scheme \<Rightarrow> ACE \<Rightarrow> bytes \<Rightarrow> ACE result" where
  "parse_ace_body U a body =
     (if isSimpleMaskSID U (aType a) then
        if length body < 4 then Inl ErrBadACE
        else
          bindE (get_le32 body) (\<lambda>msk.
          bindE (slice_from body 4) (\<lambda>sb.
          bindE (wrapE ''libp/sd: ACE: '' (ParseSID sb)) (\<lambda>sid.
          Inr (a\<lparr>aMask := msk, aSID := sid\<rparr>))))
      else if isObject U (aType a) then
        if length body < 8 then Inl ErrBadACE
        else
          bindE (get_le32 body) (\<lambda>msk.
          bindE (bindE (slice_from body 4) get_le32) (\<lambda>present.
          bindE (guid_field present (ObjectTypePresent U) body 8) (\<lambda>(ot, off1).
          bindE (guid_field present (InheritedObjectTypePresent U) body off1) (\<lambda>(iot, off2).
          bindE (slice_from body off2) (\<lambda>sb.
          bindE (wrapE ''libp/sd: ACE: '' (ParseSID sb)) (\<lambda>sid.
          Inr (a\<lparr>aMask := msk, aSID := sid, aObjectType := ot, aInheritedObjectType := iot\<rparr>)))))))
      else Inr (a\<lparr>aRaw := append_nil body\<rparr>))"

definition ParseACE :: "'m ace_abi_scheme \<Rightarrow> bytes \<Rightarrow> (ACE \<times> nat) result" where
  "ParseACE U buf =
     (if length buf < 4 then Inl ErrBadACE
      else bindE (bindE (slice buf 2 4) get_le16) (\<lambda>sz.
        let size = unat sz in
        if size < 4 \<or> size > length buf then Inl ErrBadACE
        else
          bindE (index_at buf 0) (\<lambda>t.
          bindE (index_at buf 1) (\<lambda>f.
          bindE (slice buf 4 size) (\<lambda>body.
          bindE (parse_ace_body U (zero_ACE\<lparr>aType := t, aFlags := f\<rparr>) body) (\<lambda>a.
          Inr (a, size)))))))"

text \<open>Entries in normal form.\<close>

definition guid_ok :: "GUID option \<Rightarrow> bool" where
  "guid_ok g = (case g of None \<Rightarrow> True | Some b \<Rightarrow> length b = 16)"

definition ace_ok :: "'m ace_abi_scheme \<Rightarrow> ACE \<Rightarrow> bool" where
  "ace_ok U a =
     (if isSimpleMaskSID U (aType a) then
        aRaw a = None \<and> valid_sid (aSID a) \<and> aObjectType a = None \<and> aInheritedObjectType a = None
      else if isObject U (aType a) then
        aRaw a = None \<and> valid_sid (aSID a) \<and> guid_ok (aObjectType a) \<and> guid_ok (aInheritedObjectType a)
      else
        (case aRaw a of None \<Rightarrow> False | Some r \<Rightarrow> r \<noteq> [] \<and> length r \<le> 65531) \<and>
        aMask a = 0 \<and> aSID a = zero_SID \<and> aObjectType a = None \<and> aInheritedObjectType a = None)"

section \<open>Facts on types\<close>

lemma simple_not_object: "ace_abi_ok U \<Longrightarrow> isSimpleMaskSID U t \<Longrightarrow> \<not> isObject U t"
  by (auto simp: ace_abi_ok_def isSimpleMaskSID_def isObject_def)

lemma present_bits:
  assumes "ace_abi_ok U"
  shows "ObjectTypePresent U \<noteq> 0" "InheritedObjectTypePresent U \<noteq> 0"
    "ObjectTypePresent U AND InheritedObjectTypePresent U = 0"
  using assms by (simp_all add: ace_abi_ok_def)

lemma present_test:
  assumes "ace_abi_ok U"
  shows "((if b then ObjectTypePresent U else 0) OR (if c then InheritedObjectTypePresent U else 0))
           AND ObjectTypePresent U \<noteq> 0 \<longleftrightarrow> b"
    and "((if b then ObjectTypePresent U else 0) OR (if c then InheritedObjectTypePresent U else 0))
           AND InheritedObjectTypePresent U \<noteq> 0 \<longleftrightarrow> c"
  using present_bits [OF assms]
  by (auto simp: bit.conj_disj_distrib2 and.commute)

lemma length_guid_bytes: "guid_ok g \<Longrightarrow> length (guid_bytes g) = (if g = None then 0 else 16)"
  by (cases g) (simp_all add: guid_ok_def guid_bytes_def)

lemma guid_field_hit:
  assumes "guid_ok g" and "present AND flag \<noteq> 0 \<longleftrightarrow> g \<noteq> None" and "length pre = off"
  shows "guid_field present flag (pre @ guid_bytes g @ rest) off
    = Inr (g, off + length (guid_bytes g))"
  using assms by (cases g) (auto simp: guid_field_def guid_ok_def guid_bytes_def slice_def)

lemma guid_field_no_panic: "no_panic (guid_field present flag body off)"
  by (auto simp: guid_field_def slice_def)

lemma guid_field_result:
  assumes "guid_field present flag body off = Inr (g, off')" and "off \<le> length body"
  shows "guid_ok g \<and> off' \<le> length body \<and> off \<le> off'"
  using assms by (auto simp: guid_field_def guid_ok_def slice_def split: if_splits)

section \<open>Round trip\<close>

text \<open>The parser without its slice expressions: none of them can be out of range.\<close>

definition ace_size :: "bytes \<Rightarrow> nat" where
  "ace_size buf = unat (le_val (take 2 (drop 2 buf)) :: u16)"

lemma ParseACE_eq:
  "ParseACE U buf =
     (if length buf < 4 \<or> ace_size buf < 4 \<or> ace_size buf > length buf then Inl ErrBadACE
      else bindE (parse_ace_body U (zero_ACE\<lparr>aType := buf ! 0, aFlags := buf ! 1\<rparr>)
                   (take (ace_size buf - 4) (drop 4 buf))) (\<lambda>a. Inr (a, ace_size buf)))"
proof (cases "length buf < 4")
  case False
  then have "index_at buf 0 = Inr (buf ! 0)" "index_at buf 1 = Inr (buf ! 1)"
    by (auto simp: index_at_def)
  with False show ?thesis by (simp add: ParseACE_def ace_size_def go_simps Let_def)
qed (simp add: ParseACE_def)

lemma ParseACE_frame:
  assumes "length body \<le> 65531"
  shows "ParseACE U (([t, f] @ le16 (of_nat (4 + length body)) @ body) @ rest)
    = bindE (parse_ace_body U (zero_ACE\<lparr>aType := t, aFlags := f\<rparr>) body) (\<lambda>a. Inr (a, 4 + length body))"
proof -
  let ?b = "([t, f] @ le16 (of_nat (4 + length body)) @ body) @ rest"
  have sz: "ace_size ?b = 4 + length body"
    using assms by (simp add: ace_size_def codec_simps del: of_nat_add)
  show ?thesis unfolding ParseACE_eq sz by simp
qed

lemma ACE_body_ok:
  assumes "ace_abi_ok U" and "ace_ok U a"
  shows "\<exists>body. ACE_body U a = Inr body \<and> length body \<le> 65531"
proof -
  have "length (SID_Bytes (aSID a)) \<le> 68" if "valid_sid (aSID a)"
    using that by (rule length_SID_Bytes_le)
  then show ?thesis
    using assms simple_not_object [OF assms(1)]
    by (auto simp: ace_ok_def ACE_body_def objectBody_def Let_def length_guid_bytes
        split: if_splits option.splits)
qed

lemma ParseACE_body:
  assumes U: "ace_abi_ok U" and ok: "ace_ok U a" and b: "ACE_body U a = Inr body"
  shows "ParseACE U (([aType a, aFlags a] @ le16 (of_nat (4 + length body)) @ body) @ rest)
    = Inr (a, 4 + length body)"
proof -
  have len: "length body \<le> 65531" using ACE_body_ok [OF U ok] b by auto
  consider (simple) "isSimpleMaskSID U (aType a)"
    | (object) "\<not> isSimpleMaskSID U (aType a)" "isObject U (aType a)"
    | (raw) "\<not> isSimpleMaskSID U (aType a)" "\<not> isObject U (aType a)" by blast
  then show ?thesis
  proof cases
    case simple
    then have v: "valid_sid (aSID a)" "aRaw a = None" "aObjectType a = None"
      "aInheritedObjectType a = None" and body: "body = le32 (aMask a) @ SID_Bytes (aSID a)"
      using ok b simple_not_object [OF U simple] by (auto simp: ace_ok_def ACE_body_def)
    show ?thesis
      unfolding ParseACE_frame [OF len]
      using simple v ParseSID_round [OF v(1), of "[]"]
      by (simp add: body parse_ace_body_def codec_simps slice_from_def zero_ACE_def)
  next
    case object
    then have v: "valid_sid (aSID a)" "aRaw a = None"
      and g: "guid_ok (aObjectType a)" "guid_ok (aInheritedObjectType a)"
      using ok by (auto simp: ace_ok_def)
    define p where "p = (if aObjectType a \<noteq> None then ObjectTypePresent U else 0)
      OR (if aInheritedObjectType a \<noteq> None then InheritedObjectTypePresent U else 0)"
    have p: "p AND ObjectTypePresent U \<noteq> 0 \<longleftrightarrow> aObjectType a \<noteq> None"
      "p AND InheritedObjectTypePresent U \<noteq> 0 \<longleftrightarrow> aInheritedObjectType a \<noteq> None"
      unfolding p_def by (rule present_test [OF U])+
    let ?g1 = "guid_bytes (aObjectType a)" and ?g2 = "guid_bytes (aInheritedObjectType a)"
    have body: "body = le32 (aMask a) @ le32 p @ ?g1 @ ?g2 @ SID_Bytes (aSID a)"
      using object b v by (simp add: ACE_body_def objectBody_def Let_def p_def)
    have f1: "guid_field p (ObjectTypePresent U) body 8 = Inr (aObjectType a, 8 + length ?g1)"
      using guid_field_hit [OF g(1) p(1), of "le32 (aMask a) @ le32 p" 8]
      by (simp add: body)
    have f2: "guid_field p (InheritedObjectTypePresent U) body (8 + length ?g1)
        = Inr (aInheritedObjectType a, 8 + length ?g1 + length ?g2)"
      using guid_field_hit [OF g(2) p(2),
          of "le32 (aMask a) @ le32 p @ ?g1" "8 + length ?g1"]
      by (simp add: body)
    have s: "slice_from body (8 + length ?g1 + length ?g2) = Inr (SID_Bytes (aSID a))"
      by (simp add: body slice_from_def)
    have m: "get_le32 body = Inr (aMask a)" "bindE (slice_from body 4) get_le32 = Inr p"
      by (simp_all add: body codec_simps slice_from_def)
    have l8: "\<not> length body < 8" by (simp add: body)
    show ?thesis
      unfolding ParseACE_frame [OF len] parse_ace_body_def
      using object v ParseSID_round [OF v(1), of "[]"]
      by (simp add: l8 m f1 f2 s zero_ACE_def)
  next
    case raw
    then show ?thesis
      unfolding ParseACE_frame [OF len]
      using ok b by (auto simp: ace_ok_def ACE_body_def append_nil_def zero_ACE_def
          parse_ace_body_def split: option.splits)
  qed
qed

lemma ACE_Marshal_ok:
  assumes "ace_abi_ok U" and "ace_ok U a"
  obtains body where "ACE_body U a = Inr body"
    and "ACE_Marshal U a = Inr ([aType a, aFlags a] @ le16 (of_nat (4 + length body)) @ body)"
  using ACE_body_ok [OF assms] by (auto simp: ACE_Marshal_def Let_def)

interpretation ace_codec: framed_codec "\<lambda>a. projr (ACE_Marshal U a)" "ParseACE U"
  "\<lambda>a. ace_abi_ok U \<and> ace_ok U a" for U :: "'m ace_abi_scheme"
proof unfold_locales
  fix a rest assume *: "ace_abi_ok U \<and> ace_ok U a"
  then obtain body where b: "ACE_body U a = Inr body"
    and m: "ACE_Marshal U a = Inr ([aType a, aFlags a] @ le16 (of_nat (4 + length body)) @ body)"
    using ACE_Marshal_ok by blast
  show "ParseACE U (projr (ACE_Marshal U a) @ rest) = Inr (a, length (projr (ACE_Marshal U a)))"
    using ParseACE_body [of U a body rest] * b by (simp add: m del: of_nat_add append_assoc)
qed

text \<open>C14
  The ACE codec round-trips and is self-delimiting: every entry in normal form is
  marshalled, and parsing the bytes, whatever follows them, gives the entry back together
  with the number of bytes it occupied.\<close>

theorem ACE_roundtrip:
  assumes "ace_abi_ok U" and "ace_ok U a"
  shows "\<exists>b. ACE_Marshal U a = Inr b \<and> ParseACE U (b @ rest) = Inr (a, length b)"
  using ace_codec.dec_enc [of U a rest] assms
  by (metis ACE_Marshal_ok sum.sel(2))

theorem ACE_roundtrip_witness:
  "ace_abi_ok ms_dtyp \<and> ace_ok ms_dtyp (Allow ms_dtyp (wk_SID Everyone) 0x80000000) \<and>
   (\<exists>b. ACE_Marshal ms_dtyp (Allow ms_dtyp (wk_SID Everyone) 0x80000000) = Inr b \<and>
     ParseACE ms_dtyp (b @ [1, 2, 3])
       = Inr (Allow ms_dtyp (wk_SID Everyone) 0x80000000, length b))"
proof -
  have ok: "ace_ok ms_dtyp (Allow ms_dtyp (wk_SID Everyone) 0x80000000)" by code_simp
  show ?thesis using ms_dtyp_ace_ok ok ACE_roundtrip [OF ms_dtyp_ace_ok ok, of "[1, 2, 3]"] by simp
qed

section \<open>What the parser accepts\<close>

lemma parse_ace_body_no_panic: "no_panic (parse_ace_body U a body)"
proof -
  have off: "slice_from body off2 \<noteq> Inl Panic"
    if "guid_field p f body 8 = Inr (ot, off1)" "guid_field p' f' body off1 = Inr (iot, off2)"
      "\<not> length body < 8" for p f p' f' ot iot off1 off2
    using that by (auto simp: slice_from_def dest!: guid_field_result)
  show ?thesis
    unfolding parse_ace_body_def
    by (auto simp: go_simps ParseSID_no_panic guid_field_no_panic no_panic_def [of "slice_from _ _"]
        intro!: no_panic_bindE split: prod.splits dest: off)
qed

lemma ParseACE_no_panic: "no_panic (ParseACE U buf)"
  by (auto simp: ParseACE_eq parse_ace_body_no_panic intro!: no_panic_bindE)

text \<open>The one shape outside the normal form: a raw-typed entry with an empty body.\<close>

definition bodyless :: "'m ace_abi_scheme \<Rightarrow> ACE \<Rightarrow> bool" where
  "bodyless U a \<longleftrightarrow> \<not> isSimpleMaskSID U (aType a) \<and> \<not> isObject U (aType a) \<and> aRaw a = None"

lemma parse_ace_body_result:
  assumes "parse_ace_body U (zero_ACE\<lparr>aType := t, aFlags := f\<rparr>) body = Inr a"
    and "length body \<le> 65531"
  shows "aType a = t" "aFlags a = f" "ace_ok U a \<or> bodyless U a"
proof -
  consider (simple) "isSimpleMaskSID U t"
    | (object) "\<not> isSimpleMaskSID U t" "isObject U t"
    | (raw) "\<not> isSimpleMaskSID U t" "\<not> isObject U t" by blast
  then have "aType a = t \<and> aFlags a = f \<and> (ace_ok U a \<or> bodyless U a)"
  proof cases
    case simple
    with assms(1) show ?thesis
      by (auto simp: parse_ace_body_def zero_ACE_def ace_ok_def split: if_splits
          dest: ParseSID_sound(1))
  next
    case object
    with assms(1) obtain present ot off1 iot off2 sb m sid where
      g: "guid_field present (ObjectTypePresent U) body 8 = Inr (ot, off1)"
        "guid_field present (InheritedObjectTypePresent U) body off1 = Inr (iot, off2)"
        "8 \<le> length body"
      and sid: "ParseSID sb = Inr sid"
      and a: "a = zero_ACE\<lparr>aType := t, aFlags := f, aMask := m, aSID := sid, aObjectType := ot,
        aInheritedObjectType := iot\<rparr>"
      by (fastforce simp: parse_ace_body_def zero_ACE_def split: if_splits prod.splits)
    from g have "guid_ok ot" "guid_ok iot" by (auto dest!: guid_field_result)
    then show ?thesis
      using object ParseSID_sound(1) [OF sid] by (simp add: a ace_ok_def zero_ACE_def)
  next
    case raw
    with assms show ?thesis
      by (cases "body = []")
         (auto simp: parse_ace_body_def zero_ACE_def ace_ok_def bodyless_def append_nil_def)
  qed
  then show "aType a = t" "aFlags a = f" "ace_ok U a \<or> bodyless U a" by auto
qed

lemma ParseACE_result:
  assumes "ParseACE U buf = Inr (a, n)"
  shows "4 \<le> n" "n \<le> length buf" "n = ace_size buf"
    "aType a = buf ! 0" "aFlags a = buf ! 1" "ace_ok U a \<or> bodyless U a"
proof -
  have sz: "ace_size buf < 65536"
    using unsigned_less [of "le_val (take 2 (drop 2 buf)) :: u16"] by (simp add: ace_size_def)
  have l: "4 \<le> ace_size buf" "ace_size buf \<le> length buf" and n: "n = ace_size buf"
    and p: "parse_ace_body U (zero_ACE\<lparr>aType := buf ! 0, aFlags := buf ! 1\<rparr>)
      (take (ace_size buf - 4) (drop 4 buf)) = Inr a"
    using assms by (auto simp: ParseACE_eq split: if_splits)
  show "4 \<le> n" "n \<le> length buf" "n = ace_size buf" using l n by simp_all
  show "aType a = buf ! 0" "aFlags a = buf ! 1" "ace_ok U a \<or> bodyless U a"
    using parse_ace_body_result [OF p] sz by simp_all
qed

text \<open>
  \<open>ParseACE\<close> is safe on every input: it never indexes or slices out of range, the size it
  reports is the header's size field, at least 4 and at most the buffer, and the entry it
  returns is in normal form unless it is a raw-typed entry without a body.\<close>

theorem ParseACE_safe:
  "no_panic (ParseACE U buf) \<and>
   (case ParseACE U buf of
      Inl e \<Rightarrow> True
    | Inr (a, n) \<Rightarrow> 4 \<le> n \<and> n \<le> length buf \<and> n = unat (le_val (take 2 (drop 2 buf)) :: u16)
        \<and> (ace_ok U a \<or> bodyless U a))"
proof (cases "ParseACE U buf")
  case (Inr r)
  obtain a n where r: "r = (a, n)" by (cases r)
  note res = ParseACE_result [OF Inr [unfolded r]]
  show ?thesis using res by (simp add: Inr r ace_size_def)
qed (use ParseACE_no_panic [of U buf] in simp)

text \<open>
  A raw-typed entry of the minimal size 4, which the parser accepts, cannot be written
  back: copying its empty body leaves \<open>Raw\<close> nil, and \<open>Marshal\<close> then rejects the type for
  having no structured encoding.\<close>

theorem ParseACE_bodyless_not_remarshalled:
  assumes "\<not> isSimpleMaskSID U t" and "\<not> isObject U t"
  shows "\<exists>a. ParseACE U [t, f, 4, 0] = Inr (a, 4) \<and> ACE_Marshal U a = Inl no_structured"
proof -
  have sz: "ace_size [t, f, 4, 0] = 4" by (simp add: ace_size_def)
  have "ParseACE U [t, f, 4, 0] = Inr (zero_ACE\<lparr>aType := t, aFlags := f\<rparr>, 4)"
    using assms by (simp add: ParseACE_eq sz append_nil_def parse_ace_body_def zero_ACE_def)
  then show ?thesis
    using assms by (auto simp: ACE_Marshal_def ACE_body_def zero_ACE_def)
qed

theorem ParseACE_bodyless_witness:
  "\<not> isSimpleMaskSID ms_dtyp 0x13 \<and> \<not> isObject ms_dtyp 0x13 \<and>
   (\<exists>a. ParseACE ms_dtyp [0x13, 0, 4, 0] = Inr (a, 4) \<and> ACE_Marshal ms_dtyp a = Inl no_structured)"
proof -
  have t: "\<not> isSimpleMaskSID ms_dtyp 0x13" "\<not> isObject ms_dtyp 0x13" by code_simp+
  show ?thesis using t ParseACE_bodyless_not_remarshalled [OF t, of 0] by simp
qed

end
