(* ===== verification/Descriptor.thy ===== *)
theory Descriptor
  imports Ace
begin

text \<open>
  \<^verbatim>\<open>sd/acl.go\<close> and \<^verbatim>\<open>sd/descriptor.go\<close>: ACLs and self-relative security descriptors.

  An absent ACL is \<open>None\<close> (the nil pointer of the source) and differs from an empty one.
  \<open>Descriptor_Marshal\<close> builds the 20-byte header and the owner, group, SACL and DACL behind
  it, then fills the header in; \<open>ParseDescriptor\<close> follows the offsets. The ACL parser is the
  counted loop \<open>parse_seq\<close> over \<open>ParseACE\<close>, so its round trip comes from the ACE codec's
  interpretation of \<open>framed_codec\<close>.
\<close>

section \<open>ACLs\<close>

definition aclRevision :: u8 where "aclRevision = 2"
definition aclRevisionDS :: u8 where "aclRevisionDS = 4"

record ACL =
  Entries :: "ACE list"

text \<open>The loop of \<open>Marshal\<close>: the concatenated entries, and whether one needs revision 4.\<close>

fun marshal_aces :: "'m ace_abi_scheme \<Rightarrow> ACE list \<Rightarrow> (bytes \<times> bool) result" where
  "marshal_aces U [] = Inr ([], False)"
| "marshal_aces U (a # as) =
     bindE (ACE_Marshal U a) (\<lambda>b.
     bindE (marshal_aces U as) (\<lambda>(bs, ds).
     Inr (b @ bs, needsDSRevision (aType a) \<or> ds)))"

definition ACL_Marshal :: "'m ace_abi_scheme \<Rightarrow> ACL \<Rightarrow> bytes result" where
  "ACL_Marshal U l =
     (if length (Entries l) > 0xFFFF then Inl (Errorf ''libp/sd: ACL has too many ACEs'')
      else bindE (marshal_aces U (Entries l)) (\<lambda>(aces, ds).
        let size = 8 + length aces in
        if size > 0xFFFF then Inl (Errorf ''libp/sd: ACL wire size exceeds 65535'')
        else Inr ([if ds then aclRevisionDS else aclRevision, 0] @ le16 (of_nat size)
                  @ le16 (of_nat (length (Entries l))) @ [0, 0] @ aces)))"

definition ParseACL :: "'m ace_abi_scheme \<Rightarrow> bytes \<Rightarrow> ACL result" where
  "ParseACL U buf =
     (if length buf < 8 then Inl ErrBadACL
      else
        bindE (bindE (slice buf 2 4) get_le16) (\<lambda>sz.
        bindE (bindE (slice buf 4 6) get_le16) (\<lambda>cnt.
        let size = unat sz; count = unat cnt in
        if size < 8 \<or> size > length buf then Inl ErrBadACL
        else
          bindE (slice buf 8 size) (\<lambda>rest.
          bindE (parse_seq (ParseACE U) count rest) (\<lambda>entries.
          Inr \<lparr>Entries = entries\<rparr>)))))"

section \<open>Descriptors\<close>

record Descriptor =
  dControl :: u16
  dOwner :: SID
  dGroup :: SID
  dDACL :: "ACL option"
  dSACL :: "ACL option"

definition zero_Descriptor :: Descriptor where
  "zero_Descriptor = \<lparr>dControl = 0, dOwner = zero_SID, dGroup = zero_SID, dDACL = None, dSACL = None\<rparr>"

definition append_sid :: "SID \<Rightarrow> bytes \<Rightarrow> u32 \<times> bytes" where
  "append_sid s out = (if IsValid s then (of_nat (length out), out @ SID_Bytes s) else (0, out))"

definition append_acl :: "'m ace_abi_scheme \<Rightarrow> ACL option \<Rightarrow> bytes \<Rightarrow> (u32 \<times> bytes) result" where
  "append_acl U l out =
     (case l of
        None \<Rightarrow> Inr (0, out)
      | Some acl \<Rightarrow> bindE (ACL_Marshal U acl) (\<lambda>b. Inr (of_nat (length out), out @ b)))"

definition marshal_control :: "'m sd_abi_scheme \<Rightarrow> Descriptor \<Rightarrow> u16" where
  "marshal_control U d =
     dControl d OR ControlSelfRelative U
     OR (if dSACL d \<noteq> None then ControlSACLPresent U else 0)
     OR (if dDACL d \<noteq> None then ControlDACLPresent U else 0)"

definition put_header :: "bytes \<Rightarrow> u16 \<Rightarrow> u32 \<Rightarrow> u32 \<Rightarrow> u32 \<Rightarrow> u32 \<Rightarrow> bytes result" where
  "put_header out control ownerOff groupOff saclOff daclOff =
     bindE (put_at out 0 [1]) (\<lambda>out.
     bindE (put_at out 2 (le16 control)) (\<lambda>out.
     bindE (put_at out 4 (le32 ownerOff)) (\<lambda>out.
     bindE (put_at out 8 (le32 groupOff)) (\<lambda>out.
     bindE (put_at out 12 (le32 saclOff)) (\<lambda>out.
     put_at out 16 (le32 daclOff))))))"

definition Descriptor_Marshal :: "'m sd_abi_scheme \<Rightarrow> Descriptor \<Rightarrow> bytes result" where
  "Descriptor_Marshal U d =
     (let out0 = replicate (sdHeaderBytes U) 0;
          (ownerOff, out1) = append_sid (dOwner d) out0;
          (groupOff, out2) = append_sid (dGroup d) out1
      in bindE (append_acl U (dSACL d) out2) (\<lambda>(saclOff, out3).
         bindE (append_acl U (dDACL d) out3) (\<lambda>(daclOff, out4).
         put_header out4 (marshal_control U d) ownerOff groupOff saclOff daclOff)))"

definition sidAt :: "bytes \<Rightarrow> u32 \<Rightarrow> SID result" where
  "sidAt buf off =
     (if unat off \<ge> length buf then Inl ErrBadSD
      else bindE (slice_from buf (unat off)) ParseSID)"

definition aclAt :: "'m ace_abi_scheme \<Rightarrow> bytes \<Rightarrow> u32 \<Rightarrow> ACL result" where
  "aclAt U buf off =
     (if unat off \<ge> length buf then Inl ErrBadSD
      else bindE (slice_from buf (unat off)) (ParseACL U))"

definition opt_sid :: "bytes \<Rightarrow> u32 \<Rightarrow> SID result" where
  "opt_sid buf off = (if off \<noteq> 0 then sidAt buf off else Inr zero_SID)"

definition opt_acl :: "'m ace_abi_scheme \<Rightarrow> bytes \<Rightarrow> u16 \<Rightarrow> u16 \<Rightarrow> u32 \<Rightarrow> ACL option result" where
  "opt_acl U buf control present off =
     (if control AND present \<noteq> 0 \<and> off \<noteq> 0
      then bindE (aclAt U buf off) (\<lambda>l. Inr (Some l)) else Inr None)"

definition ParseDescriptor :: "'m sd_abi_scheme \<Rightarrow> bytes \<Rightarrow> Descriptor result" where
  "ParseDescriptor U buf =
     (if length buf < sdHeaderBytes U then Inl ErrBadSD
      else
        bindE (bindE (slice buf 2 4) get_le16) (\<lambda>control.
        bindE (bindE (slice buf 4 8) get_le32) (\<lambda>ownerOff.
        bindE (bindE (slice buf 8 12) get_le32) (\<lambda>groupOff.
        bindE (bindE (slice buf 12 16) get_le32) (\<lambda>saclOff.
        bindE (bindE (slice buf 16 20) get_le32) (\<lambda>daclOff.
        bindE (opt_sid buf ownerOff) (\<lambda>owner.
        bindE (opt_sid buf groupOff) (\<lambda>group.
        bindE (opt_acl U buf control (ControlDACLPresent U) daclOff) (\<lambda>dacl.
        bindE (opt_acl U buf control (ControlSACLPresent U) saclOff) (\<lambda>sacl.
        Inr \<lparr>dControl = control, dOwner = owner, dGroup = group, dDACL = dacl, dSACL = sacl\<rparr>))))))))))"

section \<open>ACLs: round trip\<close>

definition ace_bytes :: "'m ace_abi_scheme \<Rightarrow> ACE \<Rightarrow> bytes" where
  "ace_bytes U a = projr (ACE_Marshal U a)"

definition aces_bytes :: "'m ace_abi_scheme \<Rightarrow> ACE list \<Rightarrow> bytes" where
  "aces_bytes U as = concat (map (ace_bytes U) as)"

definition acl_ok :: "'m ace_abi_scheme \<Rightarrow> ACL \<Rightarrow> bool" where
  "acl_ok U l \<longleftrightarrow> list_all (ace_ok U) (Entries l) \<and> length (aces_bytes U (Entries l)) \<le> 65527"

lemma ace_bytes_eq:
  assumes "ace_abi_ok U" and "ace_ok U a"
  shows "ACE_Marshal U a = Inr (ace_bytes U a)" and "4 \<le> length (ace_bytes U a)"
proof -
  obtain body where
    m: "ACE_Marshal U a = Inr ([aType a, aFlags a] @ le16 (of_nat (4 + length body)) @ body)"
    using ACE_Marshal_ok [OF assms] .
  show "ACE_Marshal U a = Inr (ace_bytes U a)" and "4 \<le> length (ace_bytes U a)"
    by (simp_all add: m ace_bytes_def)
qed

lemma marshal_aces_eq:
  assumes "ace_abi_ok U"
  shows "list_all (ace_ok U) as \<Longrightarrow>
    marshal_aces U as = Inr (aces_bytes U as, \<exists>a \<in> set as. needsDSRevision (aType a))"
  by (induction as) (simp_all add: aces_bytes_def ace_bytes_eq [OF assms])

lemma aces_count:
  assumes "ace_abi_ok U"
  shows "list_all (ace_ok U) as \<Longrightarrow> 4 * length as \<le> length (aces_bytes U as)"
proof (induction as)
  case (Cons a as)
  then show ?case using ace_bytes_eq(2) [OF assms, of a] by (simp add: aces_bytes_def)
qed (simp add: aces_bytes_def)

lemma parse_seq_aces:
  assumes "ace_abi_ok U" and "list_all (ace_ok U) as"
  shows "parse_seq (ParseACE U) (length as) (aces_bytes U as) = Inr as"
  using ace_codec.parse_seq_enc [of as U "[]"] assms
  by (auto simp: aces_bytes_def ace_bytes_def [abs_def] list_all_iff)

lemma acl_ok_bounds:
  assumes "ace_abi_ok U" and "acl_ok U l"
  shows "length (Entries l) \<le> 16381" and "length (aces_bytes U (Entries l)) \<le> 65527"
  using aces_count [OF assms(1), of "Entries l"] assms(2) by (auto simp: acl_ok_def)

lemma ACL_Marshal_eq:
  assumes "ace_abi_ok U" and "acl_ok U l"
  shows "ACL_Marshal U l
    = Inr ([if \<exists>a \<in> set (Entries l). needsDSRevision (aType a) then aclRevisionDS else aclRevision, 0]
        @ le16 (of_nat (8 + length (aces_bytes U (Entries l))))
        @ le16 (of_nat (length (Entries l))) @ [0, 0] @ aces_bytes U (Entries l))"
  using assms(2) acl_ok_bounds [OF assms]
  by (simp add: ACL_Marshal_def acl_ok_def marshal_aces_eq [OF assms(1)] Let_def del: of_nat_add)

text \<open>The parser without its slice expressions.\<close>

definition acl_size :: "bytes \<Rightarrow> nat" where
  "acl_size buf = unat (le_val (take 2 (drop 2 buf)) :: u16)"

definition acl_count :: "bytes \<Rightarrow> nat" where
  "acl_count buf = unat (le_val (take 2 (drop 4 buf)) :: u16)"

lemma ParseACL_eq:
  "ParseACL U buf =
     (if length buf < 8 \<or> acl_size buf < 8 \<or> acl_size buf > length buf then Inl ErrBadACL
      else bindE (parse_seq (ParseACE U) (acl_count buf) (take (acl_size buf - 8) (drop 8 buf)))
             (\<lambda>entries. Inr \<lparr>Entries = entries\<rparr>))"
  by (cases "length buf < 8")
     (simp_all add: ParseACL_def acl_size_def acl_count_def go_simps Let_def)

lemma ParseACL_Marshal:
  assumes "ace_abi_ok U" and "acl_ok U l" and "ACL_Marshal U l = Inr b"
  shows "ParseACL U (b @ rest) = Inr l"
proof -
  let ?n = "length (aces_bytes U (Entries l))" and ?c = "length (Entries l)"
  note bounds = acl_ok_bounds [OF assms(1,2)]
  obtain rv where b: "b = [rv, 0] @ le16 (of_nat (8 + ?n)) @ le16 (of_nat ?c) @ [0, 0]
      @ aces_bytes U (Entries l)"
    using assms(3) [unfolded ACL_Marshal_eq [OF assms(1,2)] sum.inject, symmetric] by (rule that)
  have sz: "acl_size (b @ rest) = 8 + ?n" and ct: "acl_count (b @ rest) = ?c"
    using bounds by (simp_all add: b acl_size_def acl_count_def codec_simps del: of_nat_add)
  have "take (8 + ?n - 8) (drop 8 (b @ rest)) = aces_bytes U (Entries l)"
    by (simp add: b)
  then show ?thesis
    using parse_seq_aces [OF assms(1), of "Entries l"] assms(2)
    unfolding ParseACL_eq sz ct by (simp add: acl_ok_def b)
qed

text \<open>
  The ACL codec round-trips: an ACL whose entries are in normal form and fit the 16-bit
  size field is marshalled, with the directory-services revision exactly when the type
  code of one of its entries lies in the object and callback range, and parses back to itself.\<close>

theorem ACL_roundtrip:
  assumes "ace_abi_ok U" and "acl_ok U l"
  shows "\<exists>b. ACL_Marshal U l = Inr b \<and> ParseACL U (b @ rest) = Inr l \<and> length b \<le> 65535 \<and>
    (b ! 0 = 4 \<longleftrightarrow> (\<exists>a \<in> set (Entries l). 5 \<le> aType a \<and> aType a \<le> 0x10))"
proof -
  obtain b where m: "ACL_Marshal U l = Inr b" using ACL_Marshal_eq [OF assms] by blast
  then have b: "b ! 0 = (if \<exists>a \<in> set (Entries l). needsDSRevision (aType a)
      then aclRevisionDS else aclRevision)"
    "length b = 8 + length (aces_bytes U (Entries l))"
    using ACL_Marshal_eq [OF assms] by auto
  have "ParseACL U (b @ rest) = Inr l" by (rule ParseACL_Marshal [OF assms m])
  moreover have "b ! 0 = 4 \<longleftrightarrow> (\<exists>a \<in> set (Entries l). 5 \<le> aType a \<and> aType a \<le> 0x10)"
    by (simp add: b(1) aclRevisionDS_def aclRevision_def needsDSRevision_def)
  ultimately show ?thesis using m b(2) acl_ok_bounds(2) [OF assms] by auto
qed

theorem ACL_roundtrip_witness:
  "ace_abi_ok ms_dtyp \<and> acl_ok ms_dtyp \<lparr>Entries = [Allow ms_dtyp (wk_SID Everyone) 1]\<rparr> \<and>
   (\<exists>b. ACL_Marshal ms_dtyp \<lparr>Entries = [Allow ms_dtyp (wk_SID Everyone) 1]\<rparr> = Inr b \<and>
        ParseACL ms_dtyp (b @ [7]) = Inr \<lparr>Entries = [Allow ms_dtyp (wk_SID Everyone) 1]\<rparr>)"
proof -
  have "ACE_body ms_dtyp (Allow ms_dtyp (wk_SID Everyone) 1)
      = Inr [1, 0, 0, 0, 1, 1, 0, 0, 0, 0, 0, 1, 0, 0, 0, 0]" by code_simp
  then have "length (aces_bytes ms_dtyp [Allow ms_dtyp (wk_SID Everyone) 1]) = 20"
    by (simp add: aces_bytes_def ace_bytes_def ACE_Marshal_def Let_def)
  moreover have "ace_ok ms_dtyp (Allow ms_dtyp (wk_SID Everyone) 1)" by code_simp
  ultimately have ok: "acl_ok ms_dtyp \<lparr>Entries = [Allow ms_dtyp (wk_SID Everyone) 1]\<rparr>"
    by (simp add: acl_ok_def)
  show ?thesis using ms_dtyp_ace_ok ok ACL_roundtrip [OF ms_dtyp_ace_ok ok, of "[7]"] by blast
qed

lemma ParseACL_no_panic: "no_panic (ParseACL U buf)"
  by (auto simp: ParseACL_eq intro!: no_panic_bindE parse_seq_no_panic ParseACE_no_panic
      dest: ParseACE_result(2))

section \<open>Descriptors: round trip\<close>

definition desc_ok :: "'m sd_abi_scheme \<Rightarrow> Descriptor \<Rightarrow> bool" where
  "desc_ok U d \<longleftrightarrow> sid_inv (dOwner d) \<and> sid_inv (dGroup d) \<and>
     pred_option (acl_ok U) (dDACL d) \<and> pred_option (acl_ok U) (dSACL d)"

lemma sd_abi_ace_ok: "sd_abi_ok U \<Longrightarrow> ace_abi_ok U"
  by (simp add: sd_abi_ok_def)

lemma put_header_layout:
  "put_header (replicate 20 0 @ r) c oo go so do
     = Inr ([1, 0] @ le16 c @ le32 oo @ le32 go @ le32 so @ le32 do @ r)"
proof -
  have z: "replicate 20 (0::u8) @ r = [] @ [0] @ ([0] @ replicate 2 0 @ replicate 4 0 @ replicate 4 0
      @ replicate 4 0 @ replicate 4 0 @ r)"
    by (simp add: numeral_eq_Suc)
  have 1: "put_at (replicate 20 0 @ r) 0 [1] = Inr ([1, 0] @ replicate 2 0 @ (replicate 4 0
      @ replicate 4 0 @ replicate 4 0 @ replicate 4 0 @ r))"
    unfolding z by (subst put_at_mid) simp_all
  have 2: "put_at ([1, 0] @ replicate 2 0 @ t) 2 (le16 c) = Inr (([1, 0] @ le16 c) @ t)" for t
    by (subst put_at_mid) simp_all
  have 3: "put_at (([1, 0] @ le16 c) @ replicate 4 0 @ t) 4 (le32 oo)
      = Inr (([1, 0] @ le16 c @ le32 oo) @ t)" for t
    by (subst put_at_mid) simp_all
  have 4: "put_at (([1, 0] @ le16 c @ le32 oo) @ replicate 4 0 @ t) 8 (le32 go)
      = Inr (([1, 0] @ le16 c @ le32 oo @ le32 go) @ t)" for t
    by (subst put_at_mid) simp_all
  have 5: "put_at (([1, 0] @ le16 c @ le32 oo @ le32 go) @ replicate 4 0 @ t) 12 (le32 so)
      = Inr (([1, 0] @ le16 c @ le32 oo @ le32 go @ le32 so) @ t)" for t
    by (subst put_at_mid) simp_all
  have 6: "put_at (([1, 0] @ le16 c @ le32 oo @ le32 go @ le32 so) @ replicate 4 0 @ t) 16 (le32 do)
      = Inr (([1, 0] @ le16 c @ le32 oo @ le32 go @ le32 so @ le32 do) @ t)" for t
    by (subst put_at_mid) simp_all
  show ?thesis
    unfolding put_header_def 1 2 3 4 5 6 bindE_simps by simp
qed

text \<open>The four parts behind the header, and where the writer puts them.\<close>

definition acl_bytes :: "'m ace_abi_scheme \<Rightarrow> ACL option \<Rightarrow> bytes" where
  "acl_bytes U l = (case l of None \<Rightarrow> [] | Some acl \<Rightarrow> projr (ACL_Marshal U acl))"

definition part_off :: "bool \<Rightarrow> nat \<Rightarrow> u32" where
  "part_off present n = (if present then of_nat n else 0)"

lemma append_acl_eq:
  assumes "ace_abi_ok U" and "pred_option (acl_ok U) l"
  shows "append_acl U l out = Inr (part_off (l \<noteq> None) (length out), out @ acl_bytes U l)"
    and "length (acl_bytes U l) \<le> 65535"
proof (atomize (full), cases l)
  case (Some acl)
  with assms obtain b where "ACL_Marshal U acl = Inr b" "length b \<le> 65535"
    using ACL_Marshal_eq [of U acl] acl_ok_bounds [of U acl] by auto
  with Some show "append_acl U l out = Inr (part_off (l \<noteq> None) (length out), out @ acl_bytes U l)
      \<and> length (acl_bytes U l) \<le> 65535"
    by (simp add: append_acl_def acl_bytes_def part_off_def)
qed (simp add: append_acl_def acl_bytes_def part_off_def)

lemma append_sid_eq:
  "append_sid s out = (part_off (IsValid s) (length out), out @ SID_Bytes s)"
  by (simp add: append_sid_def part_off_def SID_Bytes_def)

lemma length_SID_Bytes_inv: "sid_inv s \<Longrightarrow> length (SID_Bytes s) \<le> 68"
  using sid_inv_cases [of s] length_SID_Bytes_le [of s] by auto

definition desc_bytes :: "'m sd_abi_scheme \<Rightarrow> Descriptor \<Rightarrow> bytes" where
  "desc_bytes U d =
     (let o1 = 20; o2 = o1 + length (SID_Bytes (dOwner d)); o3 = o2 + length (SID_Bytes (dGroup d));
          o4 = o3 + length (acl_bytes U (dSACL d))
      in ([1, 0] @ le16 (marshal_control U d)
          @ le32 (part_off (IsValid (dOwner d)) o1) @ le32 (part_off (IsValid (dGroup d)) o2)
          @ le32 (part_off (dSACL d \<noteq> None) o3) @ le32 (part_off (dDACL d \<noteq> None) o4))
         @ SID_Bytes (dOwner d) @ SID_Bytes (dGroup d) @ acl_bytes U (dSACL d) @ acl_bytes U (dDACL d))"

lemma Descriptor_Marshal_eq:
  assumes "sd_abi_ok U" and "desc_ok U d"
  shows "Descriptor_Marshal U d = Inr (desc_bytes U d)"
proof -
  have h: "sdHeaderBytes U = 20" using assms(1) by (simp add: sd_abi_ok_def)
  have l: "pred_option (acl_ok U) (dSACL d)" "pred_option (acl_ok U) (dDACL d)"
    using assms(2) by (simp_all add: desc_ok_def)
  note a = append_acl_eq(1) [OF sd_abi_ace_ok [OF assms(1)] l(1)]
    append_acl_eq(1) [OF sd_abi_ace_ok [OF assms(1)] l(2)]
  show ?thesis
    unfolding Descriptor_Marshal_def h append_sid_eq Let_def prod.case a bindE_simps
    by (simp add: put_header_layout desc_bytes_def Let_def add.assoc)
qed

text \<open>The parser without its slice expressions, and the four parts read back.\<close>

definition hdr32 :: "bytes \<Rightarrow> nat \<Rightarrow> u32" where
  "hdr32 buf off = le_val (take 4 (drop off buf))"

lemma ParseDescriptor_eq:
  assumes "sdHeaderBytes U = 20"
  shows "ParseDescriptor U buf =
     (if length buf < 20 then Inl ErrBadSD
      else let control = le_val (take 2 (drop 2 buf)) in
        bindE (opt_sid buf (hdr32 buf 4)) (\<lambda>owner.
        bindE (opt_sid buf (hdr32 buf 8)) (\<lambda>group.
        bindE (opt_acl U buf control (ControlDACLPresent U) (hdr32 buf 16)) (\<lambda>dacl.
        bindE (opt_acl U buf control (ControlSACLPresent U) (hdr32 buf 12)) (\<lambda>sacl.
        Inr \<lparr>dControl = control, dOwner = owner, dGroup = group, dDACL = dacl, dSACL = sacl\<rparr>)))))"
  by (cases "length buf < 20")
     (simp_all add: ParseDescriptor_def assms hdr32_def go_simps Let_def)

lemma opt_sid_no_panic: "no_panic (opt_sid buf off)"
  by (auto simp: opt_sid_def sidAt_def go_simps intro: ParseSID_no_panic)

lemma opt_acl_no_panic: "no_panic (opt_acl U buf c p off)"
  by (auto simp: opt_acl_def aclAt_def go_simps intro!: no_panic_bindE ParseACL_no_panic)

lemma ParseDescriptor_no_panic:
  assumes "sdHeaderBytes U = 20"
  shows "no_panic (ParseDescriptor U buf)"
  by (auto simp: ParseDescriptor_eq [OF assms] Let_def
      intro!: no_panic_bindE opt_sid_no_panic opt_acl_no_panic)

lemma opt_sid_read:
  assumes "sid_inv s" and "0 < length pre" and "length pre < 2 ^ 32"
  shows "opt_sid (pre @ SID_Bytes s @ post) (part_off (IsValid s) (length pre)) = Inr s"
proof (cases "s = zero_SID")
  case False
  with assms(1) have v: "valid_sid s" using sid_inv_cases by blast
  then have i: "IsValid s" by blast
  have n: "unat (of_nat (length pre) :: u32) = length pre" using assms(3) by simp
  then have nz: "(of_nat (length pre) :: u32) \<noteq> 0"
    using assms(2) by (metis less_numeral_extra(3) unsigned_0)
  have "0 < length (SID_Bytes s)" using length_SID_Bytes [OF v] by simp
  then show ?thesis
    using nz ParseSID_round [OF v, of post]
    by (simp add: opt_sid_def part_off_def i sidAt_def n go_simps)
qed (simp add: opt_sid_def part_off_def)

lemma opt_acl_read:
  assumes "ace_abi_ok U" and "pred_option (acl_ok U) l" and "0 < length pre" and "length pre < 2 ^ 32"
    and "l \<noteq> None \<Longrightarrow> c AND p \<noteq> 0"
  shows "opt_acl U (pre @ acl_bytes U l @ post) c p (part_off (l \<noteq> None) (length pre)) = Inr l"
proof (cases l)
  case (Some acl)
  with assms(2) have ok: "acl_ok U acl" by simp
  obtain b where b: "ACL_Marshal U acl = Inr b" "0 < length b"
    using ACL_Marshal_eq [OF assms(1) ok] by auto
  have n: "unat (of_nat (length pre) :: u32) = length pre" using assms(4) by simp
  then have nz: "(of_nat (length pre) :: u32) \<noteq> 0"
    using assms(3) by (metis less_numeral_extra(3) unsigned_0)
  show ?thesis
    using nz assms(5) b ParseACL_Marshal [OF assms(1) ok b(1), of post]
    by (simp add: opt_acl_def part_off_def acl_bytes_def Some aclAt_def n go_simps)
qed (simp add: opt_acl_def part_off_def)

lemma present_control:
  assumes "sd_abi_ok U"
  shows "dDACL d \<noteq> None \<Longrightarrow> marshal_control U d AND ControlDACLPresent U \<noteq> 0"
    and "dSACL d \<noteq> None \<Longrightarrow> marshal_control U d AND ControlSACLPresent U \<noteq> 0"
    and "marshal_control U d AND ControlSelfRelative U \<noteq> 0"
  using assms by (auto simp: marshal_control_def sd_abi_ok_def control_bits_def or_eq_0_iff
      bit.conj_disj_distrib2)

lemma ParseDescriptor_desc_bytes:
  assumes "sd_abi_ok U" and "desc_ok U d"
  shows "ParseDescriptor U (desc_bytes U d) = Inr (d\<lparr>dControl := marshal_control U d\<rparr>)"
proof -
  note abi = sd_abi_ace_ok [OF assms(1)]
  define O' where "O' = SID_Bytes (dOwner d)"
  define G where "G = SID_Bytes (dGroup d)"
  define S where "S = acl_bytes U (dSACL d)"
  define D where "D = acl_bytes U (dDACL d)"
  define o1 where "o1 = part_off (IsValid (dOwner d)) 20"
  define o2 where "o2 = part_off (IsValid (dGroup d)) (20 + length O')"
  define o3 where "o3 = part_off (dSACL d \<noteq> None) (20 + length O' + length G)"
  define o4 where "o4 = part_off (dDACL d \<noteq> None) (20 + length O' + length G + length S)"
  define c where "c = marshal_control U d"
  define h where "h = [1, 0] @ le16 c @ le32 o1 @ le32 o2 @ le32 o3 @ le32 o4"
  define b where "b = desc_bytes U d"
  have b: "b = h @ O' @ G @ S @ D"
    by (simp add: b_def desc_bytes_def Let_def h_def O'_def G_def S_def D_def o1_def o2_def o3_def
        o4_def c_def add.assoc)
  have h: "length h = 20" by (simp add: h_def)
  have ok: "sid_inv (dOwner d)" "sid_inv (dGroup d)" "pred_option (acl_ok U) (dSACL d)"
    "pred_option (acl_ok U) (dDACL d)"
    using assms(2) by (simp_all add: desc_ok_def)
  have len: "length O' \<le> 68" "length G \<le> 68" "length S \<le> 65535"
    using ok append_acl_eq(2) [OF abi] length_SID_Bytes_inv by (simp_all add: O'_def G_def S_def)
  have f: "hdr32 b 4 = o1" "hdr32 b 8 = o2" "hdr32 b 12 = o3" "hdr32 b 16 = o4"
    "le_val (take 2 (drop 2 b)) = c"
    unfolding b h_def hdr32_def by (simp_all add: codec_simps)
  have 1: "opt_sid b o1 = Inr (dOwner d)"
    using opt_sid_read [OF ok(1), of h "G @ S @ D"] h by (simp add: b o1_def O'_def)
  have 2: "opt_sid b o2 = Inr (dGroup d)"
    using opt_sid_read [OF ok(2), of "h @ O'" "S @ D"] h len by (simp add: b o2_def G_def)
  have 3: "opt_acl U b c (ControlSACLPresent U) o3 = Inr (dSACL d)"
    using opt_acl_read [OF abi ok(3), of "h @ O' @ G" c "ControlSACLPresent U" D] h len
      present_control(2) [OF assms(1), of d] by (simp add: b o3_def S_def c_def add.assoc)
  have 4: "opt_acl U b c (ControlDACLPresent U) o4 = Inr (dDACL d)"
    using opt_acl_read [OF abi ok(4), of "h @ O' @ G @ S" c "ControlDACLPresent U" "[]"] h len
      present_control(1) [OF assms(1), of d] by (simp add: b o4_def D_def c_def add.assoc)
  have "sdHeaderBytes U = 20" and "\<not> length b < 20"
    using assms(1) h by (simp_all add: sd_abi_ok_def b)
  then show ?thesis
    unfolding b_def [symmetric] ParseDescriptor_eq [OF \<open>sdHeaderBytes U = 20\<close>] f Let_def
    by (simp add: 1 2 3 4) (simp add: c_def)
qed



section \<open>What the parser returns, and what can be written again\<close>

definition ace_parsed :: "'m ace_abi_scheme \<Rightarrow> ACE \<Rightarrow> bool" where
  "ace_parsed U a \<longleftrightarrow> ace_ok U a \<or> bodyless U a"

definition acl_parsed :: "'m ace_abi_scheme \<Rightarrow> ACL \<Rightarrow> bool" where
  "acl_parsed U l \<longleftrightarrow> list_all (ace_parsed U) (Entries l)"

definition desc_parsed :: "'m sd_abi_scheme \<Rightarrow> Descriptor \<Rightarrow> bool" where
  "desc_parsed U d \<longleftrightarrow> sid_inv (dOwner d) \<and> sid_inv (dGroup d) \<and>
     pred_option (acl_parsed U) (dDACL d) \<and> pred_option (acl_parsed U) (dSACL d)"

lemma ace_parsed_flags [simp]: "ace_parsed U (a\<lparr>aFlags := f\<rparr>) = ace_parsed U a"
  by (simp add: ace_parsed_def ace_ok_def bodyless_def)

lemma ParseACL_parsed: "ParseACL U buf = Inr l \<Longrightarrow> acl_parsed U l"
  by (auto simp: ParseACL_eq acl_parsed_def list_all_iff split: if_splits
      dest!: parse_seq_all [where P = "ace_parsed U", rotated])
     (auto simp: ace_parsed_def dest: ParseACE_result(6))

lemma opt_sid_inv: "opt_sid buf off = Inr s \<Longrightarrow> sid_inv s"
  by (auto simp: opt_sid_def sidAt_def split: if_splits dest: ParseSID_sound(1))

lemma opt_acl_parsed: "opt_acl U buf c p off = Inr l \<Longrightarrow> pred_option (acl_parsed U) l"
  by (auto simp: opt_acl_def aclAt_def split: if_splits dest: ParseACL_parsed)

lemma ParseDescriptor_parsed: "ParseDescriptor U buf = Inr d \<Longrightarrow> desc_parsed U d"
  by (auto simp: ParseDescriptor_def desc_parsed_def split: if_splits
      dest: opt_sid_inv opt_acl_parsed)

lemma bodyless_Marshal: "bodyless U a \<Longrightarrow> ACE_Marshal U a = Inl no_structured"
  by (simp add: bodyless_def ACE_Marshal_def ACE_body_def)

lemma marshal_aces_parsed:
  "marshal_aces U as = Inr r \<Longrightarrow> list_all (ace_parsed U) as \<Longrightarrow> list_all (ace_ok U) as"
  by (induction as arbitrary: r) (auto simp: ace_parsed_def bodyless_Marshal)

lemma ACL_Marshal_parsed:
  assumes "ace_abi_ok U" and "acl_parsed U l" and "ACL_Marshal U l = Inr b"
  shows "acl_ok U l"
proof -
  have ok: "list_all (ace_ok U) (Entries l)"
    using assms(2,3) by (auto simp: ACL_Marshal_def acl_parsed_def split: if_splits
        dest: marshal_aces_parsed)
  with assms(3) show ?thesis
    by (auto simp: ACL_Marshal_def acl_ok_def marshal_aces_eq [OF assms(1) ok] Let_def
        split: if_splits)
qed

lemma append_acl_parsed:
  "append_acl U l out = Inr r \<Longrightarrow> ace_abi_ok U \<Longrightarrow> pred_option (acl_parsed U) l \<Longrightarrow>
   pred_option (acl_ok U) l"
  by (cases l) (auto simp: append_acl_def dest: ACL_Marshal_parsed)

lemma Descriptor_Marshal_parsed:
  assumes "sd_abi_ok U" and "desc_parsed U d" and "Descriptor_Marshal U d = Inr b"
  shows "ParseDescriptor U b = Inr (d\<lparr>dControl := marshal_control U d\<rparr>)" and "desc_ok U d"
proof -
  obtain o3 o4 r3 r4 where "append_acl U (dSACL d) o3 = Inr r3" "append_acl U (dDACL d) o4 = Inr r4"
    using assms(3) by (auto simp: Descriptor_Marshal_def append_sid_eq Let_def)
  then show ok: "desc_ok U d"
    using assms(1,2) by (auto simp: desc_ok_def desc_parsed_def
        dest: append_acl_parsed [OF _ sd_abi_ace_ok])
  show "ParseDescriptor U b = Inr (d\<lparr>dControl := marshal_control U d\<rparr>)"
    using ParseDescriptor_desc_bytes [OF assms(1) ok] Descriptor_Marshal_eq [OF assms(1) ok] assms(3)
    by simp
qed

text \<open>C22
  \<open>ParseDescriptor\<close> is safe on every input: it never panics, whatever the offsets in the
  header, and what it returns has valid or absent SIDs and entries in parsed form.\<close>

theorem ParseDescriptor_safe:
  assumes "sdHeaderBytes U = 20"
  shows "no_panic (ParseDescriptor U buf) \<and>
    (case ParseDescriptor U buf of Inl e \<Rightarrow> True | Inr d \<Rightarrow> desc_parsed U d)"
  using ParseDescriptor_no_panic [OF assms, of buf]
  by (auto split: sum.split dest: ParseDescriptor_parsed)

theorem ParseDescriptor_safe_witness:
  "sdHeaderBytes ms_dtyp = 20 \<and> no_panic (ParseDescriptor ms_dtyp (replicate 20 255))"
proof -
  have "sdHeaderBytes ms_dtyp = 20" by (simp add: ms_dtyp_def)
  then show ?thesis using ParseDescriptor_safe [of ms_dtyp "replicate 20 255"] by simp
qed

end
