(* ===== verification/Inherit.thy ===== *)
theory Inherit
  imports Descriptor
begin

text \<open>
  \<^verbatim>\<open>sd/inherit.go\<close> and the descriptor surgery of \<^verbatim>\<open>sd/getset.go\<close>: which ACEs a child
  inherits from its parent's DACL, the re-derivation of a child's inherited set, and the
  removal of inherited ACEs. The two operations on descriptors take and return wire bytes;
  their theorems follow the bytes through the codec of \<^verbatim>\<open>Descriptor\<close>.
\<close>

section \<open>Inheritance of one ACL\<close>

definition allInheritFlags :: "'m ace_abi_scheme \<Rightarrow> u8" where
  "allInheritFlags U = FlagObjectInherit U OR FlagContainerInherit U OR
     FlagNoPropagateInherit U OR FlagInheritOnly U"

text \<open>The flags the body of the loop computes; \<open>None\<close> is its \<open>continue\<close>.\<close>

definition inherit_flags :: "'m ace_abi_scheme \<Rightarrow> bool \<Rightarrow> u8 \<Rightarrow> u8 option" where
  "inherit_flags U childIsContainer f =
     (let oi = f AND FlagObjectInherit U \<noteq> 0;
          ci = f AND FlagContainerInherit U \<noteq> 0;
          np = f AND FlagNoPropagateInherit U \<noteq> 0
      in if \<not> oi \<and> \<not> ci then None
         else if \<not> childIsContainer then
           (if \<not> oi then None else Some (bit_clear f (allInheritFlags U) OR FlagInherited U))
         else if np then
           (if \<not> ci then None else Some (bit_clear f (allInheritFlags U) OR FlagInherited U))
         else if ci then
           Some (bit_clear f (FlagNoPropagateInherit U OR FlagInheritOnly U) OR FlagInherited U)
         else
           Some (bit_clear f (FlagNoPropagateInherit U) OR FlagInheritOnly U OR FlagInherited U))"

fun inherit_entries :: "'m ace_abi_scheme \<Rightarrow> bool \<Rightarrow> ACE list \<Rightarrow> ACE list" where
  "inherit_entries U c [] = []"
| "inherit_entries U c (ace # as) =
     (case inherit_flags U c (aFlags ace) of
        None \<Rightarrow> inherit_entries U c as
      | Some newFlags \<Rightarrow> ace\<lparr>aFlags := newFlags\<rparr> # inherit_entries U c as)"

definition ComputeInheritedACEs :: "'m ace_abi_scheme \<Rightarrow> ACL \<Rightarrow> bool \<Rightarrow> ACE list" where
  "ComputeInheritedACEs U parentDACL childIsContainer =
     inherit_entries U childIsContainer (Entries parentDACL)"

section \<open>Operations on descriptors\<close>

definition explicit_entries :: "'m ace_abi_scheme \<Rightarrow> ACE list \<Rightarrow> ACE list" where
  "explicit_entries U as = filter (\<lambda>a. aFlags a AND FlagInherited U = 0) as"

definition filterInherited :: "'m ace_abi_scheme \<Rightarrow> ACL \<Rightarrow> ACL" where
  "filterInherited U l = \<lparr>Entries = explicit_entries U (Entries l)\<rparr>"

definition reinherit_desc :: "'m sd_abi_scheme \<Rightarrow> Descriptor \<Rightarrow> Descriptor \<Rightarrow> bool \<Rightarrow> Descriptor" where
  "reinherit_desc U parent child childIsContainer =
     (let inherited = (case dDACL parent of None \<Rightarrow> []
                       | Some l \<Rightarrow> ComputeInheritedACEs U l childIsContainer);
          hadDACL = dDACL child \<noteq> None;
          entries = (case dDACL child of None \<Rightarrow> [] | Some l \<Rightarrow> explicit_entries U (Entries l)) @ inherited
      in \<lparr>dControl = dControl child AND (ControlDACLAutoInherited U OR ControlDACLProtected U OR
             ControlSACLAutoInherited U OR ControlSACLProtected U),
          dOwner = dOwner child, dGroup = dGroup child,
          dDACL = (if hadDACL \<or> length entries > 0 then Some \<lparr>Entries = entries\<rparr> else None),
          dSACL = dSACL child\<rparr>)"

definition Reinherit :: "'m sd_abi_scheme \<Rightarrow> bytes \<Rightarrow> bytes \<Rightarrow> bool \<Rightarrow> bytes result" where
  "Reinherit U parentSD childSD childIsContainer =
     bindE (wrapE ''libp/sd: reinherit: parent: '' (ParseDescriptor U parentSD)) (\<lambda>parent.
     bindE (wrapE ''libp/sd: reinherit: child: '' (ParseDescriptor U childSD)) (\<lambda>child.
     if dControl child AND ControlSelfRelative U = 0 then Inl ErrNotSelfRelative
     else Descriptor_Marshal U (reinherit_desc U parent child childIsContainer)))"

definition strip_desc :: "'m sd_abi_scheme \<Rightarrow> u32 \<Rightarrow> Descriptor \<Rightarrow> Descriptor" where
  "strip_desc U info d =
     (let d1 = (if info AND InfoDACL U \<noteq> 0 then d\<lparr>dDACL := map_option (filterInherited U) (dDACL d)\<rparr>
                else d)
      in if info AND InfoSACL U \<noteq> 0 then d1\<lparr>dSACL := map_option (filterInherited U) (dSACL d1)\<rparr>
         else d1)"

definition StripInheritedACEs :: "'m sd_abi_scheme \<Rightarrow> bytes \<Rightarrow> u32 \<Rightarrow> bytes result" where
  "StripInheritedACEs U sdBytes info =
     (if info AND (InfoDACL U OR InfoSACL U) = 0 then Inr sdBytes
      else
        bindE (wrapE ''libp/sd: strip inherited: '' (ParseDescriptor U sdBytes)) (\<lambda>d.
        if dControl d AND ControlSelfRelative U = 0 then Inl ErrNotSelfRelative
        else wrapE ''libp/sd: strip inherited: '' (Descriptor_Marshal U (strip_desc U info d))))"

section \<open>Flags\<close>

lemma and_zero_bits: "x AND y = 0 \<Longrightarrow> bit x n \<Longrightarrow> \<not> bit y n" for x y :: "'a::len word"
  by (metis bit_0_eq bit_and_iff bot_apply bot_bool_def)

lemma or_and_zero: "(x OR y) AND z = 0 \<longleftrightarrow> x AND z = 0 \<and> y AND z = (0 :: 'a::len word)"
  by (simp add: bit.conj_disj_distrib2 or_eq_0_iff)

lemma inherit_flag_facts:
  assumes "ace_abi_ok U"
  shows "FlagInherited U \<noteq> 0"
    and "bit (FlagNoPropagateInherit U) n \<Longrightarrow> \<not> bit (FlagObjectInherit U) n"
    and "bit (FlagNoPropagateInherit U) n \<Longrightarrow> \<not> bit (FlagContainerInherit U) n"
    and "bit (FlagInheritOnly U) n \<Longrightarrow> \<not> bit (FlagObjectInherit U) n"
    and "bit (FlagInheritOnly U) n \<Longrightarrow> \<not> bit (FlagContainerInherit U) n"
    and "bit (FlagInheritOnly U) n \<Longrightarrow> \<not> bit (FlagNoPropagateInherit U) n"
    and "bit (FlagInherited U) n \<Longrightarrow> \<not> bit (FlagObjectInherit U) n \<and>
      \<not> bit (FlagContainerInherit U) n \<and> \<not> bit (FlagNoPropagateInherit U) n \<and>
      \<not> bit (FlagInheritOnly U) n"
  using assms and_zero_bits [of _ _ n]
  by (auto simp: ace_abi_ok_def flag_bits_def and.commute)

text \<open>The three shapes of inherited flags: terminated, propagating, and passing through.\<close>

definition flags_end :: "'m ace_abi_scheme \<Rightarrow> u8 \<Rightarrow> u8" where
  "flags_end U f = bit_clear f (allInheritFlags U) OR FlagInherited U"

definition flags_ci :: "'m ace_abi_scheme \<Rightarrow> u8 \<Rightarrow> u8" where
  "flags_ci U f = bit_clear f (FlagNoPropagateInherit U OR FlagInheritOnly U) OR FlagInherited U"

definition flags_oi :: "'m ace_abi_scheme \<Rightarrow> u8 \<Rightarrow> u8" where
  "flags_oi U f = bit_clear f (FlagNoPropagateInherit U) OR FlagInheritOnly U OR FlagInherited U"

lemmas flag_defs = flags_end_def flags_ci_def flags_oi_def allInheritFlags_def bit_clear_def

lemma flags_end_facts:
  assumes "ace_abi_ok U"
  shows "flags_end U f AND FlagObjectInherit U = 0" "flags_end U f AND FlagContainerInherit U = 0"
    "flags_end U f AND FlagNoPropagateInherit U = 0" "flags_end U f AND FlagInheritOnly U = 0"
    "flags_end U (flags_ci U f) = flags_end U f" "flags_end U (flags_oi U f) = flags_end U f"
  by (rule bit_word_eqI; use inherit_flag_facts [OF assms] in \<open>auto simp: bit_simps flag_defs\<close>)+

lemma flags_ci_facts:
  assumes "ace_abi_ok U"
  shows "flags_ci U f AND FlagObjectInherit U = f AND FlagObjectInherit U"
    "flags_ci U f AND FlagContainerInherit U = f AND FlagContainerInherit U"
    "flags_ci U f AND FlagNoPropagateInherit U = 0" "flags_ci U f AND FlagInheritOnly U = 0"
    "flags_ci U (flags_ci U f) = flags_ci U f"
  by (rule bit_word_eqI; use inherit_flag_facts [OF assms] in \<open>auto simp: bit_simps flag_defs\<close>)+

lemma flags_oi_facts:
  assumes "ace_abi_ok U"
  shows "flags_oi U f AND FlagObjectInherit U = f AND FlagObjectInherit U"
    "flags_oi U f AND FlagContainerInherit U = f AND FlagContainerInherit U"
    "flags_oi U f AND FlagNoPropagateInherit U = 0"
    "flags_oi U f AND FlagInheritOnly U = FlagInheritOnly U"
    "flags_oi U (flags_oi U f) = flags_oi U f"
  by (rule bit_word_eqI; use inherit_flag_facts [OF assms] in \<open>auto simp: bit_simps flag_defs\<close>)+

lemma inherited_bit:
  assumes "ace_abi_ok U"
  shows "flags_end U f AND FlagInherited U = FlagInherited U"
    "flags_ci U f AND FlagInherited U = FlagInherited U"
    "flags_oi U f AND FlagInherited U = FlagInherited U"
  by (rule bit_word_eqI; use inherit_flag_facts [OF assms] in \<open>auto simp: bit_simps flag_defs\<close>)+

lemma inherit_flags_eq:
  "inherit_flags U c f =
     (if f AND FlagObjectInherit U = 0 \<and> f AND FlagContainerInherit U = 0 then None
      else if \<not> c then (if f AND FlagObjectInherit U = 0 then None else Some (flags_end U f))
      else if f AND FlagNoPropagateInherit U \<noteq> 0 then
        (if f AND FlagContainerInherit U = 0 then None else Some (flags_end U f))
      else if f AND FlagContainerInherit U \<noteq> 0 then Some (flags_ci U f) else Some (flags_oi U f))"
  by (simp add: inherit_flags_def flags_end_def flags_ci_def flags_oi_def Let_def)

lemma inherit_entries_in:
  assumes "b \<in> set (inherit_entries U c as)"
  obtains a g where "a \<in> set as" "inherit_flags U c (aFlags a) = Some g" "b = a\<lparr>aFlags := g\<rparr>"
  using assms by (induction as) (auto split: option.splits)

lemma inherit_flags_inherited:
  assumes "ace_abi_ok U" and "inherit_flags U c f = Some g"
  shows "g AND FlagInherited U \<noteq> 0"
  using assms inherited_bit [OF assms(1)] inherit_flag_facts(1) [OF assms(1)]
  by (auto simp: inherit_flags_eq split: if_splits)

text \<open>Two levels of inheritance at once: the second sees what the first let propagate.\<close>

lemma inherit_flags_twice:
  assumes "ace_abi_ok U"
  shows "(case inherit_flags U True f of None \<Rightarrow> None | Some g \<Rightarrow> inherit_flags U c g)
    = (if f AND FlagNoPropagateInherit U = 0 then inherit_flags U c f else None)"
  using flags_end_facts [OF assms] flags_ci_facts [OF assms] flags_oi_facts [OF assms]
  by (auto simp: inherit_flags_eq)

lemma inherit_entries_twice:
  assumes "ace_abi_ok U"
  shows "inherit_entries U c (inherit_entries U True as)
    = inherit_entries U c (filter (\<lambda>a. aFlags a AND FlagNoPropagateInherit U = 0) as)"
proof (induction as)
  case (Cons a as)
  show ?case
    using inherit_flags_twice [OF assms, of c "aFlags a"] Cons.IH
    by (cases "inherit_flags U True (aFlags a)")
       (auto split: option.splits if_splits dest: sym)
qed simp



text \<open>
  Inheritance is transitive: what a container passes on to its children is what its parent
  passes on directly, less the no-propagate entries, which stop after one level. So an
  entry for files reaches every depth, and recomputing a container's inherited set from an
  already inherited one changes nothing.\<close>

theorem ComputeInheritedACEs_transitive:
  assumes "ace_abi_ok U"
  shows "ComputeInheritedACEs U \<lparr>Entries = ComputeInheritedACEs U l True\<rparr> container
    = ComputeInheritedACEs U
        \<lparr>Entries = filter (\<lambda>a. aFlags a AND FlagNoPropagateInherit U = 0) (Entries l)\<rparr> container"
  by (simp add: ComputeInheritedACEs_def inherit_entries_twice [OF assms])

theorem ComputeInheritedACEs_transitive_witness:
  "ace_abi_ok ms_dtyp \<and>
   ComputeInheritedACEs ms_dtyp
     \<lparr>Entries = ComputeInheritedACEs ms_dtyp
        \<lparr>Entries = [(Allow ms_dtyp (wk_SID Everyone) 1)\<lparr>aFlags := 0x07\<rparr>,
                     (Allow ms_dtyp (wk_SID Everyone) 1)\<lparr>aFlags := 0x01\<rparr>]\<rparr> True\<rparr> False
     = [(Allow ms_dtyp (wk_SID Everyone) 1)\<lparr>aFlags := 0x10\<rparr>]"
proof -
  have f: "(0x07 :: u8) AND FlagNoPropagateInherit ms_dtyp \<noteq> 0"
    "(0x01 :: u8) AND FlagNoPropagateInherit ms_dtyp = 0"
    "inherit_flags ms_dtyp False 0x01 = Some 0x10" by code_simp+
  show ?thesis
    unfolding ComputeInheritedACEs_transitive [OF ms_dtyp_ace_ok]
    using f ms_dtyp_ace_ok by (simp add: ComputeInheritedACEs_def)
qed

section \<open>Descriptors through the codec\<close>

lemma explicit_inherited:
  assumes "ace_abi_ok U"
  shows "explicit_entries U (inherit_entries U c as) = []"
  by (auto simp: explicit_entries_def filter_empty_conv elim!: inherit_entries_in
      dest: inherit_flags_inherited [OF assms])

lemma explicit_explicit [simp]: "explicit_entries U (explicit_entries U as) = explicit_entries U as"
  by (simp add: explicit_entries_def)

lemma explicit_append [simp]:
  "explicit_entries U (as @ bs) = explicit_entries U as @ explicit_entries U bs"
  by (simp add: explicit_entries_def)

lemma parsed_explicit:
  "list_all (ace_parsed U) as \<Longrightarrow> list_all (ace_parsed U) (explicit_entries U as)"
  by (auto simp: explicit_entries_def list_all_iff)

lemma parsed_inherit:
  "list_all (ace_parsed U) as \<Longrightarrow> list_all (ace_parsed U) (inherit_entries U c as)"
  by (induction as) (auto split: option.splits)

lemma strip_desc_parsed: "desc_parsed U d \<Longrightarrow> desc_parsed U (strip_desc U info d)"
  by (auto simp: desc_parsed_def strip_desc_def filterInherited_def acl_parsed_def Let_def
      pred_option_def parsed_explicit)

lemma reinherit_desc_parsed:
  assumes "desc_parsed U p" and "desc_parsed U d"
  shows "desc_parsed U (reinherit_desc U p d c)"
proof -
  have i: "list_all (ace_parsed U)
      (case dDACL p of None \<Rightarrow> [] | Some l \<Rightarrow> ComputeInheritedACEs U l c)"
    using assms(1) by (auto simp: desc_parsed_def ComputeInheritedACEs_def acl_parsed_def
        parsed_inherit split: option.split)
  have e: "list_all (ace_parsed U)
      (case dDACL d of None \<Rightarrow> [] | Some l \<Rightarrow> explicit_entries U (Entries l))"
    using assms(2) by (auto simp: desc_parsed_def acl_parsed_def parsed_explicit split: option.split)
  show ?thesis
    using assms(2) i e by (auto simp: desc_parsed_def reinherit_desc_def Let_def acl_parsed_def)
qed

lemma filterInherited_idem [simp]: "filterInherited U (filterInherited U l) = filterInherited U l"
  by (simp add: filterInherited_def)

lemma strip_desc_idem: "strip_desc U info (strip_desc U info d) = strip_desc U info d"
  by (simp add: strip_desc_def Let_def option.map_comp comp_def)

lemma strip_desc_control [simp]:
  "strip_desc U info (d\<lparr>dControl := c\<rparr>) = (strip_desc U info d)\<lparr>dControl := c\<rparr>"
  "dControl (strip_desc U info d) = dControl d"
  by (simp_all add: strip_desc_def Let_def)

text \<open>Marshalling again with the control word the first marshalling produced.\<close>

lemma Marshal_control_again:
  "Descriptor_Marshal U (d\<lparr>dControl := marshal_control U d\<rparr>) = Descriptor_Marshal U d"
proof -
  have "marshal_control U (d\<lparr>dControl := marshal_control U d\<rparr>) = marshal_control U d"
    by (rule bit_word_eqI) (auto simp: marshal_control_def bit_simps)
  then show ?thesis by (simp add: Descriptor_Marshal_def)
qed

lemma StripInheritedACEs_InrD:
  assumes "sd_abi_ok U" and "info AND (InfoDACL U OR InfoSACL U) \<noteq> 0"
    and "StripInheritedACEs U sd info = Inr out"
  obtains d where "ParseDescriptor U sd = Inr d"
    and "Descriptor_Marshal U (strip_desc U info d) = Inr out"
    and "ParseDescriptor U out
      = Inr ((strip_desc U info d)\<lparr>dControl := marshal_control U (strip_desc U info d)\<rparr>)"
proof -
  obtain d where d: "ParseDescriptor U sd = Inr d"
    and m: "Descriptor_Marshal U (strip_desc U info d) = Inr out"
    using assms(2,3) by (auto simp: StripInheritedACEs_def split: if_splits)
  have "desc_parsed U (strip_desc U info d)"
    using ParseDescriptor_parsed [OF d] by (rule strip_desc_parsed)
  then show ?thesis using that d m Descriptor_Marshal_parsed(1) [OF assms(1)] by blast
qed

text \<open>C9
  \<open>StripInheritedACEs\<close> on wire bytes: whenever it succeeds on a selection that includes
  an ACL, the bytes it returns parse to the descriptor that was given, its owner, group and
  unselected ACLs unchanged, with exactly the inherited entries gone from the selected ones
  and the others in their order.\<close>

theorem StripInheritedACEs_spec:
  assumes "sd_abi_ok U" and "info AND (InfoDACL U OR InfoSACL U) \<noteq> 0"
    and "StripInheritedACEs U sd info = Inr out"
  shows "\<exists>d d'. ParseDescriptor U sd = Inr d \<and> ParseDescriptor U out = Inr d' \<and>
    dOwner d' = dOwner d \<and> dGroup d' = dGroup d \<and>
    dControl d' = marshal_control U d \<and>
    map_option Entries (dDACL d') = map_option (\<lambda>l. if info AND InfoDACL U = 0 then Entries l
        else filter (\<lambda>a. aFlags a AND FlagInherited U = 0) (Entries l)) (dDACL d) \<and>
    map_option Entries (dSACL d') = map_option (\<lambda>l. if info AND InfoSACL U = 0 then Entries l
        else filter (\<lambda>a. aFlags a AND FlagInherited U = 0) (Entries l)) (dSACL d)"
proof -
  obtain d where d: "ParseDescriptor U sd = Inr d" "ParseDescriptor U out
      = Inr ((strip_desc U info d)\<lparr>dControl := marshal_control U (strip_desc U info d)\<rparr>)"
    using StripInheritedACEs_InrD [OF assms] by blast
  have "marshal_control U (strip_desc U info d) = marshal_control U d"
    by (simp add: marshal_control_def strip_desc_def Let_def)
  then show ?thesis
    using d by (auto simp: strip_desc_def filterInherited_def explicit_entries_def Let_def
        option.map_comp comp_def)
qed

text \<open>A descriptor with one inherited and one explicit entry, for the witnesses.\<close>

definition sample_ace :: "u8 \<Rightarrow> ACE" where
  "sample_ace f = (Allow ms_dtyp (wk_SID Everyone) 1)\<lparr>aFlags := f\<rparr>"

definition sample_sd :: "u8 list \<Rightarrow> Descriptor" where
  "sample_sd fs = zero_Descriptor\<lparr>dControl := 0x8004, dDACL := Some \<lparr>Entries = map sample_ace fs\<rparr>\<rparr>"

lemma ACE_body_flags [simp]: "ACE_body U (a\<lparr>aFlags := f\<rparr>) = ACE_body U a"
  by (simp add: ACE_body_def split: option.split)

lemma sample_ace_facts:
  "ace_ok ms_dtyp (sample_ace f)" "length (ace_bytes ms_dtyp (sample_ace f)) = 20"
  "aFlags (sample_ace f) = f"
proof -
  have "ACE_body ms_dtyp (Allow ms_dtyp (wk_SID Everyone) 1)
      = Inr [1, 0, 0, 0, 1, 1, 0, 0, 0, 0, 0, 1, 0, 0, 0, 0]" by code_simp
  then show "length (ace_bytes ms_dtyp (sample_ace f)) = 20"
    by (simp add: ace_bytes_def ACE_Marshal_def Let_def sample_ace_def)
  have "ace_ok ms_dtyp (Allow ms_dtyp (wk_SID Everyone) 1)" by code_simp
  then show "ace_ok ms_dtyp (sample_ace f)" by (simp add: sample_ace_def ace_ok_def)
qed (simp add: sample_ace_def)

lemma sample_sd_ok: "length fs \<le> 3000 \<Longrightarrow> desc_ok ms_dtyp (sample_sd fs)"
proof -
  assume "length fs \<le> 3000"
  moreover have "length (aces_bytes ms_dtyp (map sample_ace fs)) = 20 * length fs"
    by (induction fs) (simp_all add: aces_bytes_def sample_ace_facts)
  ultimately show ?thesis
    by (simp add: desc_ok_def sample_sd_def zero_Descriptor_def acl_ok_def sample_ace_facts
        list_all_iff sid_inv_zero)
qed

lemma sample_sd_bytes:
  assumes "length fs \<le> 3000"
  shows "Descriptor_Marshal ms_dtyp (sample_sd fs) = Inr (desc_bytes ms_dtyp (sample_sd fs))"
    and "ParseDescriptor ms_dtyp (desc_bytes ms_dtyp (sample_sd fs)) = Inr (sample_sd fs)"
proof -
  have "marshal_control ms_dtyp (sample_sd fs) = 0x8004"
    by (simp add: marshal_control_def sample_sd_def zero_Descriptor_def ms_dtyp_def)
  then have "(sample_sd fs)\<lparr>dControl := marshal_control ms_dtyp (sample_sd fs)\<rparr> = sample_sd fs"
    by (simp add: sample_sd_def)
  then show "Descriptor_Marshal ms_dtyp (sample_sd fs) = Inr (desc_bytes ms_dtyp (sample_sd fs))"
    "ParseDescriptor ms_dtyp (desc_bytes ms_dtyp (sample_sd fs)) = Inr (sample_sd fs)"
    using Descriptor_Marshal_eq [OF ms_dtyp_ok sample_sd_ok [OF assms]]
      ParseDescriptor_desc_bytes [OF ms_dtyp_ok sample_sd_ok [OF assms]] by simp_all
qed

lemma sample_strip:
  "StripInheritedACEs ms_dtyp (desc_bytes ms_dtyp (sample_sd [0x10, 0])) 4
     = Inr (desc_bytes ms_dtyp (sample_sd [0]))"
proof -
  have "strip_desc ms_dtyp 4 (sample_sd [0x10, 0]) = sample_sd [0]"
    by (simp add: strip_desc_def sample_sd_def filterInherited_def explicit_entries_def
        sample_ace_facts ms_dtyp_def zero_Descriptor_def)
  then show ?thesis
    using sample_sd_bytes [of "[0x10, 0]"] sample_sd_bytes [of "[0]"]
    by (simp add: StripInheritedACEs_def) (simp add: sample_sd_def ms_dtyp_def)
qed

theorem StripInheritedACEs_spec_witness:
  "sd_abi_ok ms_dtyp \<and>
   StripInheritedACEs ms_dtyp (desc_bytes ms_dtyp (sample_sd [0x10, 0])) 4
     = Inr (desc_bytes ms_dtyp (sample_sd [0])) \<and>
   (\<exists>d'. ParseDescriptor ms_dtyp (desc_bytes ms_dtyp (sample_sd [0])) = Inr d' \<and>
      map_option Entries (dDACL d') = Some [sample_ace 0])"
proof -
  have i: "(4 :: u32) AND (InfoDACL ms_dtyp OR InfoSACL ms_dtyp) \<noteq> 0"
    and j: "(4 :: u32) AND InfoDACL ms_dtyp \<noteq> 0" by code_simp+
  show ?thesis
    using StripInheritedACEs_spec [OF ms_dtyp_ok i sample_strip] sample_strip ms_dtyp_ok j
      sample_sd_bytes(2) [of "[0x10, 0]"]
    by (auto simp: sample_sd_def sample_ace_facts ms_dtyp_def)
qed

text \<open>
  \<open>StripInheritedACEs\<close> is idempotent, byte for byte.\<close>

theorem StripInheritedACEs_idempotent:
  assumes "sd_abi_ok U" and "StripInheritedACEs U sd info = Inr out"
  shows "StripInheritedACEs U out info = Inr out"
proof (cases "info AND (InfoDACL U OR InfoSACL U) = 0")
  case False
  obtain d where m: "Descriptor_Marshal U (strip_desc U info d) = Inr out"
    and p: "ParseDescriptor U out
      = Inr ((strip_desc U info d)\<lparr>dControl := marshal_control U (strip_desc U info d)\<rparr>)"
    using StripInheritedACEs_InrD [OF assms(1) False assms(2)] by blast
  have "marshal_control U (strip_desc U info d) AND ControlSelfRelative U \<noteq> 0"
    by (rule present_control(3) [OF assms(1)])
  then show ?thesis
    using False m by (simp add: StripInheritedACEs_def p strip_desc_idem Marshal_control_again)
qed (simp add: StripInheritedACEs_def)

theorem StripInheritedACEs_idempotent_witness:
  "sd_abi_ok ms_dtyp \<and>
   StripInheritedACEs ms_dtyp (desc_bytes ms_dtyp (sample_sd [0x10, 0])) 4
     = Inr (desc_bytes ms_dtyp (sample_sd [0])) \<and>
   StripInheritedACEs ms_dtyp (desc_bytes ms_dtyp (sample_sd [0])) 4
     = Inr (desc_bytes ms_dtyp (sample_sd [0]))"
  using ms_dtyp_ok sample_strip StripInheritedACEs_idempotent [OF ms_dtyp_ok sample_strip] by simp

section \<open>Reinherit\<close>

definition kept_control :: "'m sd_abi_scheme \<Rightarrow> u16" where
  "kept_control U = ControlDACLAutoInherited U OR ControlDACLProtected U OR
     ControlSACLAutoInherited U OR ControlSACLProtected U"

lemma control_facts:
  assumes "sd_abi_ok U"
  shows "bit (ControlSelfRelative U) n \<Longrightarrow> \<not> bit (kept_control U) n"
    "bit (ControlDACLPresent U) n \<Longrightarrow> \<not> bit (kept_control U) n"
    "bit (ControlSACLPresent U) n \<Longrightarrow> \<not> bit (kept_control U) n"
  using assms and_zero_bits [of _ _ n]
  by (auto simp: sd_abi_ok_def control_bits_def kept_control_def bit_simps and.commute)

lemma reinherit_control:
  assumes "sd_abi_ok U"
  shows "marshal_control U (reinherit_desc U p d c) AND kept_control U = dControl d AND kept_control U"
  by (rule bit_word_eqI)
     (use control_facts [OF assms] in
       \<open>auto simp: marshal_control_def reinherit_desc_def Let_def bit_simps simp flip: kept_control_def\<close>)

lemma reinherit_desc_idem:
  assumes "sd_abi_ok U"
  shows "reinherit_desc U p ((reinherit_desc U p d c)
      \<lparr>dControl := marshal_control U (reinherit_desc U p d c)\<rparr>) c = reinherit_desc U p d c"
proof -
  have e: "explicit_entries U (case dDACL p of None \<Rightarrow> [] | Some l \<Rightarrow> ComputeInheritedACEs U l c) = []"
    using explicit_inherited [OF sd_abi_ace_ok [OF assms]]
    by (simp add: ComputeInheritedACEs_def explicit_entries_def split: option.split)
  show ?thesis
    using reinherit_control [OF assms, of p d c]
    by (cases "dDACL d") (auto simp: reinherit_desc_def Let_def e simp flip: kept_control_def)
qed

lemma Reinherit_InrD:
  assumes "sd_abi_ok U" and "Reinherit U parentSD childSD c = Inr out"
  obtains p d where "ParseDescriptor U parentSD = Inr p" and "ParseDescriptor U childSD = Inr d"
    and "Descriptor_Marshal U (reinherit_desc U p d c) = Inr out"
    and "ParseDescriptor U out
      = Inr ((reinherit_desc U p d c)\<lparr>dControl := marshal_control U (reinherit_desc U p d c)\<rparr>)"
proof -
  obtain p d where pd: "ParseDescriptor U parentSD = Inr p" "ParseDescriptor U childSD = Inr d"
    and m: "Descriptor_Marshal U (reinherit_desc U p d c) = Inr out"
    using assms(2) by (auto simp: Reinherit_def split: if_splits)
  have "desc_parsed U (reinherit_desc U p d c)"
    by (rule reinherit_desc_parsed) (rule pd [THEN ParseDescriptor_parsed])+
  then show ?thesis using that pd m Descriptor_Marshal_parsed(1) [OF assms(1)] by blast
qed

text \<open>C3
  \<open>Reinherit\<close> on wire bytes: whenever it succeeds, the bytes it returns parse to the
  child's owner, group and SACL, and to a DACL made of the child's explicit entries in
  their order followed by exactly the entries inherited from the parent's DACL; of the
  control word the auto-inherited and protected bits are the child's. A child with no DACL
  whose parent passes nothing on is left without one.\<close>

theorem Reinherit_spec:
  assumes "sd_abi_ok U" and "Reinherit U parentSD childSD container = Inr out"
  shows "\<exists>p d d'. ParseDescriptor U parentSD = Inr p \<and> ParseDescriptor U childSD = Inr d \<and>
    ParseDescriptor U out = Inr d' \<and>
    dOwner d' = dOwner d \<and> dGroup d' = dGroup d \<and> dSACL d' = dSACL d \<and>
    dControl d' AND kept_control U = dControl d AND kept_control U \<and>
    (let entries = (case dDACL d of None \<Rightarrow> []
                    | Some l \<Rightarrow> filter (\<lambda>a. aFlags a AND FlagInherited U = 0) (Entries l))
                   @ (case dDACL p of None \<Rightarrow> [] | Some l \<Rightarrow> ComputeInheritedACEs U l container)
     in dDACL d' = (if dDACL d = None \<and> entries = [] then None else Some \<lparr>Entries = entries\<rparr>))"
proof -
  obtain p d where pd: "ParseDescriptor U parentSD = Inr p" "ParseDescriptor U childSD = Inr d"
    and o: "ParseDescriptor U out = Inr ((reinherit_desc U p d container)
      \<lparr>dControl := marshal_control U (reinherit_desc U p d container)\<rparr>)"
    using Reinherit_InrD [OF assms] by blast
  have "dDACL (reinherit_desc U p d container)
      = (let entries = (case dDACL d of None \<Rightarrow> []
                    | Some l \<Rightarrow> filter (\<lambda>a. aFlags a AND FlagInherited U = 0) (Entries l))
                   @ (case dDACL p of None \<Rightarrow> [] | Some l \<Rightarrow> ComputeInheritedACEs U l container)
     in (if dDACL d = None \<and> entries = [] then None else Some \<lparr>Entries = entries\<rparr>))"
    by (cases "dDACL d") (auto simp: reinherit_desc_def Let_def explicit_entries_def)
  then show ?thesis
    using pd o reinherit_control [OF assms(1), of p d container]
    by (auto simp: Let_def) (simp_all add: reinherit_desc_def Let_def)
qed

text \<open>C31
  \<open>Reinherit\<close> is idempotent, byte for byte: re-deriving an up-to-date child from the same
  parent gives the same descriptor, so inherited entries never accumulate.\<close>

theorem Reinherit_idempotent:
  assumes "sd_abi_ok U" and "Reinherit U parentSD childSD container = Inr out"
  shows "Reinherit U parentSD out container = Inr out"
proof -
  obtain p d where p: "ParseDescriptor U parentSD = Inr p"
    and m: "Descriptor_Marshal U (reinherit_desc U p d container) = Inr out"
    and o: "ParseDescriptor U out = Inr ((reinherit_desc U p d container)
      \<lparr>dControl := marshal_control U (reinherit_desc U p d container)\<rparr>)"
    using Reinherit_InrD [OF assms] by blast
  have "marshal_control U (reinherit_desc U p d container) AND ControlSelfRelative U \<noteq> 0"
    by (rule present_control(3) [OF assms(1)])
  then show ?thesis
    using m by (simp add: Reinherit_def p o reinherit_desc_idem [OF assms(1)])
qed

lemma sample_reinherit:
  "Reinherit ms_dtyp (desc_bytes ms_dtyp (sample_sd [3, 0])) (desc_bytes ms_dtyp (sample_sd [0x10, 0])) False
     = Inr (desc_bytes ms_dtyp (sample_sd [0, 0x10]))"
proof -
  have f: "inherit_flags ms_dtyp False 3 = Some 0x10" "inherit_flags ms_dtyp False 0 = None"
    by code_simp+
  have s: "sample_ace f\<lparr>aFlags := g\<rparr> = sample_ace g" for f g by (simp add: sample_ace_def)
  have "reinherit_desc ms_dtyp (sample_sd [3, 0]) (sample_sd [0x10, 0]) False
      = (sample_sd [0, 0x10])\<lparr>dControl := 0\<rparr>"
    by (simp add: reinherit_desc_def sample_sd_def ComputeInheritedACEs_def explicit_entries_def
        sample_ace_facts f s) (simp add: ms_dtyp_def zero_Descriptor_def)
  moreover have "Descriptor_Marshal ms_dtyp ((sample_sd [0, 0x10])\<lparr>dControl := 0\<rparr>)
      = Descriptor_Marshal ms_dtyp (sample_sd [0, 0x10])"
    by (simp add: Descriptor_Marshal_def marshal_control_def sample_sd_def ms_dtyp_def)
  moreover have "(0x8004 :: u16) AND ControlSelfRelative ms_dtyp \<noteq> 0" by code_simp
  ultimately show ?thesis
    using sample_sd_bytes [of "[3, 0]"] sample_sd_bytes [of "[0x10, 0]"] sample_sd_bytes [of "[0, 0x10]"]
    by (simp add: Reinherit_def) (simp add: sample_sd_def)
qed

theorem Reinherit_spec_witness:
  "sd_abi_ok ms_dtyp \<and>
   (\<exists>out. Reinherit ms_dtyp (desc_bytes ms_dtyp (sample_sd [3, 0]))
        (desc_bytes ms_dtyp (sample_sd [0x10, 0])) False = Inr out \<and>
      (\<exists>d'. ParseDescriptor ms_dtyp out = Inr d'))"
  using ms_dtyp_ok sample_reinherit Reinherit_spec [OF ms_dtyp_ok sample_reinherit] by auto

theorem Reinherit_idempotent_witness:
  "sd_abi_ok ms_dtyp \<and>
   Reinherit ms_dtyp (desc_bytes ms_dtyp (sample_sd [3, 0]))
     (desc_bytes ms_dtyp (sample_sd [0x10, 0])) False = Inr (desc_bytes ms_dtyp (sample_sd [0, 0x10])) \<and>
   Reinherit ms_dtyp (desc_bytes ms_dtyp (sample_sd [3, 0]))
     (desc_bytes ms_dtyp (sample_sd [0, 0x10])) False = Inr (desc_bytes ms_dtyp (sample_sd [0, 0x10]))"
  using ms_dtyp_ok sample_reinherit Reinherit_idempotent [OF ms_dtyp_ok sample_reinherit] by simp

end
