(* ===== verification/AuditContext.thy ===== *)
theory AuditContext
  imports Sid Utf Strconv
begin

text \<open>
  \<^verbatim>\<open>sd/auditcontext.go\<close>: the MessagePack map that names the object of an access check.
  The writer (\<open>mpMap\<close>, \<open>mpStr\<close>, \<open>mpBin\<close>, \<open>mpUint\<close>, \<open>mpInt\<close>) and the structural reader
  (\<open>mpCursor\<close> and its methods) are translated operation by operation. A method of the
  cursor that reports failure is \<open>None\<close>: every caller returns at once, so the position the
  cursor was left at is never read. The two loops of the reader terminate because a step
  consumes at least one byte.

  The two limits of the kernel ABI are a parameter, the record \<open>audit_abi\<close>.
\<close>

record audit_abi =
  MAX_AUDIT_CONTEXT_LEN :: nat
  MAX_NESTING_DEPTH_DEFAULT :: nat

definition audit_abi_ok :: "audit_abi \<Rightarrow> bool" where
  "audit_abi_ok A \<longleftrightarrow> 4 \<le> MAX_NESTING_DEPTH_DEFAULT A \<and> int (MAX_AUDIT_CONTEXT_LEN A) < 2 ^ 31"

section \<open>Fields\<close>

datatype auditKind = auditStr | auditUint | auditInt | auditBool | auditBin

record AuditField =
  af_key :: string
  af_kind :: auditKind
  af_u64 :: u64
  af_i64 :: u64
  af_b :: bool
  af_data :: bytes

definition zero_AuditField :: AuditField where
  "zero_AuditField = \<lparr>af_key = [], af_kind = auditStr, af_u64 = 0, af_i64 = 0, af_b = False, af_data = []\<rparr>"

definition AuditString :: "string \<Rightarrow> string \<Rightarrow> AuditField" where
  "AuditString key v = zero_AuditField\<lparr>af_key := key, af_kind := auditStr, af_data := bytes_of v\<rparr>"

definition AuditUint :: "string \<Rightarrow> u64 \<Rightarrow> AuditField" where
  "AuditUint key v = zero_AuditField\<lparr>af_key := key, af_kind := auditUint, af_u64 := v\<rparr>"

definition AuditInt :: "string \<Rightarrow> u64 \<Rightarrow> AuditField" where
  "AuditInt key v = zero_AuditField\<lparr>af_key := key, af_kind := auditInt, af_i64 := v\<rparr>"

definition AuditBool :: "string \<Rightarrow> bool \<Rightarrow> AuditField" where
  "AuditBool key v = zero_AuditField\<lparr>af_key := key, af_kind := auditBool, af_b := v\<rparr>"

definition AuditBytes :: "string \<Rightarrow> bytes \<Rightarrow> AuditField" where
  "AuditBytes key v = zero_AuditField\<lparr>af_key := key, af_kind := auditBin, af_data := v\<rparr>"

definition AuditSID :: "string \<Rightarrow> SID \<Rightarrow> AuditField" where
  "AuditSID key sid = zero_AuditField\<lparr>af_key := key, af_kind := auditBin, af_data := SID_Bytes sid\<rparr>"

definition auditContextMaxDepth :: "audit_abi \<Rightarrow> nat" where
  "auditContextMaxDepth A = MAX_NESTING_DEPTH_DEFAULT A - 1"

section \<open>Segments\<close>

definition is_lower :: "u8 \<Rightarrow> bool" where "is_lower c \<longleftrightarrow> 0x61 \<le> c \<and> c \<le> 0x7A"
definition is_digit :: "u8 \<Rightarrow> bool" where "is_digit c \<longleftrightarrow> 0x30 \<le> c \<and> c \<le> 0x39"
abbreviation dash :: u8 where "dash \<equiv> 0x2D"

fun segment_rest :: "u8 \<Rightarrow> bytes \<Rightarrow> bool" where
  "segment_rest prev [] = (prev \<noteq> dash)"
| "segment_rest prev (c # cs) =
     ((is_lower c \<or> is_digit c \<or> c = dash \<and> prev \<noteq> dash) \<and> segment_rest c cs)"

definition isEventSegment :: "bytes \<Rightarrow> bool" where
  "isEventSegment s = (case s of [] \<Rightarrow> False | c # cs \<Rightarrow> is_lower c \<and> segment_rest c cs)"

section \<open>The writer\<close>

definition mpMap :: "bytes \<Rightarrow> nat \<Rightarrow> bytes" where
  "mpMap out n =
     (if n \<le> 15 then out @ [0x80 OR of_nat n]
      else if n \<le> 65535 then out @ [0xde] @ be16 (of_nat n)
      else out @ [0xdf] @ be32 (of_nat n))"

definition mpStr :: "bytes \<Rightarrow> bytes \<Rightarrow> bytes" where
  "mpStr out s =
     (let n = length s in
      (if n \<le> 31 then out @ [0xa0 OR of_nat n]
       else if n \<le> 255 then out @ [0xd9, of_nat n]
       else if n \<le> 65535 then out @ [0xda] @ be16 (of_nat n)
       else out @ [0xdb] @ be32 (of_nat n)) @ s)"

definition mpBin :: "bytes \<Rightarrow> bytes \<Rightarrow> bytes" where
  "mpBin out b =
     (let n = length b in
      (if n \<le> 255 then out @ [0xc4, of_nat n]
       else if n \<le> 65535 then out @ [0xc5] @ be16 (of_nat n)
       else out @ [0xc6] @ be32 (of_nat n)) @ b)"

definition mpUint :: "bytes \<Rightarrow> u64 \<Rightarrow> bytes" where
  "mpUint out v =
     (if v < 0x80 then out @ [ucast v]
      else if v \<le> 0xFF then out @ [0xcc, ucast v]
      else if v \<le> 0xFFFF then out @ [0xcd] @ be16 (ucast v)
      else if v \<le> 0xFFFFFFFF then out @ [0xce] @ be32 (ucast v)
      else out @ [0xcf] @ be64 v)"

definition mpInt :: "bytes \<Rightarrow> u64 \<Rightarrow> bytes" where
  "mpInt out v =
     (if sint v \<ge> 0 then mpUint out v
      else if sint v \<ge> -32 then out @ [ucast v]
      else if sint v \<ge> -128 then out @ [0xd0, ucast v]
      else if sint v \<ge> -32768 then out @ [0xd1] @ be16 (ucast v)
      else if sint v \<ge> -2147483648 then out @ [0xd2] @ be32 (ucast v)
      else out @ [0xd3] @ be64 v)"

section \<open>The reader\<close>

record mpCursor =
  cb :: bytes
  cpos :: nat

abbreviation remaining :: "mpCursor \<Rightarrow> nat" where
  "remaining c \<equiv> length (cb c) - cpos c"

definition mp_take :: "mpCursor \<Rightarrow> nat \<Rightarrow> (bytes \<times> mpCursor) option" where
  "mp_take c n =
     (if n > remaining c then None
      else Some (take n (drop (cpos c) (cb c)), c\<lparr>cpos := cpos c + n\<rparr>))"

definition mp_be :: "mpCursor \<Rightarrow> nat \<Rightarrow> (nat \<times> mpCursor) option" where
  "mp_be c width =
     (case mp_take c width of None \<Rightarrow> None
      | Some (bs, c) \<Rightarrow>
          let v = foldl (\<lambda>v x. push_bit 8 v OR ucast x) (0 :: u64) bs in
          if v > 0x7FFFFFFF then None else Some (unat v, c))"

definition mp_mapLen :: "mpCursor \<Rightarrow> (nat \<times> mpCursor) option" where
  "mp_mapLen c =
     (case mp_take c 1 of None \<Rightarrow> None
      | Some (tag, c) \<Rightarrow>
          let t = hd tag in
          if t \<ge> 0x80 \<and> t \<le> 0x8f then Some (unat (t AND 0x0f), c)
          else if t = 0xde then mp_be c 2
          else if t = 0xdf then mp_be c 4
          else None)"

definition mp_str :: "mpCursor \<Rightarrow> (bytes \<times> mpCursor) option" where
  "mp_str c =
     (case mp_take c 1 of None \<Rightarrow> None
      | Some (tag, c) \<Rightarrow>
          let t = hd tag in
          (case (if t \<ge> 0xa0 \<and> t \<le> 0xbf then Some (unat (t AND 0x1f), c)
                 else if t = 0xd9 then mp_be c 1
                 else if t = 0xda then mp_be c 2
                 else if t = 0xdb then mp_be c 4
                 else None) of
             None \<Rightarrow> None
           | Some (n, c) \<Rightarrow>
               (case mp_take c n of None \<Rightarrow> None
                | Some (s, c) \<Rightarrow> if utf8_valid s then Some (s, c) else None)))"

text \<open>The switch of \<open>step\<close>: the bytes to skip and the number of children.\<close>

definition mp_head :: "u8 \<Rightarrow> mpCursor \<Rightarrow> ((nat \<times> nat) \<times> mpCursor) option" where
  "mp_head t c =
     (let skip = (\<lambda>n. Some ((n, 0), c));
          skip_be = (\<lambda>w k. map_option (\<lambda>(n, c). ((n + k, 0), c)) (mp_be c w));
          kids_be = (\<lambda>w k. map_option (\<lambda>(n, c). ((0, n * k), c)) (mp_be c w))
      in
      if t \<le> 0x7f \<or> t \<ge> 0xe0 \<or> t = 0xc0 \<or> t = 0xc2 \<or> t = 0xc3 then skip 0
      else if t \<ge> 0x80 \<and> t \<le> 0x8f then Some ((0, unat (t AND 0x0f) * 2), c)
      else if t \<ge> 0x90 \<and> t \<le> 0x9f then Some ((0, unat (t AND 0x0f)), c)
      else if t \<ge> 0xa0 \<and> t \<le> 0xbf then skip (unat (t AND 0x1f))
      else if t = 0xc4 \<or> t = 0xd9 then skip_be 1 0
      else if t = 0xc5 \<or> t = 0xda then skip_be 2 0
      else if t = 0xc6 \<or> t = 0xdb then skip_be 4 0
      else if t = 0xc7 then skip_be 1 1
      else if t = 0xc8 then skip_be 2 1
      else if t = 0xc9 then skip_be 4 1
      else if t = 0xca then skip 4
      else if t = 0xcb then skip 8
      else if t = 0xcc \<or> t = 0xd0 then skip 1
      else if t = 0xcd \<or> t = 0xd1 then skip 2
      else if t = 0xce \<or> t = 0xd2 then skip 4
      else if t = 0xcf \<or> t = 0xd3 then skip 8
      else if t = 0xd4 then skip 2
      else if t = 0xd5 then skip 3
      else if t = 0xd6 then skip 5
      else if t = 0xd7 then skip 9
      else if t = 0xd8 then skip 17
      else if t = 0xdc then kids_be 2 1
      else if t = 0xdd then kids_be 4 1
      else if t = 0xde then kids_be 2 2
      else if t = 0xdf then kids_be 4 2
      else None)"

definition is_str_tag :: "u8 \<Rightarrow> bool" where
  "is_str_tag t \<longleftrightarrow> t = 0xd9 \<or> t = 0xda \<or> t = 0xdb \<or> t \<ge> 0xa0 \<and> t \<le> 0xbf"

definition mp_step :: "mpCursor \<Rightarrow> (nat \<times> mpCursor) option" where
  "mp_step c =
     (case mp_take c 1 of None \<Rightarrow> None
      | Some (tag, c) \<Rightarrow>
          let t = hd tag in
          (case mp_head t c of None \<Rightarrow> None
           | Some ((skip, children), c) \<Rightarrow>
               (case mp_take c skip of None \<Rightarrow> None
                | Some (s, c) \<Rightarrow>
                    if is_str_tag t then (if utf8_valid s then Some (0, c) else None)
                    else if children > remaining c then None
                    else Some (children, c))))"

lemma mp_take_SomeD:
  "mp_take c n = Some (s, c') \<Longrightarrow>
   c' = c\<lparr>cpos := cpos c + n\<rparr> \<and> n \<le> remaining c \<and> s = take n (drop (cpos c) (cb c))"
  by (auto simp: mp_take_def split: if_splits)

lemma mp_be_SomeD:
  "mp_be c w = Some (n, c') \<Longrightarrow> c' = c\<lparr>cpos := cpos c + w\<rparr> \<and> w \<le> remaining c"
  by (auto simp: mp_be_def Let_def split: option.splits if_splits dest: mp_take_SomeD)

text \<open>A read moves the cursor forward, within the buffer.\<close>

definition advances :: "mpCursor \<Rightarrow> ('a \<times> mpCursor) option \<Rightarrow> bool" where
  "advances c r \<longleftrightarrow> (case r of None \<Rightarrow> True
     | Some (_, c') \<Rightarrow> (\<exists>k. c' = c\<lparr>cpos := cpos c + k\<rparr> \<and> k \<le> remaining c))"

lemma advances_intros:
  "advances c x \<Longrightarrow> advances c y \<Longrightarrow> advances c (if b then x else y)"
  "advances c None" "advances c (Some (r, c))"
  "advances c (map_option (\<lambda>(n, c). (f n, c)) (mp_be c w))"
  by (auto simp: advances_def split: option.split intro: exI [of _ 0] dest!: mp_be_SomeD)

lemma mp_head_SomeD:
  assumes "mp_head t c = Some (r, c')"
  shows "\<exists>k. c' = c\<lparr>cpos := cpos c + k\<rparr> \<and> k \<le> remaining c"
proof -
  have "advances c (mp_head t c)"
    unfolding mp_head_def Let_def by (intro advances_intros)
  with assms show ?thesis by (simp add: advances_def)
qed

lemma mp_step_progress:
  "mp_step c = Some (k, c') \<Longrightarrow> cb c' = cb c \<and> cpos c < cpos c' \<and> cpos c' \<le> length (cb c)"
  by (auto simp: mp_step_def Let_def split: option.splits if_splits prod.splits
      dest!: mp_take_SomeD mp_head_SomeD)

function skip_loop :: "nat \<Rightarrow> mpCursor \<Rightarrow> mpCursor option" where
  "skip_loop pending c =
     (if pending = 0 then Some c
      else case mp_step c of None \<Rightarrow> None
        | Some (children, c') \<Rightarrow>
            if pending - 1 + children > remaining c' then None
            else skip_loop (pending - 1 + children) c')"
  by pat_completeness auto
termination
  by (relation "measure (\<lambda>(p, c). remaining c)") (auto dest!: mp_step_progress)

definition mp_skipValue :: "mpCursor \<Rightarrow> mpCursor option" where
  "mp_skipValue c = skip_loop 1 c"

text \<open>The stack of \<open>mpWellFormed\<close>, its top first.\<close>

function wf_loop :: "nat \<Rightarrow> nat list \<Rightarrow> mpCursor \<Rightarrow> bool" where
  "wf_loop maxDepth stack c =
     (case stack of
        [] \<Rightarrow> cpos c = length (cb c)
      | n # st \<Rightarrow>
          if n = 0 then wf_loop maxDepth st c
          else case mp_step c of None \<Rightarrow> False
            | Some (children, c') \<Rightarrow>
                if children > 0 then
                  (if length stack \<ge> maxDepth then False
                   else wf_loop maxDepth (children # (n - 1) # st) c')
                else wf_loop maxDepth ((n - 1) # st) c')"
  by pat_completeness auto
termination
  by (relation "measures [\<lambda>(d, st, c). remaining c, \<lambda>(d, st, c). length st]")
     (auto dest!: mp_step_progress)

declare skip_loop.simps [simp del] wf_loop.simps [simp del]

definition mpWellFormed :: "bytes \<Rightarrow> nat \<Rightarrow> bool" where
  "mpWellFormed b maxDepth = wf_loop maxDepth [1] \<lparr>cb = b, cpos = 0\<rparr>"

section \<open>The shape check\<close>

text \<open>The loop over the entries: the cursor, \<open>kind\<close>, and the other key with its value.\<close>

fun shape_entries :: "nat \<Rightarrow> bytes \<Rightarrow> mpCursor \<Rightarrow> bytes option \<Rightarrow> (bytes \<times> bytes) option \<Rightarrow>
    (mpCursor \<times> bytes option \<times> (bytes \<times> bytes) option) option" where
  "shape_entries 0 b c kind other = Some (c, kind, other)"
| "shape_entries (Suc n) b c kind other =
     (case mp_str c of None \<Rightarrow> None
      | Some (key, c1) \<Rightarrow>
          (case mp_skipValue c1 of None \<Rightarrow> None
           | Some c2 \<Rightarrow>
               let val = take (cpos c2 - cpos c1) (drop (cpos c1) b) in
               if key = bytes_of ''kind'' then
                 if kind \<noteq> None then None
                 else (case mp_str \<lparr>cb = val, cpos = 0\<rparr> of None \<Rightarrow> None
                   | Some (k, vc) \<Rightarrow>
                       if cpos vc \<noteq> length val \<or> \<not> isEventSegment k then None
                       else shape_entries n b c2 (Some k) other)
               else shape_entries n b c2 kind (Some (key, val))))"

fun shape_body :: "nat \<Rightarrow> mpCursor \<Rightarrow> mpCursor option" where
  "shape_body 0 c = Some c"
| "shape_body (Suc n) c =
     (case mp_str c of None \<Rightarrow> None
      | Some (k, c) \<Rightarrow>
          if \<not> isEventSegment k then None
          else (case mp_skipValue c of None \<Rightarrow> None | Some c \<Rightarrow> shape_body n c))"

definition auditContextShape :: "bytes \<Rightarrow> bool" where
  "auditContextShape b =
     (case mp_mapLen \<lparr>cb = b, cpos = 0\<rparr> of None \<Rightarrow> False
      | Some (entries, c) \<Rightarrow>
          if entries = 0 \<or> entries > 2 then False
          else (case shape_entries entries b c None None of None \<Rightarrow> False
            | Some (c, kind, other) \<Rightarrow>
                if cpos c \<noteq> length b then False
                else (case kind of None \<Rightarrow> False
                  | Some kd \<Rightarrow>
                      (case other of None \<Rightarrow> True
                       | Some (otherKey, otherValue) \<Rightarrow>
                           if otherKey \<noteq> kd then False
                           else (case mp_mapLen \<lparr>cb = otherValue, cpos = 0\<rparr> of None \<Rightarrow> False
                             | Some (n, body) \<Rightarrow>
                                 if n = 0 then False
                                 else (case shape_body n body of None \<Rightarrow> False
                                   | Some body \<Rightarrow> cpos body = length otherValue))))))"

definition ValidateAuditContext :: "audit_abi \<Rightarrow> bytes \<Rightarrow> unit result" where
  "ValidateAuditContext A b =
     (if length b = 0 \<or> length b > MAX_AUDIT_CONTEXT_LEN A then Inl ErrBadAuditContext
      else if \<not> auditContextShape b \<or> \<not> mpWellFormed b (auditContextMaxDepth A)
      then Inl ErrBadAuditContext
      else Inr ())"

section \<open>The encoder\<close>

fun check_fields :: "string list \<Rightarrow> AuditField list \<Rightarrow> unit result" where
  "check_fields seen [] = Inr ()"
| "check_fields seen (f # fs) =
     (if \<not> isEventSegment (bytes_of (af_key f)) then
        Inl (Wrap ''libp/sd: audit field is not a segment: '' ErrBadAuditContext)
      else if af_key f \<in> set seen then
        Inl (Wrap ''libp/sd: audit field given twice: '' ErrBadAuditContext)
      else if af_kind f = auditStr \<and> \<not> utf8_valid (af_data f) then
        Inl (Wrap ''libp/sd: audit field is not UTF-8: '' ErrBadAuditContext)
      else check_fields (af_key f # seen) fs)"

definition put_value :: "bytes \<Rightarrow> AuditField \<Rightarrow> bytes" where
  "put_value out f =
     (case af_kind f of
        auditStr \<Rightarrow> mpStr out (af_data f)
      | auditUint \<Rightarrow> mpUint out (af_u64 f)
      | auditInt \<Rightarrow> mpInt out (af_i64 f)
      | auditBool \<Rightarrow> if af_b f then out @ [0xc3] else out @ [0xc2]
      | auditBin \<Rightarrow> mpBin out (af_data f))"

definition put_field :: "bytes \<Rightarrow> AuditField \<Rightarrow> bytes" where
  "put_field out f = put_value (mpStr out (bytes_of (af_key f))) f"

definition audit_bytes :: "string \<Rightarrow> AuditField list \<Rightarrow> bytes" where
  "audit_bytes kd flds =
     (let out = (if length flds = 0 then mpMap [] 1 else mpMap [] 2);
          out = mpStr out (bytes_of ''kind'');
          out = mpStr out (bytes_of kd)
      in if length flds > 0
         then foldl put_field (mpMap (mpStr out (bytes_of kd)) (length flds)) flds
         else out)"

definition EncodeAuditContext :: "audit_abi \<Rightarrow> string \<Rightarrow> AuditField list \<Rightarrow> bytes result" where
  "EncodeAuditContext A kd flds =
     (if \<not> isEventSegment (bytes_of kd) then
        Inl (Wrap ''libp/sd: audit context kind is not a segment: '' ErrBadAuditContext)
      else
        bindE (check_fields [] flds) (\<lambda>_.
        let out = audit_bytes kd flds in
        if length out > MAX_AUDIT_CONTEXT_LEN A then
          Inl (Wrap ''libp/sd: audit context is too long: '' ErrBadAuditContext)
        else bindE (ValidateAuditContext A out) (\<lambda>_. Inr out)))"

section \<open>Reading what the writer wrote\<close>

text \<open>A cursor between what it has read and what is left.\<close>

definition cur :: "bytes \<Rightarrow> bytes \<Rightarrow> mpCursor" where
  "cur p r = \<lparr>cb = p @ r, cpos = length p\<rparr>"

lemma cur_sel [simp]: "cb (cur p r) = p @ r" "cpos (cur p r) = length p"
  by (simp_all add: cur_def)

lemma start_cur: "\<lparr>cb = b, cpos = 0\<rparr> = cur [] b"
  by (simp add: cur_def)

lemma take_cur: "length s = n \<Longrightarrow> mp_take (cur p (s @ r)) n = Some (s, cur (p @ s) r)"
  by (auto simp: mp_take_def cur_def)

lemma take_cur_0 [simp]: "mp_take (cur p r) 0 = Some ([], cur p r)"
  using take_cur [of "[]" 0 p r] by simp

lemma take_cur_1 [simp]:
  "mp_take (cur p (t # r)) (Suc 0) = Some ([t], cur (p @ [t]) r)"
  using take_cur [of "[t]" 1 p r] by simp

lemma foldl_be: "foldl (\<lambda>v x. push_bit 8 v OR ucast x) (0 :: u64) bs = be_val bs"
  by (induction bs rule: rev_induct) (simp_all add: be_val_def or.commute)

lemma le_bytes_ucast:
  "LENGTH('a) \<le> LENGTH('b) \<Longrightarrow> le_bytes k (ucast (w :: 'a::len word) :: 'b::len word) = le_bytes k w"
proof (induction k arbitrary: w)
  case (Suc k)
  have "ucast (ucast w :: 'b word) = (ucast w :: u8)"
    by (rule bit_word_eqI) (use Suc.prems in \<open>auto simp: bit_simps dest: bit_imp_le_length\<close>)
  moreover have "drop_bit 8 (ucast w :: 'b word) = ucast (drop_bit 8 w)"
    by (rule bit_word_eqI) (use Suc.prems in \<open>auto simp: bit_simps dest: bit_imp_le_length\<close>)
  ultimately show ?case using Suc by simp
qed simp

lemma be_val_wide:
  assumes "LENGTH('a) \<le> LENGTH('b)" and "LENGTH('a) \<le> 8 * k"
  shows "be_val (be_bytes k (w :: 'a::len word)) = (ucast w :: 'b::len word)"
proof -
  have "be_val (be_bytes k w) = (le_val (le_bytes k (ucast w :: 'b word)) :: 'b word)"
    by (simp add: be_val_def be_bytes_def le_bytes_ucast [OF assms(1)])
  also have "\<dots> = take_bit (8 * k) (ucast w :: 'b word)" by (rule le_val_le_bytes)
  also have "\<dots> = ucast w"
    by (rule bit_word_eqI) (use assms in \<open>auto simp: bit_simps dest: bit_imp_le_length\<close>)
  finally show ?thesis .
qed

lemma be_cur:
  assumes "LENGTH('a) = 8 * k" and "k \<le> 8" and "unat (w :: 'a::len word) \<le> 2147483647"
  shows "mp_be (cur p (be_bytes k w @ r)) k = Some (unat w, cur (p @ be_bytes k w) r)"
proof -
  have v: "be_val (be_bytes k w) = (ucast w :: u64)"
    by (rule be_val_wide) (use assms in auto)
  have u: "unat (ucast w :: u64) = unat w"
    using assms(3) by (simp add: unsigned_ucast_eq take_bit_nat_eq_self)
  then have "\<not> (ucast w :: u64) > 0x7FFFFFFF"
    using assms(3) by (simp add: word_less_nat_alt)
  then show ?thesis by (simp add: mp_be_def take_cur foldl_be v u)
qed

text \<open>The fixed-size tags of the writer.\<close>

lemma tag_map:
  assumes "n \<le> 15"
  shows "0x80 \<le> (0x80 OR of_nat n :: u8)" "(0x80 OR of_nat n :: u8) \<le> 0x8f"
    "unat ((0x80 OR of_nat n :: u8) AND 0x0f) = n"
proof -
  have "list_all (\<lambda>n. 0x80 \<le> (0x80 OR of_nat n :: u8) \<and> (0x80 OR of_nat n :: u8) \<le> 0x8f \<and>
      unat ((0x80 OR of_nat n :: u8) AND 0x0f) = n) [0..<16]" by code_simp
  moreover have "n \<in> set [0..<16]" using assms by simp
  ultimately show "0x80 \<le> (0x80 OR of_nat n :: u8)" "(0x80 OR of_nat n :: u8) \<le> 0x8f"
    "unat ((0x80 OR of_nat n :: u8) AND 0x0f) = n"
    unfolding list_all_iff by blast+
qed

lemma tag_str:
  assumes "n \<le> 31"
  shows "0xa0 \<le> (0xa0 OR of_nat n :: u8)" "(0xa0 OR of_nat n :: u8) \<le> 0xbf"
    "unat ((0xa0 OR of_nat n :: u8) AND 0x1f) = n"
proof -
  have "list_all (\<lambda>n. 0xa0 \<le> (0xa0 OR of_nat n :: u8) \<and> (0xa0 OR of_nat n :: u8) \<le> 0xbf \<and>
      unat ((0xa0 OR of_nat n :: u8) AND 0x1f) = n) [0..<32]" by code_simp
  moreover have "n \<in> set [0..<32]" using assms by simp
  ultimately show "0xa0 \<le> (0xa0 OR of_nat n :: u8)" "(0xa0 OR of_nat n :: u8) \<le> 0xbf"
    "unat ((0xa0 OR of_nat n :: u8) AND 0x1f) = n"
    unfolding list_all_iff by blast+
qed

lemma head_fixmap:
  "0x80 \<le> t \<Longrightarrow> t \<le> 0x8f \<Longrightarrow> mp_head t c = Some ((0, unat (t AND 0x0f) * 2), c)"
  by (simp add: mp_head_def Let_def word_le_nat_alt word_less_nat_alt word_unat_eq_iff)

lemma head_fixstr:
  "0xa0 \<le> t \<Longrightarrow> t \<le> 0xbf \<Longrightarrow> mp_head t c = Some ((unat (t AND 0x1f), 0), c)"
  by (simp add: mp_head_def Let_def word_le_nat_alt word_less_nat_alt word_unat_eq_iff)

lemma head_fixint: "t \<le> 0x7f \<or> t \<ge> 0xe0 \<Longrightarrow> mp_head t c = Some ((0, 0), c)"
  by (auto simp add: mp_head_def Let_def)

lemma no_str_fixint: "t \<le> 0x7f \<or> t \<ge> 0xe0 \<Longrightarrow> \<not> is_str_tag t"
  by (auto simp: is_str_tag_def word_le_nat_alt word_unat_eq_iff)

text \<open>A complete value without children, as the reader sees it.\<close>

definition scalar_bytes :: "bytes \<Rightarrow> bool" where
  "scalar_bytes v \<longleftrightarrow> v \<noteq> [] \<and> (\<forall>p r. mp_step (cur p (v @ r)) = Some (0, cur (p @ v) r))"

lemma scalarI:
  assumes "\<And>p r. mp_head t (cur (p @ [t]) (h @ s @ r)) = Some ((length s, 0), cur (p @ t # h) (s @ r))"
    and "is_str_tag t \<Longrightarrow> utf8_valid s"
  shows "scalar_bytes (t # h @ s)"
  unfolding scalar_bytes_def
proof (intro conjI allI)
  fix p r
  have "mp_take (cur (p @ t # h) (s @ r)) (length s) = Some (s, cur (p @ t # h @ s) r)"
    using take_cur [of s "length s" "p @ t # h" r] by simp
  with assms show "mp_step (cur p ((t # h @ s) @ r)) = Some (0, cur (p @ t # h @ s) r)"
    by (simp add: mp_step_def)
qed simp

lemma scalar_be:
  assumes "LENGTH('a) = 8 * k" and "k \<le> 8" and "unat (w :: 'a::len word) = length s"
    and "length s \<le> 2147483647" and "is_str_tag t \<Longrightarrow> utf8_valid s"
    and "\<And>c. mp_head t c = map_option (\<lambda>(n, c). ((n + 0, 0), c)) (mp_be c k)"
  shows "scalar_bytes (t # be_bytes k w @ s)"
proof (rule scalarI)
  fix p r
  show "mp_head t (cur (p @ [t]) (be_bytes k w @ s @ r))
      = Some ((length s, 0), cur (p @ t # be_bytes k w) (s @ r))"
    using be_cur [OF assms(1,2), of w "p @ [t]" "s @ r"] assms(3,4)
    by (simp add: assms(6))
qed (rule assms(5))

lemma scalar_fixed:
  assumes "\<And>c. mp_head t c = Some ((length s, 0), c)" and "\<not> is_str_tag t"
  shows "scalar_bytes (t # s)"
  using scalarI [of t "[]" s] assms by simp

lemma be_bytes_1: "be_bytes 1 w = [ucast w]" "be_bytes (Suc 0) w = [ucast w]"
  by (simp_all add: be_bytes_def)

lemma scalar_mpStr:
  assumes "utf8_valid s" and "length s \<le> 2147483647"
  shows "scalar_bytes (mpStr [] s)"
proof -
  let ?n = "length s"
  consider "?n \<le> 31" | "31 < ?n" "?n \<le> 255" | "255 < ?n" "?n \<le> 65535" | "65535 < ?n" by linarith
  then show ?thesis
  proof cases
    case 1
    then show ?thesis
      using scalarI [of "0xa0 OR of_nat ?n" "[]" s] assms(1) head_fixstr tag_str [OF 1]
      by (simp add: mpStr_def)
  next
    case 2
    have "scalar_bytes (0xd9 # be_bytes 1 (of_nat ?n :: u8) @ s)"
      by (rule scalar_be) (use 2 assms in \<open>simp_all add: mp_head_def Let_def\<close>)
    with 2 show ?thesis by (simp add: mpStr_def be_bytes_1)
  next
    case 3
    have "scalar_bytes (0xda # be16 (of_nat ?n) @ s)"
      by (rule scalar_be) (use 3 assms in \<open>simp_all add: mp_head_def Let_def\<close>)
    with 3 show ?thesis by (simp add: mpStr_def)
  next
    case 4
    have "scalar_bytes (0xdb # be32 (of_nat ?n) @ s)"
      by (rule scalar_be) (use 4 assms in \<open>simp_all add: mp_head_def Let_def\<close>)
    with 4 show ?thesis by (simp add: mpStr_def)
  qed
qed

lemma scalar_mpBin:
  assumes "length s \<le> 2147483647"
  shows "scalar_bytes (mpBin [] s)"
proof -
  let ?n = "length s"
  consider "?n \<le> 255" | "255 < ?n" "?n \<le> 65535" | "65535 < ?n" by linarith
  then show ?thesis
  proof cases
    case 1
    have "scalar_bytes (0xc4 # be_bytes 1 (of_nat ?n :: u8) @ s)"
      by (rule scalar_be) (use 1 assms in \<open>simp_all add: mp_head_def Let_def is_str_tag_def\<close>)
    with 1 show ?thesis by (simp add: mpBin_def be_bytes_1)
  next
    case 2
    have "scalar_bytes (0xc5 # be16 (of_nat ?n) @ s)"
      by (rule scalar_be) (use 2 assms in \<open>simp_all add: mp_head_def Let_def is_str_tag_def\<close>)
    with 2 show ?thesis by (simp add: mpBin_def)
  next
    case 3
    have "scalar_bytes (0xc6 # be32 (of_nat ?n) @ s)"
      by (rule scalar_be) (use 3 assms in \<open>simp_all add: mp_head_def Let_def is_str_tag_def\<close>)
    with 3 show ?thesis by (simp add: mpBin_def)
  qed
qed

lemma head_tags:
  "mp_head 0xcc c = Some ((1, 0), c)" "mp_head 0xd0 c = Some ((1, 0), c)"
  "mp_head 0xcd c = Some ((2, 0), c)" "mp_head 0xd1 c = Some ((2, 0), c)"
  "mp_head 0xce c = Some ((4, 0), c)" "mp_head 0xd2 c = Some ((4, 0), c)"
  "mp_head 0xcf c = Some ((8, 0), c)" "mp_head 0xd3 c = Some ((8, 0), c)"
  "mp_head 0xc2 c = Some ((0, 0), c)" "mp_head 0xc3 c = Some ((0, 0), c)"
  by (simp_all add: mp_head_def Let_def)

lemma scalar_tags:
  "length s = 1 \<Longrightarrow> scalar_bytes (0xcc # s)" "length s = 1 \<Longrightarrow> scalar_bytes (0xd0 # s)"
  "length s = 2 \<Longrightarrow> scalar_bytes (0xcd # s)" "length s = 2 \<Longrightarrow> scalar_bytes (0xd1 # s)"
  "length s = 4 \<Longrightarrow> scalar_bytes (0xce # s)" "length s = 4 \<Longrightarrow> scalar_bytes (0xd2 # s)"
  "length s = 8 \<Longrightarrow> scalar_bytes (0xcf # s)" "length s = 8 \<Longrightarrow> scalar_bytes (0xd3 # s)"
  "scalar_bytes [0xc2]" "scalar_bytes [0xc3]"
  by (rule scalar_fixed; simp add: head_tags is_str_tag_def)+

lemma scalar_fixint: "t \<le> 0x7f \<or> t \<ge> 0xe0 \<Longrightarrow> scalar_bytes [t]"
  by (rule scalar_fixed) (simp_all add: head_fixint no_str_fixint)

lemma scalar_mpUint: "scalar_bytes (mpUint [] v)"
proof (cases "v < 0x80")
  case True
  then have "unat v < 128" by (simp add: word_less_nat_alt)
  then have "(ucast v :: u8) \<le> 0x7f"
    by (simp add: word_le_nat_alt unsigned_ucast_eq take_bit_nat_eq_self)
  with True show ?thesis by (simp add: mpUint_def scalar_fixint)
qed (simp add: mpUint_def scalar_tags)

lemma scalar_mpInt: "scalar_bytes (mpInt [] v)"
proof (cases "sint v < 0 \<and> - 32 \<le> sint v")
  case True
  have "(ucast v :: u8) = word_of_int (sint v)"
    by (rule bit_word_eqI) (auto simp: bit_simps min_def)
  then have "uint (ucast v :: u8) = sint v mod 2 ^ LENGTH(8)"
    by (simp only: uint_word_of_int)
  also have "\<dots> = sint v + 256" using True by simp presburger
  finally have "(ucast v :: u8) \<ge> 0xe0" using True by (simp add: word_le_def)
  with True show ?thesis by (simp add: mpInt_def scalar_fixint)
qed (auto simp add: mpInt_def scalar_mpUint scalar_tags)

text \<open>Strings and maps.\<close>

lemma str_cur:
  assumes "utf8_valid s" and "length s \<le> 2147483647"
  shows "mp_str (cur p (mpStr [] s @ r)) = Some (s, cur (p @ mpStr [] s) r)"
proof -
  let ?n = "length s"
  have t: "mp_take (cur q (s @ r)) ?n = Some (s, cur (q @ s) r)" for q by (rule take_cur) simp
  consider "?n \<le> 31" | "31 < ?n" "?n \<le> 255" | "255 < ?n" "?n \<le> 65535" | "65535 < ?n" by linarith
  then show ?thesis
  proof cases
    case 1
    then show ?thesis using assms(1) tag_str [OF 1] t by (simp add: mpStr_def mp_str_def)
  next
    case 2
    then show ?thesis
      using assms(1) t be_cur [of 1 "of_nat ?n :: u8" "p @ [0xd9]" "s @ r"]
      by (simp add: mpStr_def mp_str_def be_bytes_1)
  next
    case 3
    then show ?thesis
      using assms(1) t be_cur [of 2 "of_nat ?n :: u16" "p @ [0xda]" "s @ r"]
      by (simp add: mpStr_def mp_str_def)
  next
    case 4
    then show ?thesis
      using assms t be_cur [of 4 "of_nat ?n :: u32" "p @ [0xdb]" "s @ r"]
      by (simp add: mpStr_def mp_str_def)
  qed
qed

lemma map_cur:
  assumes "n \<le> 2147483647"
  shows "mp_mapLen (cur p (mpMap [] n @ r)) = Some (n, cur (p @ mpMap [] n) r)"
    and "2 * n \<le> length r \<Longrightarrow> mp_step (cur p (mpMap [] n @ r)) = Some (2 * n, cur (p @ mpMap [] n) r)"
proof -
  have h: "mp_head 0xde c = map_option (\<lambda>(n, c). ((0, n * 2), c)) (mp_be c 2)"
    "mp_head 0xdf c = map_option (\<lambda>(n, c). ((0, n * 2), c)) (mp_be c 4)" for c
    by (simp_all add: mp_head_def Let_def)
  consider "n \<le> 15" | "15 < n" "n \<le> 65535" | "65535 < n" by linarith
  then show "mp_mapLen (cur p (mpMap [] n @ r)) = Some (n, cur (p @ mpMap [] n) r)"
    and "2 * n \<le> length r \<Longrightarrow> mp_step (cur p (mpMap [] n @ r)) = Some (2 * n, cur (p @ mpMap [] n) r)"
  proof (atomize (full), cases)
    case 1
    then have "\<not> is_str_tag (0x80 OR of_nat n)"
      using tag_map(1,2) [OF 1] by (auto simp: is_str_tag_def word_le_nat_alt word_unat_eq_iff)
    then show "mp_mapLen (cur p (mpMap [] n @ r)) = Some (n, cur (p @ mpMap [] n) r) \<and>
        (2 * n \<le> length r \<longrightarrow> mp_step (cur p (mpMap [] n @ r)) = Some (2 * n, cur (p @ mpMap [] n) r))"
      using 1 tag_map [OF 1] by (simp add: mpMap_def mp_mapLen_def mp_step_def head_fixmap)
  next
    case 2
    then show "mp_mapLen (cur p (mpMap [] n @ r)) = Some (n, cur (p @ mpMap [] n) r) \<and>
        (2 * n \<le> length r \<longrightarrow> mp_step (cur p (mpMap [] n @ r)) = Some (2 * n, cur (p @ mpMap [] n) r))"
      using be_cur [of 2 "of_nat n :: u16" "p @ [0xde]" r]
      by (simp add: mpMap_def mp_mapLen_def mp_step_def h is_str_tag_def)
  next
    case 3
    then show "mp_mapLen (cur p (mpMap [] n @ r)) = Some (n, cur (p @ mpMap [] n) r) \<and>
        (2 * n \<le> length r \<longrightarrow> mp_step (cur p (mpMap [] n @ r)) = Some (2 * n, cur (p @ mpMap [] n) r))"
      using assms be_cur [of 4 "of_nat n :: u32" "p @ [0xdf]" r]
      by (simp add: mpMap_def mp_mapLen_def mp_step_def h is_str_tag_def)
  qed
qed

text \<open>Runs of scalars under the two loops.\<close>

lemma scalar_pos: "scalar_bytes v \<Longrightarrow> 1 \<le> length v"
  by (cases v) (auto simp: scalar_bytes_def)

lemma scalars_length: "list_all scalar_bytes vs \<Longrightarrow> length vs \<le> length (concat vs)"
  by (induction vs) (fastforce dest: scalar_pos)+

lemma skip_scalars:
  "list_all scalar_bytes vs \<Longrightarrow>
   skip_loop (length vs) (cur p (concat vs @ r)) = Some (cur (p @ concat vs) r)"
proof (induction vs arbitrary: p)
  case Nil
  show ?case by (subst skip_loop.simps) simp
next
  case (Cons v vs)
  then have s: "mp_step (cur p (v @ concat vs @ r)) = Some (0, cur (p @ v) (concat vs @ r))"
    by (simp add: scalar_bytes_def)
  have "length vs \<le> length (concat vs)" using Cons.prems scalars_length by simp
  then show ?case
    using Cons s by (subst skip_loop.simps) simp
qed

lemma skip_scalar: "scalar_bytes v \<Longrightarrow> mp_skipValue (cur p (v @ r)) = Some (cur (p @ v) r)"
  using skip_scalars [of "[v]" p r] by (simp add: mp_skipValue_def)

lemma skip_map:
  assumes "list_all scalar_bytes vs" and "length vs = 2 * n" and "n \<le> 2147483647"
  shows "mp_skipValue (cur p (mpMap [] n @ concat vs @ r)) = Some (cur (p @ mpMap [] n @ concat vs) r)"
proof -
  have "2 * n \<le> length (concat vs @ r)" using scalars_length [OF assms(1)] assms(2) by simp
  then show ?thesis
    using map_cur(2) [OF assms(3), of "concat vs @ r" p] skip_scalars [OF assms(1), of "p @ mpMap [] n" r]
      assms(2)
    unfolding mp_skipValue_def by (subst skip_loop.simps) simp
qed

lemma wf_scalars:
  "list_all scalar_bytes vs \<Longrightarrow>
   wf_loop d ((length vs + k) # st) (cur p (concat vs @ r)) = wf_loop d (k # st) (cur (p @ concat vs) r)"
proof (induction vs arbitrary: p)
  case (Cons v vs)
  then have s: "mp_step (cur p (v @ concat vs @ r)) = Some (0, cur (p @ v) (concat vs @ r))"
    by (simp add: scalar_bytes_def)
  have "wf_loop d ((length (v # vs) + k) # st) (cur p (concat (v # vs) @ r))
      = wf_loop d ((length vs + k) # st) (cur (p @ v) (concat vs @ r))"
    by (subst wf_loop.simps) (simp add: s)
  with Cons show ?case by simp
qed simp

lemma wf_map:
  assumes "0 < n" and "n \<le> 2147483647" and "2 * n \<le> length r" and "Suc (length st) < d"
  shows "wf_loop d (Suc k # st) (cur p (mpMap [] n @ r))
    = wf_loop d ((2 * n) # k # st) (cur (p @ mpMap [] n) r)"
  using map_cur(2) [OF assms(2,3), of p] assms(1,4)
  by (subst wf_loop.simps) simp

lemma wf_pop: "wf_loop d (0 # st) c = wf_loop d st c" "wf_loop d [] (cur p [])"
  by (subst wf_loop.simps, simp)+

section \<open>What the encoder produces\<close>

lemma utf8_valid_ascii: "list_all (\<lambda>x. unat x < 128) b \<Longrightarrow> utf8_valid b"
proof (induction b)
  case (Cons x b)
  then show ?case by (subst utf8_valid.simps) (simp add: decode_rune_def)
qed (simp add: utf8_valid.simps)

lemma segment_rest_ascii: "segment_rest c cs \<Longrightarrow> list_all (\<lambda>x. unat x < 128) cs"
  by (induction c cs rule: segment_rest.induct)
     (auto simp: is_lower_def is_digit_def word_le_nat_alt)

lemma segment_utf8: "isEventSegment s \<Longrightarrow> utf8_valid s"
  by (rule utf8_valid_ascii)
     (auto simp: isEventSegment_def is_lower_def word_le_nat_alt dest: segment_rest_ascii
       split: list.splits)

lemma writer_append:
  "mpMap out n = out @ mpMap [] n" "mpStr out s = out @ mpStr [] s" "mpBin out s = out @ mpBin [] s"
  "mpUint out v = out @ mpUint [] v" "mpInt out v = out @ mpInt [] v"
  "put_value out f = out @ put_value [] f"
proof -
  show m: "mpMap out n = out @ mpMap [] n" for out n by (simp add: mpMap_def)
  show s: "mpStr out s = out @ mpStr [] s" for out s by (simp add: mpStr_def Let_def)
  show b: "mpBin out s = out @ mpBin [] s" for out s by (simp add: mpBin_def Let_def)
  show u: "mpUint out v = out @ mpUint [] v" for out v by (simp add: mpUint_def)
  show i: "mpInt out v = out @ mpInt [] v" for out v using u [of out v] by (simp add: mpInt_def)
  show "put_value out f = out @ put_value [] f"
    unfolding put_value_def s [of out] b [of out] u [of out] i [of out]
    by (simp split: auditKind.split)
qed

definition field_vals :: "AuditField \<Rightarrow> bytes list" where
  "field_vals f = [mpStr [] (bytes_of (af_key f)), put_value [] f]"

definition body_vals :: "AuditField list \<Rightarrow> bytes list" where
  "body_vals flds = concat (map field_vals flds)"

lemma put_field_eq: "put_field out f = out @ concat (field_vals f)"
  unfolding put_field_def
  by (subst writer_append(6), subst writer_append(2)) (simp add: field_vals_def)

lemma foldl_put_field: "foldl put_field out flds = out @ concat (body_vals flds)"
  by (induction flds arbitrary: out) (simp_all add: body_vals_def put_field_eq)

lemma length_body_vals: "length (body_vals flds) = 2 * length flds"
  by (induction flds) (simp_all add: body_vals_def field_vals_def)

lemma audit_bytes_eq:
  "audit_bytes kd [] = mpMap [] 1 @ mpStr [] (bytes_of ''kind'') @ mpStr [] (bytes_of kd)"
  "flds \<noteq> [] \<Longrightarrow> audit_bytes kd flds = mpMap [] 2 @ mpStr [] (bytes_of ''kind'') @ mpStr [] (bytes_of kd)
     @ mpStr [] (bytes_of kd) @ mpMap [] (length flds) @ concat (body_vals flds)"
  unfolding audit_bytes_def Let_def foldl_put_field
  by (simp_all add: writer_append(1) [of "mpStr x y" for x y] writer_append(2) [of "mpStr x y" for x y]
      writer_append(2) [of "mpMap x y" for x y] writer_append(1,2) [of "x @ y" for x y])

definition fields_ok :: "AuditField list \<Rightarrow> bool" where
  "fields_ok flds \<longleftrightarrow> list_all (\<lambda>f. isEventSegment (bytes_of (af_key f)) \<and>
     (af_kind f = auditStr \<longrightarrow> utf8_valid (af_data f))) flds \<and> distinct (map af_key flds)"

lemma check_fields_iff:
  "check_fields seen flds = Inr () \<longleftrightarrow>
   fields_ok flds \<and> set seen \<inter> af_key ` set flds = {}"
  by (induction seen flds rule: check_fields.induct) (auto simp: fields_ok_def)

lemma check_fields_err: "check_fields seen flds = Inl e \<Longrightarrow> errors_is e ErrBadAuditContext"
  by (induction seen flds rule: check_fields.induct) (auto split: if_splits)

lemma mp_lengths: "length s \<le> length (mpStr [] s)" "length s \<le> length (mpBin [] s)"
  by (simp_all add: mpStr_def mpBin_def Let_def)

lemma scalar_put_value:
  assumes "af_kind f = auditStr \<longrightarrow> utf8_valid (af_data f)" and "length (put_value [] f) \<le> 2147483647"
  shows "scalar_bytes (put_value [] f)"
  using assms mp_lengths [of "af_data f"]
  by (auto simp: put_value_def scalar_mpStr scalar_mpBin scalar_mpUint scalar_mpInt scalar_tags
      split: auditKind.split)

lemma body_vals_scalar:
  assumes "fields_ok flds" and "length (concat (body_vals flds)) \<le> 2147483647"
  shows "list_all scalar_bytes (body_vals flds)"
  using assms
proof (induction flds)
  case (Cons f flds)
  then have k: "utf8_valid (bytes_of (af_key f))" by (simp add: fields_ok_def segment_utf8)
  have l: "length (mpStr [] (bytes_of (af_key f))) \<le> 2147483647" "length (put_value [] f) \<le> 2147483647"
    "length (concat (body_vals flds)) \<le> 2147483647"
    using Cons.prems(2) by (simp_all add: body_vals_def field_vals_def)
  have "scalar_bytes (put_value [] f)"
    using Cons.prems(1) l(2) by (intro scalar_put_value) (simp_all add: fields_ok_def)
  moreover have "scalar_bytes (mpStr [] (bytes_of (af_key f)))"
    using k l(1) mp_lengths(1) [of "bytes_of (af_key f)"] by (intro scalar_mpStr) simp_all
  moreover have "list_all scalar_bytes (body_vals flds)"
    using Cons.IH Cons.prems(1) l(3) by (simp add: fields_ok_def)
  ultimately show ?case by (simp add: body_vals_def field_vals_def)
qed (simp add: body_vals_def)

lemma bytes_of_inj [simp]: "bytes_of s = bytes_of t \<longleftrightarrow> s = t"
  by (metis string_of_bytes_of)

text \<open>One entry of the top-level map.\<close>

lemma entry_kind:
  assumes "isEventSegment k" and "length k \<le> 2147483647"
  shows "shape_entries (Suc n) (p @ mpStr [] (bytes_of ''kind'') @ mpStr [] k @ r)
      (cur p (mpStr [] (bytes_of ''kind'') @ mpStr [] k @ r)) None other
    = shape_entries n (p @ mpStr [] (bytes_of ''kind'') @ mpStr [] k @ r)
        (cur (p @ mpStr [] (bytes_of ''kind'') @ mpStr [] k) r) (Some k) other"
proof -
  let ?K = "bytes_of ''kind''"
  have "utf8_valid ?K" by (rule segment_utf8) code_simp
  then have 1: "mp_str (cur p (mpStr [] ?K @ mpStr [] k @ r)) = Some (?K, cur (p @ mpStr [] ?K) (mpStr [] k @ r))"
    by (intro str_cur) simp_all
  have 2: "mp_skipValue (cur (p @ mpStr [] ?K) (mpStr [] k @ r)) = Some (cur (p @ mpStr [] ?K @ mpStr [] k) r)"
    using skip_scalar [OF scalar_mpStr, of k "p @ mpStr [] ?K" r] assms by (simp add: segment_utf8)
  have 3: "mp_str (cur [] (mpStr [] k)) = Some (k, cur (mpStr [] k) [])"
    using str_cur [of k "[]" "[]"] assms by (simp add: segment_utf8)
  show ?thesis using assms(1) by (simp add: 1 2 3 start_cur Let_def)
qed

text \<open>The other entry: accepted unless its key is \<open>kind\<close> again.\<close>

lemma entry_other:
  assumes "isEventSegment k" and "length k \<le> 2147483647"
    and "mp_skipValue (cur (p @ mpStr [] k) (v @ r)) = Some (cur (p @ mpStr [] k @ v) r)"
  shows "shape_entries (Suc n) (p @ mpStr [] k @ v @ r) (cur p (mpStr [] k @ v @ r)) (Some kd) other
    = (if k = bytes_of ''kind'' then None
       else shape_entries n (p @ mpStr [] k @ v @ r) (cur (p @ mpStr [] k @ v) r) (Some kd) (Some (k, v)))"
proof -
  have 1: "mp_str (cur p (mpStr [] k @ v @ r)) = Some (k, cur (p @ mpStr [] k) (v @ r))"
    using assms(1,2) by (intro str_cur) (simp_all add: segment_utf8)
  show ?thesis by (simp add: 1 assms(3))
qed

lemma shape_body_vals:
  assumes "fields_ok flds" and "length (concat (body_vals flds)) \<le> 2147483647"
  shows "shape_body (length flds) (cur p (concat (body_vals flds) @ r))
    = Some (cur (p @ concat (body_vals flds)) r)"
  using assms
proof (induction flds arbitrary: p)
  case (Cons f flds)
  let ?k = "bytes_of (af_key f)"
  have seg: "isEventSegment ?k" using Cons.prems(1) by (simp add: fields_ok_def)
  have sc: "scalar_bytes (put_value [] f)"
    using body_vals_scalar [OF Cons.prems] by (simp add: body_vals_def field_vals_def)
  have len: "length ?k \<le> 2147483647" "length (concat (body_vals flds)) \<le> 2147483647"
    using Cons.prems(2) mp_lengths(1) [of ?k] by (simp_all add: body_vals_def field_vals_def)
  let ?r = "concat (body_vals flds) @ r"
  have b: "concat (body_vals (f # flds)) = mpStr [] ?k @ put_value [] f @ concat (body_vals flds)"
    by (simp add: body_vals_def field_vals_def)
  have 1: "mp_str (cur p (mpStr [] ?k @ put_value [] f @ ?r)) = Some (?k, cur (p @ mpStr [] ?k) (put_value [] f @ ?r))"
    using seg len(1) by (intro str_cur) (simp_all add: segment_utf8)
  have 2: "mp_skipValue (cur (p @ mpStr [] ?k) (put_value [] f @ ?r))
      = Some (cur (p @ mpStr [] ?k @ put_value [] f) ?r)"
    using skip_scalar [OF sc, of "p @ mpStr [] ?k" ?r] by simp
  have 3: "shape_body (length flds) (cur (p @ mpStr [] ?k @ put_value [] f) ?r)
      = Some (cur (p @ concat (body_vals (f # flds))) r)"
    using Cons.IH [of "p @ mpStr [] ?k @ put_value [] f"] Cons.prems(1) len(2)
    by (simp add: fields_ok_def b)
  show ?case using seg by (simp add: b 1 2 3)
qed (simp add: body_vals_def)

lemma shape_audit_bytes:
  assumes "isEventSegment (bytes_of kd)" and "fields_ok flds"
    and "length (audit_bytes kd flds) \<le> 2147483647"
  shows "auditContextShape (audit_bytes kd flds) \<longleftrightarrow> flds = [] \<or> kd \<noteq> ''kind''"
proof -
  let ?K = "bytes_of ''kind''" and ?k = "bytes_of kd"
  show ?thesis
  proof (cases "flds = []")
    case True
    then have k: "length ?k \<le> 2147483647"
      using assms(3) mp_lengths(1) [of ?k] by (simp add: audit_bytes_eq)
    show ?thesis
      using map_cur(1) [of 1 "[]" "mpStr [] ?K @ mpStr [] ?k"] True
        entry_kind [OF assms(1) k, of 0 "mpMap [] 1" "[]" None]
      by (simp add: auditContextShape_def start_cur audit_bytes_eq(1))
  next
    case False
    let ?B = "concat (body_vals flds)" and ?n = "length flds"
    let ?v = "mpMap [] ?n @ ?B" and ?p = "mpMap [] 2 @ mpStr [] ?K @ mpStr [] ?k"
    have len: "length ?k \<le> 2147483647" "length ?B \<le> 2147483647"
      using assms(3) mp_lengths(1) [of ?k] False by (simp_all add: audit_bytes_eq(2))
    have sc: "list_all scalar_bytes (body_vals flds)" by (rule body_vals_scalar [OF assms(2) len(2)])
    have n: "?n \<le> 2147483647"
      using scalars_length [OF sc] len(2) by (simp add: length_body_vals)
    have skip: "mp_skipValue (cur (?p @ mpStr [] ?k) (?v @ [])) = Some (cur (?p @ mpStr [] ?k @ ?v) [])"
      using skip_map [OF sc length_body_vals n, of "?p @ mpStr [] ?k" "[]"] by simp
    have 1: "mp_mapLen (cur [] (audit_bytes kd flds)) = Some (2, cur (mpMap [] 2) (mpStr [] ?K @ mpStr [] ?k @ mpStr [] ?k @ ?v))"
      using map_cur(1) [of 2 "[]" "mpStr [] ?K @ mpStr [] ?k @ mpStr [] ?k @ ?v"] False
      by (simp add: audit_bytes_eq(2))
    have 2: "shape_entries 2 (audit_bytes kd flds) (cur (mpMap [] 2) (mpStr [] ?K @ mpStr [] ?k @ mpStr [] ?k @ ?v)) None None
        = (if kd = ''kind'' then None else Some (cur (audit_bytes kd flds) [], Some ?k, Some (?k, ?v)))"
      using entry_kind [OF assms(1) len(1), of 1 "mpMap [] 2" "mpStr [] ?k @ ?v" None]
        entry_other [OF assms(1) len(1) skip, of 0 ?k None] False
      by (simp add: audit_bytes_eq(2) numeral_2_eq_2)
    have 3: "mp_mapLen (cur [] ?v) = Some (?n, cur (mpMap [] ?n) ?B)"
      using map_cur(1) [OF n, of "[]" ?B] by simp
    have 4: "shape_body ?n (cur (mpMap [] ?n) ?B) = Some (cur ?v [])"
      using shape_body_vals [OF assms(2) len(2), of "mpMap [] ?n" "[]"] by simp
    show ?thesis using False by (simp add: auditContextShape_def start_cur 1 2 3 4)
  qed
qed

lemma wf_audit_bytes:
  assumes "isEventSegment (bytes_of kd)" and "fields_ok flds" and "3 \<le> d"
    and "length (audit_bytes kd flds) \<le> 2147483647"
  shows "mpWellFormed (audit_bytes kd flds) d"
proof -
  let ?K = "bytes_of ''kind''" and ?k = "bytes_of kd"
  have sK: "scalar_bytes (mpStr [] ?K)" by (rule scalar_mpStr, rule segment_utf8, code_simp) simp
  have sk: "scalar_bytes (mpStr [] ?k)" if "length ?k \<le> 2147483647"
    by (rule scalar_mpStr [OF segment_utf8 [OF assms(1)] that])
  show ?thesis
  proof (cases "flds = []")
    case True
    then have "scalar_bytes (mpStr [] ?k)"
      using assms(4) mp_lengths(1) [of ?k] by (intro sk) (simp add: audit_bytes_eq)
    with sK have sc: "list_all scalar_bytes [mpStr [] ?K, mpStr [] ?k]" by simp
    show ?thesis
      using wf_map [of 1 "mpStr [] ?K @ mpStr [] ?k" "[]" d 0 "[]"] wf_scalars [OF sc, of d 0 "[0]" "mpMap [] 1" "[]"]
        scalars_length [OF sc] assms(3) True
      by (simp add: mpWellFormed_def start_cur audit_bytes_eq(1) wf_pop numeral_2_eq_2)
  next
    case False
    let ?B = "concat (body_vals flds)" and ?n = "length flds"
    have len: "length ?k \<le> 2147483647" "length ?B \<le> 2147483647"
      using assms(4) mp_lengths(1) [of ?k] False by (simp_all add: audit_bytes_eq(2))
    have sB: "list_all scalar_bytes (body_vals flds)" by (rule body_vals_scalar [OF assms(2) len(2)])
    have n: "2 * ?n \<le> length ?B" using scalars_length [OF sB] by (simp add: length_body_vals)
    have sc: "list_all scalar_bytes [mpStr [] ?K, mpStr [] ?k, mpStr [] ?k]" using sK sk len(1) by simp
    let ?t = "mpMap [] ?n @ ?B" and ?h = "mpStr [] ?K @ mpStr [] ?k @ mpStr [] ?k"
    have "1 \<le> ?n" using False by (cases flds) simp_all
    then have four: "2 * 2 \<le> length (?h @ ?t)" using scalars_length [OF sc] n by simp
    have "wf_loop d [1] (cur [] (audit_bytes kd flds)) = wf_loop d [4, 0] (cur (mpMap [] 2) (?h @ ?t))"
      using wf_map [of 2 "?h @ ?t" "[]" d 0 "[]"] four False assms(3)
      by (simp add: audit_bytes_eq(2))
    also have "\<dots> = wf_loop d [1, 0] (cur (mpMap [] 2 @ ?h) ?t)"
      using wf_scalars [OF sc, of d 1 "[0]" "mpMap [] 2" ?t] by (simp add: eval_nat_numeral)
    also have "\<dots> = wf_loop d [2 * ?n, 0, 0] (cur (mpMap [] 2 @ ?h @ mpMap [] ?n) ?B)"
      using wf_map [of ?n ?B "[0]" d 0 "mpMap [] 2 @ ?h"] False n len(2) assms(3) by simp
    also have "\<dots> = wf_loop d [0, 0, 0] (cur (mpMap [] 2 @ ?h @ ?t) [])"
      using wf_scalars [OF sB, of d 0 "[0, 0]" "mpMap [] 2 @ ?h @ mpMap [] ?n" "[]"]
      by (simp add: length_body_vals)
    finally show ?thesis by (simp add: mpWellFormed_def start_cur wf_pop)
  qed
qed

lemma audit_bytes_nonempty: "0 < length (audit_bytes kd flds)"
  by (cases "flds = []") (simp_all add: audit_bytes_eq, simp_all add: mpMap_def)

text \<open>C10
  \<open>EncodeAuditContext\<close> accepts exactly what its documentation allows, and one case less:
  it returns a context if and only if the kind and every key are segments, no key is given
  twice, string values are UTF-8, the encoding is within the limit, and the kind is not the
  word \<open>kind\<close> unless there are no fields. Every refusal is \<open>ErrBadAuditContext\<close>, and what
  it returns is what the writer produced and passes the validator.\<close>

theorem EncodeAuditContext_iff:
  assumes "audit_abi_ok A"
  shows "(EncodeAuditContext A kd flds = Inr out \<longleftrightarrow>
      isEventSegment (bytes_of kd) \<and>
      list_all (\<lambda>f. isEventSegment (bytes_of (af_key f)) \<and>
        (af_kind f = auditStr \<longrightarrow> utf8_valid (af_data f))) flds \<and>
      distinct (map af_key flds) \<and>
      out = audit_bytes kd flds \<and> length out \<le> MAX_AUDIT_CONTEXT_LEN A \<and>
      (flds = [] \<or> kd \<noteq> ''kind'')) \<and>
    (case EncodeAuditContext A kd flds of
       Inl e \<Rightarrow> errors_is e ErrBadAuditContext
     | Inr b \<Rightarrow> ValidateAuditContext A b = Inr ())"
proof -
  have lim: "MAX_AUDIT_CONTEXT_LEN A \<le> 2147483647" "3 \<le> auditContextMaxDepth A"
    using assms by (auto simp: audit_abi_ok_def auditContextMaxDepth_def)
  have "ValidateAuditContext A (audit_bytes kd flds)
      = (if flds = [] \<or> kd \<noteq> ''kind'' then Inr () else Inl ErrBadAuditContext)"
    if "isEventSegment (bytes_of kd)" "fields_ok flds"
      "length (audit_bytes kd flds) \<le> MAX_AUDIT_CONTEXT_LEN A"
    using that lim audit_bytes_nonempty [of kd flds] shape_audit_bytes [of kd flds]
      wf_audit_bytes [of kd flds "auditContextMaxDepth A"]
    by (auto simp: ValidateAuditContext_def)
  then show ?thesis
    using check_fields_iff [of "[]" flds] check_fields_err [of "[]" flds]
    by (cases "check_fields [] flds") (auto simp: EncodeAuditContext_def Let_def fields_ok_def)
qed

theorem EncodeAuditContext_iff_witness:
  "audit_abi_ok \<lparr>MAX_AUDIT_CONTEXT_LEN = 4096, MAX_NESTING_DEPTH_DEFAULT = 32\<rparr> \<and>
   EncodeAuditContext \<lparr>MAX_AUDIT_CONTEXT_LEN = 4096, MAX_NESTING_DEPTH_DEFAULT = 32\<rparr>
     ''service'' [AuditString ''name'' ''jellyfin'']
     = Inr (audit_bytes ''service'' [AuditString ''name'' ''jellyfin''])"
proof -
  let ?A = "\<lparr>MAX_AUDIT_CONTEXT_LEN = 4096, MAX_NESTING_DEPTH_DEFAULT = 32\<rparr> :: audit_abi"
  have ok: "audit_abi_ok ?A" by (simp add: audit_abi_ok_def)
  have s: "isEventSegment (bytes_of ''service'')" "isEventSegment (bytes_of ''name'')"
    "isEventSegment (bytes_of ''jellyfin'')" by code_simp+
  have k: "af_key (AuditString ''name'' ''jellyfin'') = ''name''"
    "af_data (AuditString ''name'' ''jellyfin'') = bytes_of ''jellyfin''"
    by (simp_all add: AuditString_def)
  have l: "length (audit_bytes ''service'' [AuditString ''name'' ''jellyfin'']) \<le> 4096"
    by (simp add: audit_bytes_eq body_vals_def field_vals_def put_value_def AuditString_def
        mpStr_def mpMap_def)
  show ?thesis
    using EncodeAuditContext_iff [OF ok, of "''service''" "[AuditString ''name'' ''jellyfin'']"
        "audit_bytes ''service'' [AuditString ''name'' ''jellyfin'']"] ok s k l segment_utf8 [OF s(3)]
    by simp
qed

text \<open>
  The kind \<open>kind\<close> is a segment, and so allowed by the documentation of the encoder; with a
  field it is refused, since the object map's key would repeat the kind's.
\<close>

section \<open>The grammars behind the two checks\<close>

text \<open>\<open>mp_values d n c c'\<close>: from \<open>c\<close> to \<open>c'\<close> there are \<open>n\<close> complete values, one after the other,
  whose non-empty containers nest at most \<open>d\<close> deep.\<close>

inductive mp_values :: "nat \<Rightarrow> nat \<Rightarrow> mpCursor \<Rightarrow> mpCursor \<Rightarrow> bool" where
  mp_none: "mp_values d 0 c c"
| mp_leaf: "mp_step c = Some (0, c1) \<Longrightarrow> mp_values d n c1 c2 \<Longrightarrow> mp_values d (Suc n) c c2"
| mp_node: "mp_step c = Some (k, c1) \<Longrightarrow> 0 < k \<Longrightarrow> mp_values d k c1 c2 \<Longrightarrow>
    mp_values (Suc d) n c2 c3 \<Longrightarrow> mp_values (Suc d) (Suc n) c c3"

inductive_cases mp_values_0E: "mp_values d 0 c c'"
inductive_cases mp_values_SucE: "mp_values d (Suc n) c c'"

lemma wf_loop_complete:
  "mp_values e n c c' \<Longrightarrow> e = d - Suc (length st) \<Longrightarrow> wf_loop d st c' \<Longrightarrow> wf_loop d (n # st) c"
proof (induction arbitrary: st rule: mp_values.induct)
  case (mp_none e c)
  then show ?case by (simp add: wf_pop)
next
  case (mp_leaf c c1 e n c2)
  then show ?case by (subst wf_loop.simps) simp
next
  case (mp_node c k c1 e c2 n c3)
  have "wf_loop d (n # st) c2" by (rule mp_node.IH(2)) (use mp_node.prems in auto)
  then have "wf_loop d (k # n # st) c1" by (intro mp_node.IH(1)) (use mp_node.prems in auto)
  then show ?case using mp_node.hyps mp_node.prems(1) by (subst wf_loop.simps) simp
qed

lemma mp_values_forward: "mp_values d n c c' \<Longrightarrow> cb c' = cb c \<and> cpos c \<le> cpos c'"
  by (induction rule: mp_values.induct) (auto dest!: mp_step_progress)

lemma wf_loop_sound:
  "wf_loop d (n # st) c \<Longrightarrow> \<exists>c'. mp_values (d - Suc (length st)) n c c' \<and> wf_loop d st c'"
proof (induction "remaining c" arbitrary: n st c rule: less_induct)
  case less
  show ?case
  proof (cases n)
    case 0
    then show ?thesis using less.prems mp_none by (auto simp: wf_pop)
  next
    case (Suc m)
    obtain k c1 where s: "mp_step c = Some (k, c1)"
      using less.prems Suc by (subst (asm) wf_loop.simps) (auto split: option.splits)
    have run: "if 0 < k then Suc (length st) < d \<and> wf_loop d (k # m # st) c1 else wf_loop d (m # st) c1"
      using less.prems Suc s by (subst (asm) wf_loop.simps) (auto split: if_splits)
    have c1: "remaining c1 < remaining c" using mp_step_progress [OF s] by auto
    show ?thesis
    proof (cases "0 < k")
      case False
      with run less.hyps [OF c1, of m st] show ?thesis
        using mp_leaf [of c c1] s Suc by auto
    next
      case True
      then obtain e where d: "d - Suc (length st) = Suc e" "d - Suc (Suc (length st)) = e"
        using run by (metis Suc_diff_Suc)
      obtain c2 where v: "mp_values e k c1 c2" and w: "wf_loop d (m # st) c2"
        using less.hyps [OF c1, of k "m # st"] run True d by auto
      have "remaining c2 < remaining c" using mp_values_forward [OF v] c1 by auto
      from less.hyps [OF this w] show ?thesis
        using mp_node [OF s True v] Suc d by auto
    qed
  qed
qed


text \<open>Segments: the automaton on the previous byte against the split at the dashes.\<close>

definition alnum_word :: "bytes \<Rightarrow> bool" where
  "alnum_word w \<longleftrightarrow> w \<noteq> [] \<and> list_all (\<lambda>c. is_lower c \<or> is_digit c) w"

lemma alnum_simps:
  "\<not> alnum_word []"
  "alnum_word (c # w) \<longleftrightarrow> (is_lower c \<or> is_digit c) \<and> list_all (\<lambda>c. is_lower c \<or> is_digit c) w"
  by (simp_all add: alnum_word_def)

lemma dash_not_alnum [simp]: "\<not> is_lower dash" "\<not> is_digit dash"
  by (simp_all add: is_lower_def is_digit_def)

lemma segment_rest_iff:
  "segment_rest prev cs \<longleftrightarrow>
   (if prev = dash then list_all alnum_word (split_on dash cs)
    else list_all (\<lambda>c. is_lower c \<or> is_digit c) (hd (split_on dash cs))
      \<and> list_all alnum_word (tl (split_on dash cs)))"
proof (induction prev cs rule: segment_rest.induct)
  case (2 prev c cs)
  obtain w ws where w: "split_on dash cs = w # ws" by (cases "split_on dash cs") simp_all
  show ?case
    using 2 by (cases "c = dash") (auto simp: w alnum_word_def [of w] alnum_simps)
qed (simp add: alnum_simps)

text \<open>
  \<open>isEventSegment\<close> decides the segment grammar \<open>[a-z][a-z0-9]*(-[a-z0-9]+)*\<close>: a byte string
  is a segment exactly when it starts with a lower-case letter and the words between its
  dashes are non-empty and made of lower-case letters and digits.\<close>

theorem isEventSegment_iff:
  "isEventSegment s \<longleftrightarrow>
   (\<exists>ws. s = join_with dash ws \<and> ws \<noteq> [] \<and> list_all alnum_word ws \<and> is_lower (hd s))"
proof -
  have "isEventSegment s \<longleftrightarrow> s \<noteq> [] \<and> is_lower (hd s) \<and> list_all alnum_word (split_on dash s)"
  proof (cases s)
    case (Cons c cs)
    obtain w ws where w: "split_on dash cs = w # ws" by (cases "split_on dash cs") simp_all
    show ?thesis
      by (cases "c = dash")
         (auto simp: Cons isEventSegment_def segment_rest_iff w alnum_simps)
  qed (simp add: isEventSegment_def)
  moreover have "split_on dash s = ws" if "s = join_with dash ws" "ws \<noteq> []" "list_all alnum_word ws" for ws
    using that split_on_join [of ws dash] by (fastforce simp: list_all_iff alnum_word_def)
  moreover have "s \<noteq> []" if "s = join_with dash ws" "ws \<noteq> []" "list_all alnum_word ws" for ws
    using that by (cases "(dash, ws)" rule: join_with.cases) (auto simp: alnum_word_def)
  ultimately show ?thesis using join_with_split_on [of dash s] split_on_nonempty [of dash s] by metis
qed

end
