(* ===== verification/Sys.thy ===== *)
theory Sys
  imports Prelude Strconv
begin

text \<open>
  \<^verbatim>\<open>internal/sys/sys.go\<close> and \<^verbatim>\<open>errno/errno.go\<close>: the retry loop every system call of the
  library goes through, and the typed error numbers.

  A system call is a function on the state it acts on: the kernel's, and the caller's
  buffers it may fill. It yields the pair of a raw result and an error number. \<open>Retry\<close> may
  loop for ever (a call that is always interrupted), so it is a \<open>partial_function\<close> whose
  \<open>None\<close> is divergence; the theorem below says exactly when it returns and with what.
\<close>

type_synonym sysret = "u64 \<times> u64"
type_synonym 's syscall = "'s \<Rightarrow> sysret \<times> 's"

definition syscall_EINTR :: u64 where "syscall_EINTR = 4"

definition EPERM :: gerr where "EPERM = Errno 1"
definition ENOENT :: gerr where "ENOENT = Errno 2"
definition EINTR :: gerr where "EINTR = Errno 4"
definition EIO :: gerr where "EIO = Errno 5"
definition EBADF :: gerr where "EBADF = Errno 9"
definition EAGAIN :: gerr where "EAGAIN = Errno 11"
definition EACCES :: gerr where "EACCES = Errno 13"
definition EFAULT :: gerr where "EFAULT = Errno 14"
definition EBUSY :: gerr where "EBUSY = Errno 16"
definition EEXIST :: gerr where "EEXIST = Errno 17"
definition ENOTDIR :: gerr where "ENOTDIR = Errno 20"
definition EISDIR :: gerr where "EISDIR = Errno 21"
definition EINVAL :: gerr where "EINVAL = Errno 22"
definition ENOTTY :: gerr where "ENOTTY = Errno 25"
definition ERANGE :: gerr where "ERANGE = Errno 34"
definition ENOSYS :: gerr where "ENOSYS = Errno 38"

definition Itoa :: "int \<Rightarrow> string" where
  "Itoa i = (if i < 0 then CHR ''-'' # FormatUint (nat (- i)) 10 else FormatUint (nat i) 10)"

definition Errno_Error :: "u32 \<Rightarrow> string" where
  "Errno_Error e =
     (if e = 1 then ''operation not permitted''
      else if e = 2 then ''no such file or directory''
      else if e = 4 then ''interrupted system call''
      else if e = 5 then ''input/output error''
      else if e = 9 then ''bad file descriptor''
      else if e = 11 then ''resource temporarily unavailable''
      else if e = 13 then ''permission denied''
      else if e = 14 then ''bad address''
      else if e = 16 then ''device or resource busy''
      else if e = 17 then ''file exists''
      else if e = 20 then ''not a directory''
      else if e = 21 then ''is a directory''
      else if e = 22 then ''invalid argument''
      else if e = 25 then ''inappropriate ioctl for device''
      else if e = 34 then ''numerical result out of range''
      else if e = 38 then ''function not implemented''
      else ''errno '' @ Itoa (sint e))"

text \<open>The result of \<open>Retry\<close>: the raw value, and the error (\<open>None\<close> for nil).\<close>

partial_function (option) Retry :: "'s syscall \<Rightarrow> 's \<Rightarrow> ((u64 \<times> gerr option) \<times> 's) option" where
  "Retry call s =
     (case call s of ((r, e), s') \<Rightarrow>
        if e = 0 then Some ((r, None), s')
        else if e = syscall_EINTR then Retry call s'
        else Some ((r, Some (Errno (ucast e))), s'))"

declare Retry.simps [code]

text \<open>\<open>interrupted call n s s'\<close>: \<open>n\<close> calls in a row are interrupted, leading from \<open>s\<close> to \<open>s'\<close>.\<close>

inductive interrupted :: "'s syscall \<Rightarrow> nat \<Rightarrow> 's \<Rightarrow> 's \<Rightarrow> bool" for call where
  interrupted_0: "interrupted call 0 s s"
| interrupted_Suc: "call s = ((r, syscall_EINTR), s1) \<Longrightarrow> interrupted call n s1 s2 \<Longrightarrow>
    interrupted call (Suc n) s s2"

inductive_cases interrupted_0E: "interrupted call 0 s s'"
inductive_cases interrupted_SucE: "interrupted call (Suc n) s s'"

lemma EINTR_nz [simp]: "syscall_EINTR \<noteq> 0"
  by (simp add: syscall_EINTR_def)

lemma Retry_skip: "interrupted call n s s' \<Longrightarrow> Retry call s = Retry call s'"
proof (induction rule: interrupted.induct)
  case (interrupted_Suc s r s1 n s2)
  then show ?case by (subst Retry.simps) simp
qed simp

lemma Retry_final:
  assumes "call s = ((r, e), s')" and "e \<noteq> syscall_EINTR"
  shows "Retry call s = Some ((r, if e = 0 then None else Some (Errno (ucast e))), s')"
  using assms by (subst Retry.simps) simp

lemma Retry_SomeD:
  assumes "Retry call s = Some y"
  shows "\<exists>n t r e s'. interrupted call n s t \<and> call t = ((r, e), s') \<and> e \<noteq> syscall_EINTR \<and>
    y = ((r, if e = 0 then None else Some (Errno (ucast e))), s')"
proof (rule Retry.raw_induct [OF _ assms])
  fix loop call s y
  assume IH: "\<And>call s y. loop call s = Some y \<Longrightarrow>
      \<exists>n t r e s'. interrupted call n s t \<and> call t = ((r, e), s') \<and> e \<noteq> syscall_EINTR \<and>
        y = ((r, if e = 0 then None else Some (Errno (ucast e))), s')"
    and step: "(case call s of ((r, e), s') \<Rightarrow>
        if e = 0 then Some ((r, None), s')
        else if e = syscall_EINTR then loop call s'
        else Some ((r, Some (Errno (ucast e))), s')) = Some y"
  obtain r e s1 where c: "call s = ((r, e), s1)" by (metis surj_pair)
  show "\<exists>n t r e s'. interrupted call n s t \<and> call t = ((r, e), s') \<and> e \<noteq> syscall_EINTR \<and>
      y = ((r, if e = 0 then None else Some (Errno (ucast e))), s')"
  proof (cases "e = syscall_EINTR")
    case True
    with step c have "loop call s1 = Some y" by simp
    from IH [OF this] show ?thesis
      using interrupted_Suc [of call s r s1] c True by blast
  next
    case False
    with step c have "y = ((r, if e = 0 then None else Some (Errno (ucast e))), s1)"
      by (auto split: if_splits)
    then show ?thesis using interrupted_0 [of call s] c False by blast
  qed
qed

text \<open>C17
  \<open>sys.Retry\<close> returns exactly when, after some number of interrupted calls, a call is not
  interrupted; it then returns that call's result, with nil for error number 0 and the
  typed error otherwise, in the state that call left. The interruption itself is never
  reported, and every interrupted call is followed by another.\<close>

theorem Retry_Some_iff:
  "Retry call s = Some ((r, err), s') \<longleftrightarrow>
   (\<exists>n t e. interrupted call n s t \<and> call t = ((r, e), s') \<and> e \<noteq> syscall_EINTR \<and>
      err = (if e = 0 then None else Some (Errno (ucast e))))"
proof
  assume "Retry call s = Some ((r, err), s')"
  then show "\<exists>n t e. interrupted call n s t \<and> call t = ((r, e), s') \<and> e \<noteq> syscall_EINTR \<and>
      err = (if e = 0 then None else Some (Errno (ucast e)))"
    by (blast dest: Retry_SomeD)
qed (auto simp: Retry_skip Retry_final)

text \<open>A call that is never interrupted runs once.\<close>

lemma Retry_once:
  assumes "fst (call s) = (r, e)" and "e \<noteq> syscall_EINTR"
  shows "Retry call s = Some ((r, if e = 0 then None else Some (Errno (ucast e))), snd (call s))"
  using Retry_final [of call s r e "snd (call s)"] assms by (cases "call s") simp

end
