(* ===== verification/KernelSd.thy ===== *)
theory KernelSd
  imports Sys Inherit Claims AuditContext
begin

text \<open>
  The kernel-facing half of package \<^verbatim>\<open>sd\<close>: \<^verbatim>\<open>sd/getset.go\<close> (targets, \<open>GetSD\<close>, \<open>SetSD\<close>),
  \<^verbatim>\<open>sd/accesscheck.go\<close> and \<^verbatim>\<open>sd/caap.go\<close>.

  The kernel is a parameter: each system call is a function of the arguments the library
  passes and of the state \<open>'w\<close> it acts on. A pointer field of an argument block is the
  buffer it points to, a nil pointer the empty buffer. A buffer the kernel fills is part of
  the state of the call. The outer \<open>None\<close> of an operation is a call that is interrupted for
  ever (see \<^verbatim>\<open>Sys\<close>).
\<close>

section \<open>Targets\<close>

record Target =
  t_dirfd :: int
  t_path :: string
  t_flags :: u32

definition atFDCWD :: int where "atFDCWD = - 0x64"
definition atEmptyPath :: u32 where "atEmptyPath = 0x1000"
definition atSymlinkNoFollow :: u32 where "atSymlinkNoFollow = 0x100"

definition InfoAll :: "'m sd_abi_scheme \<Rightarrow> u32" where
  "InfoAll U = InfoOwner U OR InfoGroup U OR InfoDACL U OR InfoSACL U"

definition Path :: "string \<Rightarrow> Target" where
  "Path path = \<lparr>t_dirfd = atFDCWD, t_path = path, t_flags = 0\<rparr>"

definition PathAt :: "int \<Rightarrow> string \<Rightarrow> Target" where
  "PathAt dirfd path = \<lparr>t_dirfd = dirfd, t_path = path, t_flags = 0\<rparr>"

definition FD :: "int \<Rightarrow> Target" where
  "FD fd = \<lparr>t_dirfd = fd, t_path = [], t_flags = atEmptyPath\<rparr>"

definition NoFollowSymlinks :: "Target \<Rightarrow> Target" where
  "NoFollowSymlinks t = t\<lparr>t_flags := t_flags t OR atSymlinkNoFollow\<rparr>"

text \<open>\<open>syscall.BytePtrFromString\<close> refuses a string with a NUL byte; its error is
  \<open>syscall.EINVAL\<close>, which is not an \<open>errno.Errno\<close>.\<close>

definition BytePtrFromString :: "string \<Rightarrow> bytes result" where
  "BytePtrFromString s =
     (if CHR 0x00 \<in> set s then Inl (Errorf ''invalid argument'') else Inr (bytes_of s @ [0]))"

section \<open>Reading and writing descriptors\<close>

text \<open>The kernel's \<open>get_sd\<close>: descriptor number, C path, selection and flags, on the caller's buffer.\<close>

type_synonym 'w get_sd_call = "int \<Rightarrow> bytes \<Rightarrow> u32 \<Rightarrow> u32 \<Rightarrow> (bytes \<times> 'w) syscall"

definition GetSD :: "'w get_sd_call \<Rightarrow> Target \<Rightarrow> u32 \<Rightarrow> 'w \<Rightarrow> (bytes result \<times> 'w) option" where
  "GetSD k t info w =
     (case BytePtrFromString (t_path t) of
        Inl e \<Rightarrow> Some (Inl (Wrap ''libp/sd: get sd: invalid path: '' e), w)
      | Inr cpath \<Rightarrow>
          let call = Retry (k (t_dirfd t) cpath info (t_flags t)) in
          (case call ([], w) of None \<Rightarrow> None
           | Some ((needed, Some e), (_, w)) \<Rightarrow> Some (Inl (Wrap ''libp/sd: get sd: '' e), w)
           | Some ((needed, None), (_, w)) \<Rightarrow>
               if needed = 0 then Some (Inr [], w)
               else
                 (case call (replicate (unat needed) 0, w) of None \<Rightarrow> None
                  | Some ((got, Some e), (_, w)) \<Rightarrow> Some (Inl (Wrap ''libp/sd: get sd: '' e), w)
                  | Some ((got, None), (buf, w)) \<Rightarrow>
                      if got > needed then
                        Some (Inl (Errorf ''libp/sd: get sd: descriptor grew between probe and fetch''), w)
                      else Some (slice buf 0 (unat got), w))))"

type_synonym 'w set_sd_call = "int \<Rightarrow> bytes \<Rightarrow> u32 \<Rightarrow> bytes \<Rightarrow> u32 \<Rightarrow> 'w syscall"

definition SetSD :: "'w set_sd_call \<Rightarrow> Target \<Rightarrow> u32 \<Rightarrow> bytes \<Rightarrow> 'w \<Rightarrow> (unit result \<times> 'w) option" where
  "SetSD k t info sdBytes w =
     (case BytePtrFromString (t_path t) of
        Inl e \<Rightarrow> Some (Inl (Wrap ''libp/sd: set sd: invalid path: '' e), w)
      | Inr cpath \<Rightarrow>
          (case Retry (k (t_dirfd t) cpath info sdBytes (t_flags t)) w of None \<Rightarrow> None
           | Some ((_, Some e), w) \<Rightarrow> Some (Inl (Wrap ''libp/sd: set sd: '' e), w)
           | Some ((_, None), w) \<Rightarrow> Some (Inr (), w)))"

section \<open>Access checks\<close>

record GenericMapping =
  gm_Read :: u32
  gm_Write :: u32
  gm_Execute :: u32
  gm_All :: u32

record CheckRequest =
  cr_Token :: "int option"
  cr_SD :: bytes
  cr_DesiredAccess :: u32
  cr_Mapping :: GenericMapping
  cr_SelfSID :: SID
  cr_PrivilegeIntent :: u32
  cr_ObjectTree :: "ObjectNode list"
  cr_LocalClaims :: "Claim list"
  cr_PIPType :: u32
  cr_PIPTrust :: u32
  cr_AuditContext :: bytes

record Decision =
  Granted :: bool
  GrantedMask :: u32

record NodeDecision =
  nd_GrantedMask :: u32
  nd_Status :: u32

record access_check_args =
  Token_fd :: int
  Sd :: bytes
  Desired_access :: u32
  Mapping_read :: u32
  Mapping_write :: u32
  Mapping_execute :: u32
  Mapping_all :: u32
  Self_sid :: bytes
  Privilege_intent :: u32
  Object_tree :: bytes
  Object_tree_count :: u32
  Local_claims :: bytes
  Pip_type :: u32
  Pip_trust :: u32
  Audit_context :: bytes

definition tokenFD :: "int option \<Rightarrow> int" where
  "tokenFD t = (case t of None \<Rightarrow> - 1 | Some fd \<Rightarrow> signed_take_bit 31 fd)"

definition assemble :: "claim_abi \<Rightarrow> audit_abi \<Rightarrow> CheckRequest \<Rightarrow> access_check_args result" where
  "assemble K A req =
     (if length (cr_SD req) = 0 then
        Inl (Errorf ''libp/sd: access check requires a security descriptor'')
      else
        bindE (if length (cr_AuditContext req) > 0 then ValidateAuditContext A (cr_AuditContext req)
               else Inr ()) (\<lambda>_.
        bindE (EncodeClaimsArray K (cr_LocalClaims req)) (\<lambda>claims.
        Inr \<lparr>Token_fd = tokenFD (cr_Token req), Sd = cr_SD req, Desired_access = cr_DesiredAccess req,
             Mapping_read = gm_Read (cr_Mapping req), Mapping_write = gm_Write (cr_Mapping req),
             Mapping_execute = gm_Execute (cr_Mapping req), Mapping_all = gm_All (cr_Mapping req),
             Self_sid = (if IsValid (cr_SelfSID req) then SID_Bytes (cr_SelfSID req) else []),
             Privilege_intent = cr_PrivilegeIntent req,
             Object_tree = EncodeObjectTree (cr_ObjectTree req),
             Object_tree_count = of_nat (length (cr_ObjectTree req)),
             Local_claims = claims, Pip_type = cr_PIPType req, Pip_trust = cr_PIPTrust req,
             Audit_context = cr_AuditContext req\<rparr>)))"

text \<open>The kernel writes \<open>granted\<close> through \<open>Granted_out_ptr\<close>.\<close>

type_synonym 'w check_call = "access_check_args \<Rightarrow> (u32 \<times> 'w) syscall"

definition Check :: "'w check_call \<Rightarrow> claim_abi \<Rightarrow> audit_abi \<Rightarrow> CheckRequest \<Rightarrow> 'w \<Rightarrow>
    (Decision result \<times> 'w) option" where
  "Check k K A req w =
     (case assemble K A req of
        Inl e \<Rightarrow> Some (Inl e, w)
      | Inr args \<Rightarrow>
          (case Retry (k args) (0, w) of None \<Rightarrow> None
           | Some ((_, Some e), (granted, w)) \<Rightarrow>
               if errors_is e EACCES
               then Some (Inr \<lparr>Granted = False, GrantedMask = granted\<rparr>, w)
               else Some (Inl (Wrap ''libp/sd: access check: '' e), w)
           | Some ((_, None), (granted, w)) \<Rightarrow>
               Some (Inr \<lparr>Granted = True, GrantedMask = granted\<rparr>, w)))"

text \<open>The list form also fills one \<open>(granted, status)\<close> slot per node.\<close>

type_synonym 'w check_list_call =
  "access_check_args \<Rightarrow> (u32 \<times> (u32 \<times> u32) list \<times> 'w) syscall"

definition CheckList :: "'w check_list_call \<Rightarrow> claim_abi \<Rightarrow> audit_abi \<Rightarrow> CheckRequest \<Rightarrow> 'w \<Rightarrow>
    (NodeDecision list result \<times> 'w) option" where
  "CheckList k K A req w =
     (if length (cr_ObjectTree req) = 0 then
        Some (Inl (Errorf ''libp/sd: access check list requires at least one object-tree node''), w)
      else
        (case assemble K A req of
           Inl e \<Rightarrow> Some (Inl e, w)
         | Inr args \<Rightarrow>
             (case Retry (k args) (0, replicate (length (cr_ObjectTree req)) (0, 0), w) of None \<Rightarrow> None
              | Some ((_, Some e), (_, _, w)) \<Rightarrow> Some (Inl (Wrap ''libp/sd: access check list: '' e), w)
              | Some ((_, None), (_, results, w)) \<Rightarrow>
                  Some (Inr (map (\<lambda>(g, s). \<lparr>nd_GrantedMask = g, nd_Status = s\<rparr>) results), w))))"

section \<open>Central access policies\<close>

definition SetCAAP :: "(bytes \<Rightarrow> bytes \<Rightarrow> 'w syscall) \<Rightarrow> SID \<Rightarrow> bytes \<Rightarrow> 'w \<Rightarrow> (unit result \<times> 'w) option" where
  "SetCAAP k policySID spec w =
     (case Retry (k (SID_Bytes policySID) spec) w of None \<Rightarrow> None
      | Some ((_, Some e), w) \<Rightarrow> Some (Inl (Wrap ''libp/sd: set caap: '' e), w)
      | Some ((_, None), w) \<Rightarrow> Some (Inr (), w))"

section \<open>Properties\<close>

lemma EINTR_0 [simp]: "(0 :: u64) \<noteq> syscall_EINTR"
  using EINTR_nz by metis

text \<open>
  \<open>GetSD\<close> reads the whole descriptor: against a kernel that reports the full size and
  copies as many bytes as fit in the buffer, the probe and the fetch together return exactly
  the stored bytes, and leave the kernel's state alone.\<close>

theorem GetSD_reads_all:
  assumes "CHR 0x00 \<notin> set (t_path t)" and "length d < 2 ^ 64"
    and "\<And>b w. k (t_dirfd t) (bytes_of (t_path t) @ [0]) info (t_flags t) (b, w)
      = ((of_nat (length d), 0), (copy_into b d, w))"
  shows "GetSD k t info w = Some (Inr d, w)"
proof -
  let ?k = "k (t_dirfd t) (bytes_of (t_path t) @ [0]) info (t_flags t)"
  have r: "Retry ?k (b, w) = Some ((of_nat (length d), None), (copy_into b d, w))" for b w
    using Retry_final [of ?k "(b, w)" "of_nat (length d)" 0 "(copy_into b d, w)"] assms(3) by simp
  have n: "unat (of_nat (length d) :: u64) = length d"
    using assms(2) by (simp add: unsigned_of_nat take_bit_nat_eq_self)
  then have z: "(of_nat (length d) :: u64) = 0 \<longleftrightarrow> d = []" by (metis length_0_conv unat_eq_0 n)
  show ?thesis
    using assms(1) z by (auto simp: GetSD_def BytePtrFromString_def Let_def r n copy_into_fits slice_def)
qed

theorem GetSD_reads_all_witness:
  "GetSD (\<lambda>fd p i f (b, w). ((3, 0), (copy_into b [7, 8, 9], w))) (Path ''/etc'') 4 ()
     = Some (Inr [7, 8, 9], ())"
  by (rule GetSD_reads_all) (simp_all add: Path_def)

text \<open>
  \<open>GetSD\<close> is safe against a descriptor that changes between its two calls: whatever the
  kernel returns, as long as it does not resize the caller's buffer, the result is an error
  or the prefix of the fetched buffer the kernel reported, never an out-of-range slice; a
  descriptor that grew is reported, not truncated.\<close>

theorem GetSD_no_panic:
  assumes "\<And>fd p i f b w. length (fst (snd (k fd p i f (b, w)))) = length b"
    and "GetSD k t info w = Some (r, w')"
  shows "no_panic r"
proof -
  have i: "interrupted (k fd p i f) n s s' \<Longrightarrow> length (fst s') = length (fst s)" for fd p i f n s s'
    by (induction rule: interrupted.induct) (use assms(1) in \<open>metis prod.collapse snd_conv\<close>)+
  have len: "length b' = length b"
    if "Retry (k fd p i f) (b, w) = Some ((x, e), (b', w'))" for fd p i f b w x e b' w'
    using Retry_SomeD [OF that] i assms(1) by (metis fst_conv prod.collapse prod.inject snd_conv)
  show ?thesis
    using assms(2)
    by (auto simp: GetSD_def BytePtrFromString_def Let_def slice_def no_panic_def word_less_nat_alt not_less
        split: if_splits option.splits dest!: len)
qed

theorem GetSD_no_panic_witness:
  "(\<forall>b w. length (fst (snd (((if b = [] then 2 else 9, 0), (b, w)) :: sysret \<times> (bytes \<times> nat)))) = length b) \<and>
   (\<exists>r w'. GetSD (\<lambda>fd p i f (b, w). ((if b = [] then 2 else 9, 0), (b, w))) (FD 3) 4 (0 :: nat)
      = Some (r, w') \<and> no_panic r)"
proof -
  let ?k = "\<lambda>fd p i f (b, w). ((if b = [] then 2 else 9, 0), (b, w)) :: sysret \<times> (bytes \<times> nat)"
  have r: "Retry (\<lambda>(b, w). ((if b = [] then 2 else 9, 0), (b, w)) :: sysret \<times> (bytes \<times> nat)) (b, w)
      = Some ((if b = [] then 2 else 9, None), (b, w))" for b w
    by (subst Retry.simps) simp
  have g: "GetSD ?k (FD 3) 4 0
      = Some (Inl (Errorf ''libp/sd: get sd: descriptor grew between probe and fetch''), 0)"
    by (simp add: GetSD_def FD_def BytePtrFromString_def r Let_def)
  have "no_panic (Inl (Errorf ''libp/sd: get sd: descriptor grew between probe and fetch'') :: bytes result)"
    by (rule GetSD_no_panic [OF _ g]) simp
  with g show ?thesis by simp
qed

text \<open>
  The request of an access check is assembled exactly when there is a security descriptor,
  the audit context is absent or one the kernel accepts, and every local claim can be
  encoded; the argument block then carries the request's buffers unchanged, and the token
  field is -1, the caller's own token, exactly when no token is given, as long as the
  descriptor is one a process can have.\<close>

theorem assemble_spec:
  assumes "\<forall>fd. cr_Token req = Some fd \<longrightarrow> 0 \<le> fd \<and> fd < 2 ^ 31"
  shows "((\<exists>args. assemble K A req = Inr args) \<longleftrightarrow>
      cr_SD req \<noteq> [] \<and>
      (cr_AuditContext req = [] \<or> ValidateAuditContext A (cr_AuditContext req) = Inr ()) \<and>
      list_all claim_ok (cr_LocalClaims req)) \<and>
    (case assemble K A req of Inl e \<Rightarrow> True
     | Inr args \<Rightarrow> Sd args = cr_SD req \<and> Audit_context args = cr_AuditContext req \<and>
         (Token_fd args = - 1 \<longleftrightarrow> cr_Token req = None) \<and>
         (\<forall>fd. cr_Token req = Some fd \<longrightarrow> Token_fd args = fd))"
proof -
  have t: "tokenFD (cr_Token req) = (case cr_Token req of None \<Rightarrow> - 1 | Some fd \<Rightarrow> fd)"
    using assms by (auto simp: tokenFD_def signed_take_bit_int_eq_self split: option.split)
  show ?thesis
    using EncodeClaimsArray_iff [of K "cr_LocalClaims req"] assms
    by (cases "EncodeClaimsArray K (cr_LocalClaims req)";
        cases "ValidateAuditContext A (cr_AuditContext req)")
       (auto simp: assemble_def t split: option.split if_splits)
qed

definition sample_request :: CheckRequest where
  "sample_request = \<lparr>cr_Token = Some 5, cr_SD = [1], cr_DesiredAccess = 0,
     cr_Mapping = \<lparr>gm_Read = 0, gm_Write = 0, gm_Execute = 0, gm_All = 0\<rparr>, cr_SelfSID = zero_SID,
     cr_PrivilegeIntent = 0, cr_ObjectTree = [], cr_LocalClaims = [], cr_PIPType = 0, cr_PIPTrust = 0,
     cr_AuditContext = []\<rparr>"

definition sample_claim_abi :: claim_abi where
  "sample_claim_abi = \<lparr>CLAIM_TYPE_INT64 = 1, CLAIM_TYPE_UINT64 = 2, CLAIM_TYPE_BOOLEAN = 6,
     CLAIM_TYPE_STRING = 3, CLAIM_TYPE_SID = 5, CLAIM_TYPE_OCTET = 16\<rparr>"

definition sample_audit_abi :: audit_abi where
  "sample_audit_abi = \<lparr>MAX_AUDIT_CONTEXT_LEN = 4096, MAX_NESTING_DEPTH_DEFAULT = 32\<rparr>"

theorem assemble_spec_witness:
  "(\<exists>args. assemble sample_claim_abi sample_audit_abi sample_request = Inr args \<and> Token_fd args = 5)"
proof -
  have h: "\<forall>fd. cr_Token sample_request = Some fd \<longrightarrow> 0 \<le> fd \<and> fd < 2 ^ 31"
    by (simp add: sample_request_def)
  show ?thesis
    using assemble_spec [OF h, of sample_claim_abi sample_audit_abi]
    by (auto simp: sample_request_def split: sum.splits)
qed

text \<open>C34
  \<open>Check\<close> tells a denial from a failure. Whatever the number of interrupted calls before,
  the last one decides: error number 0 is a grant with the mask the kernel wrote, \<open>EACCES\<close>
  is a denial and not an error, and any other number is an error that \<open>errors.Is\<close> finds.\<close>

theorem Check_outcome:
  assumes "assemble K A req = Inr args" and "interrupted (k args) n (0, w) s"
    and "k args s = ((x, e), (granted, w'))" and "e \<noteq> syscall_EINTR"
  shows "\<exists>r. Check k K A req w = Some (r, w') \<and>
    (if e = 0 then r = Inr \<lparr>Granted = True, GrantedMask = granted\<rparr>
     else if ucast e = (13 :: u32) then r = Inr \<lparr>Granted = False, GrantedMask = granted\<rparr>
     else \<exists>er. r = Inl er \<and> errors_is er (Errno (ucast e)))"
proof -
  have "Retry (k args) (0, w)
      = Some ((x, if e = 0 then None else Some (Errno (ucast e))), (granted, w'))"
    using Retry_skip [OF assms(2)] Retry_final [of "k args" s, OF assms(3,4)] by simp
  then show ?thesis by (simp add: Check_def assms(1) EACCES_def)
qed

theorem Check_outcome_witness:
  "\<exists>args. assemble sample_claim_abi sample_audit_abi sample_request = Inr args \<and>
     Check (\<lambda>a (g, n). if n = 0 then ((0, 4), (g, 1)) else ((0, 13), (6, n + 1)))
       sample_claim_abi sample_audit_abi sample_request (0 :: nat)
       = Some (Inr \<lparr>Granted = False, GrantedMask = 6\<rparr>, 2)"
proof -
  let ?k = "\<lambda>a (g, n). if n = 0 then ((0, 4), (g, 1)) else ((0, 13), (6, n + 1)) :: sysret \<times> (u32 \<times> nat)"
  obtain args where a: "assemble sample_claim_abi sample_audit_abi sample_request = Inr args"
    by (simp add: assemble_def sample_request_def)
  have i: "interrupted (?k args) 1 (0, 0) (0, 1)"
    using interrupted_Suc [of "?k args" "(0, 0)" 0 "(0, 1)" 0] interrupted_0 [of "?k args"]
    by (simp add: syscall_EINTR_def)
  have "\<exists>r. Check ?k sample_claim_abi sample_audit_abi sample_request 0 = Some (r, 2) \<and>
      r = Inr \<lparr>Granted = False, GrantedMask = 6\<rparr>"
    using Check_outcome [OF a i, of 0 13 6 2] by (simp add: syscall_EINTR_def)
  with a show ?thesis by simp
qed

text \<open>
  \<open>CheckList\<close> returns one decision per node of the request's object tree, in tree order,
  whenever the kernel fills the result array it was handed; it refuses an empty tree without
  a system call.\<close>

theorem CheckList_per_node:
  assumes "\<And>a g rs w. length (fst (snd (snd (k a (g, rs, w))))) = length rs"
    and "CheckList k K A req w = Some (Inr ds, w')"
  shows "length ds = length (cr_ObjectTree req) \<and> ds \<noteq> []"
proof -
  have i: "interrupted (k a) n s s' \<Longrightarrow> length (fst (snd s')) = length (fst (snd s))" for a n s s'
    by (induction rule: interrupted.induct) (use assms(1) in \<open>metis prod.collapse snd_conv\<close>)+
  have len: "length rs' = length rs"
    if "Retry (k a) (g, rs, w) = Some ((x, e), (g', rs', w'))" for a g rs w x e g' rs' w'
    using Retry_SomeD [OF that] i assms(1) by (metis fst_conv prod.collapse prod.inject snd_conv)
  show ?thesis
    using assms(2)
    by (auto simp: CheckList_def split: if_splits option.splits sum.splits dest!: len)
qed

theorem CheckList_per_node_witness:
  "\<exists>d. CheckList (\<lambda>a (g, rs, w). ((0, 0), (g, map (\<lambda>_. (7, 0)) rs, w))) sample_claim_abi sample_audit_abi
     (sample_request\<lparr>cr_ObjectTree := [\<lparr>oLevel = 0, oGUID = replicate 16 0\<rparr>]\<rparr>) (0 :: nat)
     = Some (Inr [d], 0)"
proof -
  let ?k = "\<lambda>a (g, rs, w). ((0, 0), (g, map (\<lambda>_. (7, 0)) rs, w)) :: sysret \<times> (u32 \<times> (u32 \<times> u32) list \<times> nat)"
  let ?q = "sample_request\<lparr>cr_ObjectTree := [\<lparr>oLevel = 0, oGUID = replicate 16 0\<rparr>]\<rparr>"
  obtain args where a: "assemble sample_claim_abi sample_audit_abi ?q = Inr args"
    by (simp add: assemble_def sample_request_def)
  have r: "Retry (\<lambda>(g, rs, w). ((0, 0), (g, map (\<lambda>_. (7, 0)) rs, w)) :: sysret \<times> (u32 \<times> (u32 \<times> u32) list \<times> nat)) (g, rs, w)
      = Some ((0, None), (g, map (\<lambda>_. (7, 0)) rs, w))" for g rs w
    by (subst Retry.simps) simp
  obtain ds where g: "CheckList ?k sample_claim_abi sample_audit_abi ?q 0 = Some (Inr ds, 0)"
    by (simp add: CheckList_def a r)
  have "length ds = 1" using CheckList_per_node [OF _ g] by (simp add: case_prod_beta)
  then obtain d where "ds = [d]" by (auto simp: length_Suc_conv)
  with g show ?thesis by auto
qed

end
