(* ===== verification/SddlTables.thy ===== *)
theory SddlTables
  imports Ace WellKnown Strconv
begin

text \<open>
  \<^verbatim>\<open>sddl/tables.go\<close> and \<^verbatim>\<open>sddl/guid.go\<close>: the vocabulary of SDDL. SID aliases, access masks,
  ACE types and flags, and textual GUIDs, each with the parser and the printer of its field
  and the theorem that the parser inverts the printer.

  A Go map is the association list of its literal. Iterations over a map have no fixed
  order in Go; the two reverse tables keep the least name, so the order does not matter,
  and \<open>relativeAlias\<close> takes the first match of the list, which is the only one
  (\<open>relativeAlias_unique\<close>).
\<close>

section \<open>SID aliases\<close>

datatype aliasKind = aliasAbsolute | aliasDomain | aliasMachine

record aliasEntry =
  ae_kind :: aliasKind
  ae_sid :: SID
  ae_rid :: u32

record options =
  o_domain :: SID
  o_machine :: SID

definition mustSID :: "u64 \<Rightarrow> u32 list \<Rightarrow> SID" where
  "mustSID a ss = (case NewSID a ss of Inr s \<Rightarrow> s | Inl _ \<Rightarrow> zero_SID)"

definition absAlias :: "SID \<Rightarrow> aliasEntry" where
  "absAlias s = \<lparr>ae_kind = aliasAbsolute, ae_sid = s, ae_rid = 0\<rparr>"

definition domAlias :: "u32 \<Rightarrow> aliasEntry" where
  "domAlias rid = \<lparr>ae_kind = aliasDomain, ae_sid = zero_SID, ae_rid = rid\<rparr>"

definition macAlias :: "u32 \<Rightarrow> aliasEntry" where
  "macAlias rid = \<lparr>ae_kind = aliasMachine, ae_sid = zero_SID, ae_rid = rid\<rparr>"

definition sidAliases :: "(string \<times> aliasEntry) list" where
  "sidAliases =
    [(''WD'', absAlias (wk_SID Everyone)),
     (''AN'', absAlias (wk_SID Anonymous)),
     (''AU'', absAlias (wk_SID AuthenticatedUsers)),
     (''IU'', absAlias (mustSID 5 [4])),
     (''NU'', absAlias (mustSID 5 [2])),
     (''SU'', absAlias (mustSID 5 [6])),
     (''RC'', absAlias (mustSID 5 [12])),
     (''WR'', absAlias (mustSID 5 [33])),
     (''PS'', absAlias (mustSID 5 [10])),
     (''CO'', absAlias (wk_SID CreatorOwner)),
     (''CG'', absAlias (wk_SID CreatorGroup)),
     (''OW'', absAlias (mustSID 3 [4])),
     (''ED'', absAlias (mustSID 5 [9])),
     (''AC'', absAlias (mustSID 15 [2, 1])),
     (''SY'', absAlias (wk_SID LocalSystem)),
     (''LS'', absAlias (wk_SID LocalService)),
     (''NS'', absAlias (wk_SID NetworkService)),
     (''LW'', absAlias (wk_SID LowIL)),
     (''ME'', absAlias (wk_SID MediumIL)),
     (''MP'', absAlias (wk_SID MediumPlusIL)),
     (''HI'', absAlias (wk_SID HighIL)),
     (''SI'', absAlias (wk_SID SystemIL)),
     (''BA'', absAlias (wk_SID BuiltinAdministrators)),
     (''BU'', absAlias (wk_SID BuiltinUsers)),
     (''BG'', absAlias (mustSID 5 [32, 546])),
     (''PU'', absAlias (mustSID 5 [32, 547])),
     (''AO'', absAlias (mustSID 5 [32, 548])),
     (''SO'', absAlias (mustSID 5 [32, 549])),
     (''PO'', absAlias (mustSID 5 [32, 550])),
     (''BO'', absAlias (mustSID 5 [32, 551])),
     (''RE'', absAlias (mustSID 5 [32, 552])),
     (''RU'', absAlias (mustSID 5 [32, 554])),
     (''RD'', absAlias (mustSID 5 [32, 555])),
     (''NO'', absAlias (mustSID 5 [32, 556])),
     (''MU'', absAlias (mustSID 5 [32, 558])),
     (''LU'', absAlias (mustSID 5 [32, 559])),
     (''IS'', absAlias (mustSID 5 [32, 568])),
     (''CY'', absAlias (mustSID 5 [32, 569])),
     (''ER'', absAlias (mustSID 5 [32, 573])),
     (''CD'', absAlias (mustSID 5 [32, 574])),
     (''RA'', absAlias (mustSID 5 [32, 575])),
     (''ES'', absAlias (mustSID 5 [32, 576])),
     (''MS'', absAlias (mustSID 5 [32, 577])),
     (''HA'', absAlias (mustSID 5 [32, 578])),
     (''AA'', absAlias (mustSID 5 [32, 579])),
     (''RM'', absAlias (mustSID 5 [32, 580])),
     (''RO'', domAlias 498),
     (''DA'', domAlias 512),
     (''DU'', domAlias 513),
     (''DG'', domAlias 514),
     (''DC'', domAlias 515),
     (''DD'', domAlias 516),
     (''CA'', domAlias 517),
     (''SA'', domAlias 518),
     (''EA'', domAlias 519),
     (''PA'', domAlias 520),
     (''CN'', domAlias 522),
     (''AP'', domAlias 525),
     (''KA'', domAlias 526),
     (''EK'', domAlias 527),
     (''RS'', domAlias 553),
     (''LA'', macAlias 500),
     (''LG'', macAlias 501)]"

text \<open>Go's order on strings, and a reverse table that keeps the least name of a key.\<close>

fun str_less :: "string \<Rightarrow> string \<Rightarrow> bool" where
  "str_less _ [] = False"
| "str_less [] (_ # _) = True"
| "str_less (a # as) (b # bs) =
     ((of_char a :: nat) < of_char b \<or> a = b \<and> str_less as bs)"

definition keep_least :: "('k \<rightharpoonup> string) \<Rightarrow> string \<times> 'k \<Rightarrow> ('k \<rightharpoonup> string)" where
  "keep_least m p =
     (case m (snd p) of
        None \<Rightarrow> m(snd p \<mapsto> fst p)
      | Some prev \<Rightarrow> if str_less (fst p) prev then m(snd p \<mapsto> fst p) else m)"

definition least_name :: "(string \<times> 'k) list \<Rightarrow> 'k \<rightharpoonup> string" where
  "least_name tbl = foldl keep_least Map.empty tbl"

definition absAliasBySID :: "SID \<rightharpoonup> string" where
  "absAliasBySID = least_name
     (map (\<lambda>(n, e). (n, ae_sid e)) (filter (\<lambda>(n, e). ae_kind e = aliasAbsolute) sidAliases))"

definition resolveAlias :: "options \<Rightarrow> string \<Rightarrow> SID result" where
  "resolveAlias opt name =
     (case map_of sidAliases name of
        None \<Rightarrow> Inl (Errorf ''unknown SID alias'')
      | Some e \<Rightarrow>
          (case ae_kind e of
             aliasDomain \<Rightarrow>
               if \<not> IsValid (o_domain opt) then Inl (Errorf ''domain-relative alias needs a domain context'')
               else Child (o_domain opt) (ae_rid e)
           | aliasMachine \<Rightarrow>
               if \<not> IsValid (o_machine opt) then Inl (Errorf ''machine-relative alias needs a machine context'')
               else Child (o_machine opt) (ae_rid e)
           | aliasAbsolute \<Rightarrow> Inr (ae_sid e)))"

definition has_prefix :: "string \<Rightarrow> string \<Rightarrow> bool" where
  "has_prefix s p \<longleftrightarrow> take (length p) s = p"

definition parseSIDText :: "options \<Rightarrow> string \<Rightarrow> SID result" where
  "parseSIDText opt text =
     (if has_prefix text ''S-'' then SIDFromString text else resolveAlias opt text)"

definition relativeAlias :: "SID \<Rightarrow> SID \<Rightarrow> aliasKind \<Rightarrow> string option" where
  "relativeAlias base s kind =
     map_option fst (find (\<lambda>(name, e). ae_kind e = kind \<and> Child base (ae_rid e) = Inr s) sidAliases)"

definition formatSID :: "options \<Rightarrow> SID \<Rightarrow> string" where
  "formatSID opt s =
     (case absAliasBySID s of
        Some name \<Rightarrow> name
      | None \<Rightarrow>
          (case (if IsValid (o_domain opt) then relativeAlias (o_domain opt) s aliasDomain else None) of
             Some name \<Rightarrow> name
           | None \<Rightarrow>
               (case (if IsValid (o_machine opt) then relativeAlias (o_machine opt) s aliasMachine else None) of
                  Some name \<Rightarrow> name
                | None \<Rightarrow> SID_String s)))"

section \<open>Access masks\<close>

text \<open>The KACS rights bits the mnemonic table is composed from.\<close>

record rights_abi =
  ACCESS_DELETE :: u32
  ACCESS_READ_CONTROL :: u32
  ACCESS_WRITE_DAC :: u32
  ACCESS_WRITE_OWNER :: u32
  ACCESS_SYNCHRONIZE :: u32
  ACCESS_GENERIC_ALL :: u32
  ACCESS_GENERIC_READ :: u32
  ACCESS_GENERIC_WRITE :: u32
  ACCESS_GENERIC_EXECUTE :: u32
  FILE_READ_DATA :: u32
  FILE_WRITE_DATA :: u32
  FILE_APPEND_DATA :: u32
  FILE_READ_EA :: u32
  FILE_WRITE_EA :: u32
  FILE_EXECUTE :: u32
  FILE_DELETE_CHILD :: u32
  FILE_READ_ATTRIBUTES :: u32
  FILE_WRITE_ATTRIBUTES :: u32

definition fileRead :: "rights_abi \<Rightarrow> u32" where
  "fileRead R = ACCESS_READ_CONTROL R OR ACCESS_SYNCHRONIZE R OR FILE_READ_DATA R OR FILE_READ_EA R
     OR FILE_READ_ATTRIBUTES R"

definition fileWrite :: "rights_abi \<Rightarrow> u32" where
  "fileWrite R = ACCESS_READ_CONTROL R OR ACCESS_SYNCHRONIZE R OR FILE_WRITE_DATA R
     OR FILE_APPEND_DATA R OR FILE_WRITE_EA R OR FILE_WRITE_ATTRIBUTES R"

definition fileExecute :: "rights_abi \<Rightarrow> u32" where
  "fileExecute R = ACCESS_READ_CONTROL R OR ACCESS_SYNCHRONIZE R OR FILE_EXECUTE R
     OR FILE_READ_ATTRIBUTES R"

definition fileAll :: "rights_abi \<Rightarrow> u32" where
  "fileAll R = ACCESS_DELETE R OR ACCESS_READ_CONTROL R OR ACCESS_WRITE_DAC R OR ACCESS_WRITE_OWNER R
     OR ACCESS_SYNCHRONIZE R OR FILE_READ_DATA R OR FILE_WRITE_DATA R OR FILE_APPEND_DATA R
     OR FILE_READ_EA R OR FILE_WRITE_EA R OR FILE_EXECUTE R OR FILE_DELETE_CHILD R
     OR FILE_READ_ATTRIBUTES R OR FILE_WRITE_ATTRIBUTES R"

definition rightsMnemonics :: "rights_abi \<Rightarrow> (string \<times> u32) list" where
  "rightsMnemonics R =
    [(''GA'', ACCESS_GENERIC_ALL R), (''GR'', ACCESS_GENERIC_READ R),
     (''GW'', ACCESS_GENERIC_WRITE R), (''GX'', ACCESS_GENERIC_EXECUTE R),
     (''RC'', ACCESS_READ_CONTROL R), (''SD'', ACCESS_DELETE R),
     (''WD'', ACCESS_WRITE_DAC R), (''WO'', ACCESS_WRITE_OWNER R),
     (''FA'', fileAll R), (''FR'', fileRead R), (''FW'', fileWrite R), (''FX'', fileExecute R),
     (''CC'', 0x001), (''DC'', 0x002), (''LC'', 0x004), (''SW'', 0x008),
     (''RP'', 0x010), (''WP'', 0x020), (''DT'', 0x040), (''LO'', 0x080), (''CR'', 0x100),
     (''NW'', 0x001), (''NR'', 0x002), (''NX'', 0x004)]"

definition hasHexPrefix :: "string \<Rightarrow> bool" where
  "hasHexPrefix s \<longleftrightarrow> length s > 2 \<and> (take 2 s = ''0x'' \<or> take 2 s = ''0X'')"

definition parseHexMask :: "string \<Rightarrow> u32 result" where
  "parseHexMask s =
     (case ParseUint (drop 2 s) 16 32 of
        None \<Rightarrow> Inl (Errorf ''malformed hex access mask'')
      | Some v \<Rightarrow> Inr (of_nat v))"

definition isAllDigits :: "string \<Rightarrow> bool" where
  "isAllDigits s \<longleftrightarrow> list_all is_dec s \<and> length s > 0"

fun mnemonic_run :: "rights_abi \<Rightarrow> u32 \<Rightarrow> string \<Rightarrow> u32 result" where
  "mnemonic_run R m [] = Inr m"
| "mnemonic_run R m [c] = Inl (Errorf ''malformed rights mnemonics'')"
| "mnemonic_run R m (c1 # c2 # cs) =
     (if hasHexPrefix (c1 # c2 # cs)
      then bindE (parseHexMask (c1 # c2 # cs)) (\<lambda>v. Inr (m OR v))
      else case map_of (rightsMnemonics R) [c1, c2] of
             None \<Rightarrow> Inl (Errorf ''unknown rights mnemonic'')
           | Some b \<Rightarrow> mnemonic_run R (m OR b) cs)"

definition parseMask :: "rights_abi \<Rightarrow> string \<Rightarrow> u32 result" where
  "parseMask R field =
     (if field = [] then Inr 0
      else if hasHexPrefix field then parseHexMask field
      else if isAllDigits field then
        (case ParseUint field 10 32 of
           None \<Rightarrow> Inl (Errorf ''malformed access mask'')
         | Some v \<Rightarrow> Inr (of_nat v))
      else mnemonic_run R 0 field)"

definition formatMask :: "u32 \<Rightarrow> string" where
  "formatMask m = (if m = 0 then [] else ''0x'' @ FormatUint (unat m) 16)"

section \<open>ACE types\<close>

definition aceTypeTags :: "'m ace_abi_scheme \<Rightarrow> (string \<times> u8) list" where
  "aceTypeTags U =
    [(''A'', AceAccessAllowed U), (''D'', AceAccessDenied U),
     (''OA'', AceAccessAllowedObject U), (''OD'', AceAccessDeniedObject U),
     (''AU'', AceSystemAudit U), (''AL'', AceSystemAlarm U),
     (''OU'', AceSystemAuditObject U), (''OL'', AceSystemAlarmObject U),
     (''ML'', AceSystemMandatoryLabel U),
     (''XA'', AceAccessAllowedCallback U), (''XD'', AceAccessDeniedCallback U),
     (''XU'', AceSystemAuditCallback U), (''ZA'', AceAccessAllowedCallbackObject U),
     (''RA'', AceSystemResourceAttribute U), (''SP'', AceSystemScopedPolicyID U),
     (''TL'', AceSystemProcessTrustLabel U), (''FL'', AceSystemAccessFilter U)]"

definition aceTagByType :: "'m ace_abi_scheme \<Rightarrow> u8 \<rightharpoonup> string" where
  "aceTagByType U = least_name (aceTypeTags U)"

definition aceTypeSupported :: "'m ace_abi_scheme \<Rightarrow> u8 \<Rightarrow> bool" where
  "aceTypeSupported U t \<longleftrightarrow> t \<in> set
     [AceAccessAllowed U, AceAccessDenied U, AceSystemAudit U, AceSystemAlarm U, AceSystemMandatoryLabel U,
      AceAccessAllowedObject U, AceAccessDeniedObject U, AceSystemAuditObject U, AceSystemAlarmObject U,
      AceAccessAllowedCallback U, AceAccessDeniedCallback U, AceSystemAuditCallback U,
      AceAccessAllowedCallbackObject U]"

definition isCallbackType :: "'m ace_abi_scheme \<Rightarrow> u8 \<Rightarrow> bool" where
  "isCallbackType U t \<longleftrightarrow> t \<in> set
     [AceAccessAllowedCallback U, AceAccessDeniedCallback U, AceSystemAuditCallback U,
      AceAccessAllowedCallbackObject U]"

definition isObjectType :: "'m ace_abi_scheme \<Rightarrow> u8 \<Rightarrow> bool" where
  "isObjectType U t \<longleftrightarrow> t \<in> set
     [AceAccessAllowedObject U, AceAccessDeniedObject U, AceSystemAuditObject U, AceSystemAlarmObject U]"

section \<open>ACE flags\<close>

definition aceFlagText :: "'m ace_abi_scheme \<Rightarrow> (u8 \<times> string) list" where
  "aceFlagText U =
    [(FlagContainerInherit U, ''CI''), (FlagObjectInherit U, ''OI''),
     (FlagNoPropagateInherit U, ''NP''), (FlagInheritOnly U, ''IO''), (FlagInherited U, ''ID''),
     (FlagSuccessfulAccess U, ''SA''), (FlagFailedAccess U, ''FA'')]"

definition aceFlagByCode :: "'m ace_abi_scheme \<Rightarrow> string \<rightharpoonup> u8" where
  "aceFlagByCode U = foldl (\<lambda>m (b, code). m(code \<mapsto> b)) Map.empty (aceFlagText U)"

definition knownAceFlags :: "'m ace_abi_scheme \<Rightarrow> u8" where
  "knownAceFlags U = foldl (\<lambda>k (b, _). k OR b) 0 (aceFlagText U)"

fun flag_run :: "'m ace_abi_scheme \<Rightarrow> u8 \<Rightarrow> string \<Rightarrow> u8 result" where
  "flag_run U f [] = Inr f"
| "flag_run U f [c] = Inl Panic"
| "flag_run U f (c1 # c2 # cs) =
     (case aceFlagByCode U [c1, c2] of
        None \<Rightarrow> Inl (Errorf ''unknown ACE flag'')
      | Some b \<Rightarrow> flag_run U (f OR b) cs)"

definition textToAceFlags :: "'m ace_abi_scheme \<Rightarrow> string \<Rightarrow> u8 result" where
  "textToAceFlags U s =
     (if length s mod 2 \<noteq> 0 then Inl (Errorf ''malformed ACE flags'') else flag_run U 0 s)"

definition aceFlagsToText :: "'m ace_abi_scheme \<Rightarrow> u8 \<Rightarrow> string" where
  "aceFlagsToText U f = concat (map snd (filter (\<lambda>(b, _). f AND b \<noteq> 0) (aceFlagText U)))"

section \<open>GUIDs\<close>

definition hex_digit :: "char \<Rightarrow> nat option" where
  "hex_digit c = (case digit_val c of None \<Rightarrow> None | Some d \<Rightarrow> if d < 16 then Some d else None)"

fun hex_DecodeString :: "string \<Rightarrow> bytes option" where
  "hex_DecodeString [] = Some []"
| "hex_DecodeString [c] = None"
| "hex_DecodeString (a # b # cs) =
     (case (hex_digit a, hex_digit b) of
        (Some x, Some y) \<Rightarrow> map_option ((#) (of_nat (16 * x + y))) (hex_DecodeString cs)
      | _ \<Rightarrow> None)"

definition hex_EncodeToString :: "bytes \<Rightarrow> string" where
  "hex_EncodeToString bs =
     concat (map (\<lambda>b. [digit_char (unat b div 16), digit_char (unat b mod 16)]) bs)"

text \<open>The 16 bytes between display order and wire order; the permutation is its own inverse.\<close>

definition guid_swap :: "bytes \<Rightarrow> bytes" where
  "guid_swap g = [g ! 3, g ! 2, g ! 1, g ! 0, g ! 5, g ! 4, g ! 7, g ! 6] @ take 8 (drop 8 g)"

definition parseGUID :: "string \<Rightarrow> GUID result" where
  "parseGUID s =
     (if length s \<noteq> 36 \<or> s ! 8 \<noteq> CHR ''-'' \<or> s ! 13 \<noteq> CHR ''-'' \<or> s ! 18 \<noteq> CHR ''-'' \<or> s ! 23 \<noteq> CHR ''-''
      then Inl (Errorf ''malformed GUID'')
      else case hex_DecodeString (take 8 s @ take 4 (drop 9 s) @ take 4 (drop 14 s)
                 @ take 4 (drop 19 s) @ take 12 (drop 24 s)) of
             None \<Rightarrow> Inl (Errorf ''malformed GUID'')
           | Some bs \<Rightarrow> Inr (guid_swap bs))"

definition formatGUID :: "GUID \<Rightarrow> string" where
  "formatGUID g =
     (let h = hex_EncodeToString (guid_swap g) in
      take 8 h @ ''-'' @ take 4 (drop 8 h) @ ''-'' @ take 4 (drop 12 h) @ ''-'' @ take 4 (drop 16 h)
      @ ''-'' @ take 12 (drop 20 h))"

section \<open>Reverse tables\<close>

lemma keep_least_in: "keep_least m p k = Some n \<Longrightarrow> m k = Some n \<or> p = (n, k)"
  by (cases p) (auto simp: keep_least_def split: option.splits if_splits)

lemma least_name_in: "least_name tbl k = Some n \<Longrightarrow> (n, k) \<in> set tbl"
proof -
  have "foldl keep_least m tbl k = Some n \<Longrightarrow> m k = Some n \<or> (n, k) \<in> set tbl" for m
    by (induction tbl arbitrary: m) (auto dest!: keep_least_in)
  then show "least_name tbl k = Some n \<Longrightarrow> (n, k) \<in> set tbl" by (fastforce simp: least_name_def)
qed

lemma least_name_ex: "(n, k) \<in> set tbl \<Longrightarrow> \<exists>n'. least_name tbl k = Some n'"
proof -
  have keep: "m k \<noteq> None \<Longrightarrow> foldl keep_least m tbl k \<noteq> None" for m tbl
    by (induction tbl arbitrary: m) (auto simp: keep_least_def split: option.splits)
  have "(n, k) \<in> set tbl \<Longrightarrow> foldl keep_least m tbl k \<noteq> None" for m
  proof (induction tbl arbitrary: m)
    case (Cons p tbl)
    show ?case
    proof (cases "p = (n, k)")
      case True
      then have "keep_least m p k \<noteq> None" by (simp add: keep_least_def split: option.split)
      then show ?thesis using keep [of "keep_least m p" tbl] by simp
    next
      case False
      then show ?thesis using Cons by simp
    qed
  qed simp
  then show "(n, k) \<in> set tbl \<Longrightarrow> \<exists>n'. least_name tbl k = Some n'" by (simp add: least_name_def)
qed

section \<open>Aliases and SIDs\<close>

lemma sidAliases_names:
  "distinct (map fst sidAliases)"
  "list_all (\<lambda>n. length n = 2 \<and> \<not> has_prefix n ''S-'') (map fst sidAliases)"
  unfolding sidAliases_def list.map fst_conv by code_simp+

lemma alias_facts:
  assumes "(n, e) \<in> set sidAliases"
  shows "map_of sidAliases n = Some e" and "\<not> has_prefix n ''S-''" and "length n = 2"
proof -
  show "map_of sidAliases n = Some e" using assms sidAliases_names(1) by simp
  have "n \<in> set (map fst sidAliases)" using assms by force
  then show "\<not> has_prefix n ''S-''" "length n = 2"
    using sidAliases_names(2) unfolding list_all_iff by blast+
qed

lemma absAliasBySID_sound:
  assumes "absAliasBySID s = Some n"
  obtains e where "(n, e) \<in> set sidAliases" "ae_kind e = aliasAbsolute" "ae_sid e = s"
  using least_name_in [OF assms [unfolded absAliasBySID_def]] by auto

lemma relativeAlias_sound:
  assumes "relativeAlias base s kd = Some n"
  obtains e where "(n, e) \<in> set sidAliases" "ae_kind e = kd" "Child base (ae_rid e) = Inr s"
proof -
  from assms obtain e where
    "find (\<lambda>(name, e). ae_kind e = kd \<and> Child base (ae_rid e) = Inr s) sidAliases = Some (n, e)"
    by (auto simp: relativeAlias_def)
  then obtain i where "i < length sidAliases" "sidAliases ! i = (n, e)" "ae_kind e = kd"
      "Child base (ae_rid e) = Inr s"
    by (auto simp: find_Some_iff)
  then show ?thesis using that [of e] nth_mem [of i sidAliases] by simp
qed

lemma SID_String_prefix: "valid_sid s \<Longrightarrow> has_prefix (SID_String s) ''S-''"
  by (auto simp: has_prefix_def SID_String_def dest: valid_sid_IsValid)

lemma parseSIDText_formatSID:
  assumes "valid_sid s"
  shows "parseSIDText opt (formatSID opt s) = Inr s"
proof (cases "absAliasBySID s")
  case (Some n)
  then show ?thesis
    by (auto simp: formatSID_def parseSIDText_def resolveAlias_def alias_facts elim!: absAliasBySID_sound)
next
  case None
  consider (dom) n where "IsValid (o_domain opt)" "relativeAlias (o_domain opt) s aliasDomain = Some n"
      "formatSID opt s = n"
    | (mac) n where "IsValid (o_machine opt)" "relativeAlias (o_machine opt) s aliasMachine = Some n"
      "formatSID opt s = n"
    | (raw) "formatSID opt s = SID_String s"
    using None unfolding formatSID_def
    by (cases "IsValid (o_domain opt)"; cases "relativeAlias (o_domain opt) s aliasDomain";
        cases "IsValid (o_machine opt)"; cases "relativeAlias (o_machine opt) s aliasMachine") auto
  then show ?thesis
  proof cases
    case dom
    then show ?thesis
      by (auto simp: parseSIDText_def resolveAlias_def alias_facts elim!: relativeAlias_sound)
  next
    case mac
    then show ?thesis
      by (auto simp: parseSIDText_def resolveAlias_def alias_facts elim!: relativeAlias_sound)
  next
    case raw
    then show ?thesis
      using SID_String_prefix [OF assms] sid_text.ps_pr [OF assms] by (simp add: parseSIDText_def)
  qed
qed

interpretation sddl_sid: text_codec "formatSID opt" "parseSIDText opt" valid_sid for opt
  by unfold_locales (rule parseSIDText_formatSID)

text \<open>
  SIDs round-trip through SDDL text in every resolution context: what \<open>formatSID\<close> writes,
  an absolute alias, a domain- or machine-relative one, or the literal form, is read back
  as the same SID by \<open>parseSIDText\<close> with the same options, and no two SIDs share a text.\<close>

theorem formatSID_roundtrip:
  assumes "valid_sid s"
  shows "parseSIDText opt (formatSID opt s) = Inr s \<and>
    (valid_sid t \<and> formatSID opt s = formatSID opt t \<longrightarrow> s = t)"
  using parseSIDText_formatSID [OF assms] sddl_sid.pr_inj [of s t opt] assms by blast

theorem formatSID_roundtrip_witness:
  "valid_sid (wk_SID BuiltinUsers) \<and>
   parseSIDText \<lparr>o_domain = zero_SID, o_machine = zero_SID\<rparr>
     (formatSID \<lparr>o_domain = zero_SID, o_machine = zero_SID\<rparr> (wk_SID BuiltinUsers))
     = Inr (wk_SID BuiltinUsers)"
  using formatSID_roundtrip [OF wk_SID_valid] wk_SID_valid by blast

text \<open>At most one row of the table resolves to a given SID, so the order in which
  \<open>relativeAlias\<close> visits the map is irrelevant.\<close>

lemma Child_inj:
  assumes "sid_inv b" and "Child b r1 = Inr s" and "Child b r2 = Inr s"
  shows "r1 = r2"
proof -
  have n: "NewSID (authority b) (subs b @ [r]) = Inr s \<and> length (subs b) < 15" if "Child b r = Inr s" for r
    using that assms(1) by (auto simp: Child_eq split: if_splits)
  from n [OF assms(2)] n [OF assms(3)] show ?thesis by (auto dest!: NewSID_subs)
qed

lemma relative_rids:
  "distinct (map (\<lambda>p. ae_rid (snd p)) (filter (\<lambda>p. ae_kind (snd p) = aliasDomain) sidAliases))"
  "distinct (map (\<lambda>p. ae_rid (snd p)) (filter (\<lambda>p. ae_kind (snd p) = aliasMachine) sidAliases))"
  unfolding sidAliases_def by (simp_all add: absAlias_def domAlias_def macAlias_def)

lemma relativeAlias_unique:
  assumes "sid_inv base" and "kd \<noteq> aliasAbsolute"
    and "p \<in> set sidAliases" "ae_kind (snd p) = kd" "Child base (ae_rid (snd p)) = Inr s"
    and "q \<in> set sidAliases" "ae_kind (snd q) = kd" "Child base (ae_rid (snd q)) = Inr s"
  shows "p = q"
proof -
  have r: "ae_rid (snd p) = ae_rid (snd q)" by (rule Child_inj [OF assms(1,5,8)])
  have "distinct (map (\<lambda>p. ae_rid (snd p)) (filter (\<lambda>p. ae_kind (snd p) = kd) sidAliases))"
    using assms(2) relative_rids by (cases kd) simp_all
  then have "inj_on (\<lambda>p. ae_rid (snd p)) (set (filter (\<lambda>p. ae_kind (snd p) = kd) sidAliases))"
    by (simp only: distinct_map)
  then show ?thesis by (rule inj_onD) (use r assms in auto)
qed

section \<open>Masks\<close>

lemma parseMask_formatMask: "parseMask R (formatMask m) = Inr m"
proof (cases "m = 0")
  case False
  have u: "unat m < 2 ^ 32" using unsigned_less [of m] by simp
  have h: "hasHexPrefix (''0x'' @ FormatUint (unat m) 16)"
    by (auto simp: hasHexPrefix_def neq_Nil_conv intro: FormatUint_nonempty)
  have "parseHexMask (''0x'' @ FormatUint (unat m) 16) = Inr m"
    using ParseUint_FormatUint [OF _ _ u, of 16] by (simp add: parseHexMask_def)
  with False h show ?thesis by (simp add: parseMask_def formatMask_def)
qed (simp add: parseMask_def formatMask_def)

text \<open>
  Access masks round-trip exactly: the hexadecimal text \<open>formatMask\<close> writes, the empty field
  for mask zero included, is read back as the same 32-bit mask, whatever the values of the
  mnemonic table.\<close>

theorem formatMask_roundtrip: "parseMask R (formatMask m) = Inr m"
  by (rule parseMask_formatMask)

lemma mnemonic_run_append:
  "list_all (\<lambda>c. \<exists>v. map_of (rightsMnemonics R) c = Some v \<and> length c = 2) cs \<Longrightarrow>
   mnemonic_run R m (concat cs @ t)
     = mnemonic_run R (foldl (\<lambda>m c. m OR the (map_of (rightsMnemonics R) c)) m cs) t"
proof (induction cs arbitrary: m)
  case (Cons c cs)
  then obtain v a b where v: "map_of (rightsMnemonics R) c = Some v" and c: "c = [a, b]"
    by (auto simp: length_Suc_conv numeral_2_eq_2)
  have "c \<noteq> ''0x''" "c \<noteq> ''0X''" using v by (auto simp: rightsMnemonics_def)
  then have "\<not> hasHexPrefix (a # b # concat cs @ t)" by (simp add: hasHexPrefix_def c)
  with Cons v c show ?case by simp
qed simp

text \<open>
  A run of rights mnemonics closed by an optional hexadecimal literal denotes the union of
  the rights it names, so that the mixed form and the plain one agree.\<close>

theorem parseMask_mnemonics:
  assumes "cs \<noteq> []" and "list_all (\<lambda>c. \<exists>v. map_of (rightsMnemonics R) c = Some v \<and> length c = 2) cs"
  shows "parseMask R (concat cs @ formatMask m)
    = Inr (foldl (\<lambda>m c. m OR the (map_of (rightsMnemonics R) c)) 0 cs OR m)"
proof -
  let ?f = "concat cs @ formatMask m" and ?m = "foldl (\<lambda>m c. m OR the (map_of (rightsMnemonics R) c)) 0 cs"
  obtain c cs' a b v where cs: "cs = c # cs'" "c = [a, b]" "map_of (rightsMnemonics R) c = Some v"
    using assms by (cases cs) (auto simp: length_Suc_conv numeral_2_eq_2)
  have "\<not> is_dec a" "c \<noteq> ''0x''" "c \<noteq> ''0X''"
    using cs(2,3) by (auto simp: rightsMnemonics_def is_dec_def split: if_splits)
  then have nh: "\<not> hasHexPrefix ?f" "\<not> isAllDigits ?f" "?f \<noteq> []"
    using cs(1,2) by (auto simp: hasHexPrefix_def isAllDigits_def)
  have "mnemonic_run R ?m (formatMask m) = Inr (?m OR m)"
  proof (cases "m = 0")
    case False
    obtain d ds where d: "FormatUint (unat m) 16 = d # ds" by (metis FormatUint_nonempty neq_Nil_conv)
    have u: "unat m < 2 ^ 32" using unsigned_less [of m] by simp
    show ?thesis
      using False ParseUint_FormatUint [OF _ _ u, of 16]
      by (simp add: formatMask_def hasHexPrefix_def parseHexMask_def d)
  qed (simp add: formatMask_def)
  then show ?thesis
    unfolding parseMask_def using nh mnemonic_run_append [OF assms(2), of 0 "formatMask m"]
    by (simp only: if_False)
qed

definition sample_rights :: rights_abi where
  "sample_rights = \<lparr>ACCESS_DELETE = 0x10000, ACCESS_READ_CONTROL = 0x20000, ACCESS_WRITE_DAC = 0x40000,
     ACCESS_WRITE_OWNER = 0x80000, ACCESS_SYNCHRONIZE = 0x100000, ACCESS_GENERIC_ALL = 0x10000000,
     ACCESS_GENERIC_READ = 0x80000000, ACCESS_GENERIC_WRITE = 0x40000000,
     ACCESS_GENERIC_EXECUTE = 0x20000000, FILE_READ_DATA = 1, FILE_WRITE_DATA = 2,
     FILE_APPEND_DATA = 4, FILE_READ_EA = 8, FILE_WRITE_EA = 16, FILE_EXECUTE = 32,
     FILE_DELETE_CHILD = 64, FILE_READ_ATTRIBUTES = 128, FILE_WRITE_ATTRIBUTES = 256\<rparr>"

theorem parseMask_mnemonics_witness:
  "parseMask sample_rights (concat [''RC'', ''SD''] @ formatMask 6) = Inr 0x30006"
  using parseMask_mnemonics [of "[''RC'', ''SD'']" sample_rights 6]
  by (simp add: rightsMnemonics_def sample_rights_def)

section \<open>Types and flags\<close>

lemma aceTypeTags_distinct: "distinct (map fst (aceTypeTags U))"
  by (simp add: aceTypeTags_def)

lemma aceTagByType_sound: "aceTagByType U t = Some tag \<Longrightarrow> map_of (aceTypeTags U) tag = Some t"
  using aceTypeTags_distinct [of U] by (auto simp: aceTagByType_def dest!: least_name_in)

lemma aceTagByType_ex: "aceTypeSupported U t \<Longrightarrow> \<exists>tag. aceTagByType U t = Some tag"
proof -
  assume "aceTypeSupported U t"
  then have "t \<in> set (map snd (aceTypeTags U))" by (auto simp: aceTypeSupported_def aceTypeTags_def)
  then obtain tag where "(tag, t) \<in> set (aceTypeTags U)" by auto
  then show ?thesis unfolding aceTagByType_def by (rule least_name_ex)
qed

definition single_bits :: "u8 list \<Rightarrow> bool" where
  "single_bits bs \<longleftrightarrow> list_all (\<lambda>b. b \<in> set (map (\<lambda>n. push_bit n 1) [0..<8])) bs"

lemma single_bit_and:
  assumes "single_bits [b]" and "f AND b \<noteq> 0"
  shows "f AND b = (b :: u8)"
proof -
  obtain n where b: "b = push_bit n 1" using assms(1) by (auto simp: single_bits_def)
  have "f AND push_bit n 1 = (if bit f n then push_bit n 1 else 0)"
    by (rule bit_word_eqI) (auto simp: bit_simps bit_1_iff)
  with assms(2) b show ?thesis by (auto split: if_splits)
qed

lemma aceFlagByCode_row:
  "(b, code) \<in> set (aceFlagText U) \<Longrightarrow> aceFlagByCode U code = Some b \<and> length code = 2"
  by (auto simp: aceFlagByCode_def aceFlagText_def)

lemma flag_run_rows:
  "set rows \<subseteq> set (aceFlagText U) \<Longrightarrow>
   flag_run U f (concat (map snd rows)) = Inr (foldl (\<lambda>k (b, _). k OR b) f rows)
   \<and> even (length (concat (map snd rows)))"
proof (induction rows arbitrary: f)
  case (Cons r rows)
  obtain b code where r: "r = (b, code)" by (cases r)
  with Cons.prems have c: "aceFlagByCode U code = Some b" "length code = 2"
    using aceFlagByCode_row [of b code U] by auto
  then obtain x y where "code = [x, y]" by (auto simp: length_Suc_conv numeral_2_eq_2)
  with Cons c r show ?case by simp
qed simp

lemma foldl_or: "foldl (\<lambda>k (b, _). k OR b) f rows = f OR foldl (\<lambda>k (b, _). k OR b) (0 :: u8) rows"
  by (induction rows rule: rev_induct) (auto simp: or.assoc split: prod.split)

text \<open>The union of the flags that are set is what the known flags select.\<close>

lemma foldl_set_flags:
  "single_bits (map fst rows) \<Longrightarrow>
   foldl (\<lambda>k (b, _). k OR b) 0 (filter (\<lambda>(b, _). f AND b \<noteq> 0) rows)
     = f AND foldl (\<lambda>k (b, _). k OR b) 0 rows"
proof (induction rows)
  case (Cons r rows)
  obtain b code where r: "r = (b, code)" by (cases r)
  have "single_bits [b]" "single_bits (map fst rows)"
    using Cons.prems by (simp_all add: r single_bits_def)
  then show ?case
    using Cons.IH single_bit_and [of b f]
    by (auto simp: r foldl_or [of b] bit.conj_disj_distrib)
qed simp

lemma textToAceFlags_roundtrip:
  assumes "single_bits (flag_bits U)" and "bit_clear f (knownAceFlags U) = 0"
  shows "textToAceFlags U (aceFlagsToText U f) = Inr f"
proof -
  let ?rows = "filter (\<lambda>(b, _). f AND b \<noteq> 0) (aceFlagText U)"
  have "single_bits (map fst (aceFlagText U))"
    using assms(1) by (simp add: single_bits_def flag_bits_def aceFlagText_def)
  then have "foldl (\<lambda>k (b, _). k OR b) 0 ?rows = f AND knownAceFlags U"
    unfolding knownAceFlags_def by (rule foldl_set_flags)
  also have "\<dots> = f"
    using assms(2) unfolding bit_clear_def
    by (metis (no_types, lifting) bit.conj_cancel_right bit.conj_disj_distrib bit.disj_cancel_right
        and.right_neutral or.right_neutral)
  finally have u: "foldl (\<lambda>k (b, _). k OR b) 0 ?rows = f" .
  have "flag_run U 0 (aceFlagsToText U f) = Inr f \<and> even (length (aceFlagsToText U f))"
    using flag_run_rows [of ?rows U 0] u by (simp add: aceFlagsToText_def)
  then show ?thesis by (simp add: textToAceFlags_def even_iff_mod_2_eq_zero)
qed

text \<open>
  ACE flags round-trip through their two-letter codes: for flags the table knows, reading
  back the text gives the same flags. Flags outside the table have no text, which is why
  the printer of ACEs refuses them.\<close>

theorem aceFlags_roundtrip:
  assumes "single_bits (flag_bits U)" and "bit_clear f (knownAceFlags U) = 0"
  shows "textToAceFlags U (aceFlagsToText U f) = Inr f"
  using assms by (rule textToAceFlags_roundtrip)

lemma ms_single_bits: "single_bits (flag_bits ms_dtyp)"
  by code_simp

theorem aceFlags_roundtrip_witness:
  "single_bits (flag_bits ms_dtyp) \<and> bit_clear 0x13 (knownAceFlags ms_dtyp) = 0 \<and>
   textToAceFlags ms_dtyp (aceFlagsToText ms_dtyp 0x13) = Inr 0x13"
proof -
  have k: "bit_clear 0x13 (knownAceFlags ms_dtyp) = 0" by code_simp
  show ?thesis using aceFlags_roundtrip [OF ms_single_bits k] ms_single_bits k by simp
qed

section \<open>GUIDs\<close>

lemma hex_digit_char: "d < 16 \<Longrightarrow> hex_digit (digit_char d) = Some d"
  by (simp add: hex_digit_def digit_val_char)

lemma hex_Decode_Encode: "hex_DecodeString (hex_EncodeToString bs) = Some bs"
proof (induction bs)
  case (Cons b bs)
  have "unat b < 256" using unsigned_less [of b] by simp
  then have "unat b div 16 < 16" "(of_nat (16 * (unat b div 16) + unat b mod 16) :: u8) = b"
    by (auto simp del: of_nat_add of_nat_mult)
  with Cons show ?case
    by (simp add: hex_EncodeToString_def hex_digit_char del: of_nat_add of_nat_mult)
qed (simp add: hex_EncodeToString_def)

lemma length_hex_Encode [simp]: "length (hex_EncodeToString bs) = 2 * length bs"
  by (induction bs) (simp_all add: hex_EncodeToString_def)

lemma length_hex_Decode: "hex_DecodeString s = Some bs \<Longrightarrow> length s = 2 * length bs"
  by (induction s arbitrary: bs rule: hex_DecodeString.induct)
     (auto split: option.splits prod.splits)

lemma list16:
  assumes "length g = 16"
  obtains a0 a1 a2 a3 a4 a5 a6 a7 a8 a9 a10 a11 a12 a13 a14 a15 where
    "g = [a0, a1, a2, a3, a4, a5, a6, a7, a8, a9, a10, a11, a12, a13, a14, a15]"
  using assms by (auto simp: length_Suc_conv eval_nat_numeral)

lemma guid_swap_swap: "length g = 16 \<Longrightarrow> guid_swap (guid_swap g) = g"
  by (erule list16) (simp add: guid_swap_def)

lemma length_guid_swap: "length g = 16 \<Longrightarrow> length (guid_swap g) = 16"
  by (erule list16) (simp add: guid_swap_def)

lemma split_lengths:
  assumes "length (h :: 'a list) = 32"
  obtains a b c d e where "h = a @ b @ c @ d @ e" "length a = 8" "length b = 4" "length c = 4"
    "length d = 4" "length e = 12"
proof -
  have "h = take 8 h @ drop 8 h" "drop 8 h = take 4 (drop 8 h) @ drop 12 h"
    "drop 12 h = take 4 (drop 12 h) @ drop 16 h" "drop 16 h = take 4 (drop 16 h) @ drop 20 h"
    using append_take_drop_id [of 4 "drop 8 h"] append_take_drop_id [of 4 "drop 12 h"]
      append_take_drop_id [of 4 "drop 16 h"] by simp_all
  then have "h = take 8 h @ take 4 (drop 8 h) @ take 4 (drop 12 h) @ take 4 (drop 16 h) @ drop 20 h"
    by metis
  then show ?thesis by (rule that) (use assms in simp_all)
qed

lemma parseGUID_formatGUID:
  assumes "length g = 16"
  shows "parseGUID (formatGUID g) = Inr g"
proof -
  define h where "h = hex_EncodeToString (guid_swap g)"
  have "length h = 32" by (simp add: h_def length_guid_swap [OF assms])
  then obtain a b c d e where h: "h = a @ b @ c @ d @ e"
    and l: "length a = 8" "length b = 4" "length c = 4" "length d = 4" "length e = 12"
    by (rule split_lengths)
  have f: "formatGUID g = a @ ''-'' @ b @ ''-'' @ c @ ''-'' @ d @ ''-'' @ e"
    using l by (simp add: formatGUID_def h_def [symmetric] h Let_def)
  have "hex_DecodeString (a @ b @ c @ d @ e) = Some (guid_swap g)"
    using hex_Decode_Encode [of "guid_swap g"] by (simp add: h_def [symmetric] h)
  then show ?thesis
    using l by (simp add: f parseGUID_def nth_append guid_swap_swap [OF assms])
qed

lemma parseGUID_length: "parseGUID s = Inr g \<Longrightarrow> length g = 16"
  by (auto simp: parseGUID_def guid_swap_def split: if_splits option.splits dest!: length_hex_Decode)

text \<open>
  GUIDs round-trip: \<open>parseGUID\<close> reads back what \<open>formatGUID\<close> writes, undoing the byte
  swaps of the first three groups, and every text it accepts gives 16 bytes.\<close>

theorem GUID_roundtrip:
  assumes "length g = 16"
  shows "parseGUID (formatGUID g) = Inr g"
  using assms by (rule parseGUID_formatGUID)

theorem GUID_roundtrip_witness:
  "length (map of_nat [0..<16] :: bytes) = 16 \<and>
   parseGUID (formatGUID (map of_nat [0..<16])) = Inr (map of_nat [0..<16])"
  using GUID_roundtrip [of "map of_nat [0..<16]"] by simp

end
