(* ===== verification/SddlCond.thy ===== *)
theory SddlCond
  imports SddlTables Condition
begin

text \<open>
  \<^verbatim>\<open>sddl/condition.go\<close> and \<^verbatim>\<open>sddl/decompile.go\<close>: the text of conditional expressions. The
  lexer and the recursive-descent parser compile text to the token bytes of
  \<^verbatim>\<open>Condition\<close>; the decompiler walks the postfix bytes with a stack of texts.

  The lexer works on the rest of the input and its offset. The parser works on the rest of
  the token slice, whose last token is always the end token: \<open>peek\<close> is its head and \<open>next\<close>
  drops the head unless it is the last. Its mutual recursion takes fuel; \<open>None\<close> is running
  out, and \<open>parseConditionText\<close> passes an amount that always suffices.
\<close>

section \<open>Operator vocabulary\<close>

definition relSymbols :: "(string \<times> CompareOp) list" where
  "relSymbols = [(''=='', OpEqual), (''!='', OpNotEqual), (''<'', OpLess), (''<='', OpLessEqual),
     (''>'', OpGreater), (''>='', OpGreaterEqual)]"

definition relKeywords :: "(string \<times> CompareOp) list" where
  "relKeywords = [(''Contains'', OpContains), (''Any_of'', OpAnyOf),
     (''Not_Contains'', OpNotContains), (''Not_Any_of'', OpNotAnyOf)]"

definition memberOps :: "(string \<times> MemberOp) list" where
  "memberOps = [(''Member_of'', OpMemberOf), (''Device_Member_of'', OpDeviceMemberOf),
     (''Member_of_Any'', OpMemberOfAny), (''Device_Member_of_Any'', OpDeviceMemberOfAny),
     (''Not_Member_of'', OpNotMemberOf), (''Not_Device_Member_of'', OpNotDeviceMemberOf),
     (''Not_Member_of_Any'', OpNotMemberOfAny), (''Not_Device_Member_of_Any'', OpNotDeviceMemberOfAny)]"

section \<open>Lexer\<close>

datatype ctokKind = ctEOF | ctLParen | ctRParen | ctLBrace | ctRBrace | ctComma | ctAndAnd | ctOrOr
  | ctBang | ctRel | ctIdent | ctAttr | ctInt | ctString | ctSID | ctOctet

record lextok =
  lk :: ctokKind
  lpos :: nat
  ltext :: string

abbreviation Tok :: "ctokKind \<Rightarrow> nat \<Rightarrow> string \<Rightarrow> lextok" where
  "Tok k i t \<equiv> \<lparr>lk = k, lpos = i, ltext = t\<rparr>"

definition in_range :: "char \<Rightarrow> char \<Rightarrow> char \<Rightarrow> bool" where
  "in_range lo hi c \<longleftrightarrow> (of_char lo :: nat) \<le> of_char c \<and> (of_char c :: nat) \<le> of_char hi"

definition isIdentStart :: "char \<Rightarrow> bool" where
  "isIdentStart c \<longleftrightarrow> in_range CHR ''A'' CHR ''Z'' c \<or> in_range CHR ''a'' CHR ''z'' c \<or> c = CHR ''_''"

definition isIdentChar :: "char \<Rightarrow> bool" where
  "isIdentChar c \<longleftrightarrow> isIdentStart c \<or> in_range CHR ''0'' CHR ''9'' c"

definition isHexDigit :: "char \<Rightarrow> bool" where
  "isHexDigit c \<longleftrightarrow> in_range CHR ''0'' CHR ''9'' c \<or> in_range CHR ''a'' CHR ''f'' c
     \<or> in_range CHR ''A'' CHR ''F'' c"

definition isNumChar :: "char \<Rightarrow> bool" where
  "isNumChar c \<longleftrightarrow> isHexDigit c \<or> c = CHR ''x'' \<or> c = CHR ''X''"

abbreviation quote :: char where "quote \<equiv> CHR 0x22"

definition is_space :: "char \<Rightarrow> bool" where
  "is_space c \<longleftrightarrow> c = CHR '' '' \<or> c = CHR 0x09 \<or> c = CHR 0x0A \<or> c = CHR 0x0D"

text \<open>One turn of the loop at character \<open>c\<close> with \<open>cs\<close> behind it: the token (\<open>None\<close> for white
  space), the number of bytes consumed, and the rest.\<close>

definition lex_word :: "char \<Rightarrow> string \<Rightarrow> ((ctokKind \<times> string) option \<times> nat \<times> string) result" where
  "lex_word c cs =
     (let w = c # takeWhile isIdentChar cs; r = dropWhile isIdentChar cs in
      if w = ''SID'' \<and> r \<noteq> [] \<and> hd r = CHR ''('' then
        (let s = takeWhile (\<lambda>d. d \<noteq> CHR '')'') (tl r); q = dropWhile (\<lambda>d. d \<noteq> CHR '')'') (tl r) in
         if q = [] then Inl (Errorf ''unterminated SID(...)'')
         else Inr (Some (ctSID, s), length w + length s + 2, tl q))
      else Inr (Some (ctIdent, w), length w, r))"

definition lex_one :: "char \<Rightarrow> string \<Rightarrow> ((ctokKind \<times> string) option \<times> nat \<times> string) result" where
  "lex_one c cs =
     (let next_is = (\<lambda>d. cs \<noteq> [] \<and> hd cs = d);
          one = (\<lambda>k. Inr (Some (k, [c]), 1, cs));
          two = (\<lambda>k d. Inr (Some (k, [c, d]), 2, tl cs))
      in
      if is_space c then Inr (None, 1, cs)
      else if c = CHR ''('' then one ctLParen
      else if c = CHR '')'' then one ctRParen
      else if c = CHR ''{'' then one ctLBrace
      else if c = CHR ''}'' then one ctRBrace
      else if c = CHR '','' then one ctComma
      else if c = CHR ''&'' then
        (if \<not> next_is CHR ''&'' then Inl (Errorf ''expected &&'') else two ctAndAnd CHR ''&'')
      else if c = CHR ''|'' then
        (if \<not> next_is CHR ''|'' then Inl (Errorf ''expected ||'') else two ctOrOr CHR ''|'')
      else if c = CHR ''!'' then
        (if next_is CHR ''='' then two ctRel CHR ''='' else one ctBang)
      else if c = CHR ''='' then
        (if \<not> next_is CHR ''='' then Inl (Errorf ''expected =='') else two ctRel CHR ''='')
      else if c = CHR ''<'' \<or> c = CHR ''>'' then
        (if next_is CHR ''='' then two ctRel CHR ''='' else one ctRel)
      else if c = quote then
        (let w = takeWhile (\<lambda>d. d \<noteq> quote) cs; r = dropWhile (\<lambda>d. d \<noteq> quote) cs in
         if r = [] then Inl (Errorf ''unterminated string literal'')
         else Inr (Some (ctString, w), length w + 2, tl r))
      else if c = CHR ''#'' then
        (let w = takeWhile isHexDigit cs in
         Inr (Some (ctOctet, w), length w + 1, dropWhile isHexDigit cs))
      else if c = CHR ''@'' then
        (let w = takeWhile (\<lambda>d. isIdentChar d \<or> d = CHR ''.'') cs in
         Inr (Some (ctAttr, c # w), length w + 1, dropWhile (\<lambda>d. isIdentChar d \<or> d = CHR ''.'') cs))
      else if c = CHR ''-'' \<or> in_range CHR ''0'' CHR ''9'' c then
        (let w = takeWhile isNumChar cs in
         Inr (Some (ctInt, c # w), length w + 1, dropWhile isNumChar cs))
      else if isIdentStart c then lex_word c cs
      else Inl (Errorf ''unexpected character''))"

lemma length_tl_dropWhile: "length (tl (dropWhile P xs)) \<le> length xs"
  using length_dropWhile_le [of P xs] by simp

text \<open>A turn of the loop leaves no more than it found and makes no end token.\<close>

definition shrinks :: "string \<Rightarrow> ((ctokKind \<times> string) option \<times> nat \<times> string) result \<Rightarrow> bool" where
  "shrinks cs r \<longleftrightarrow> (case r of Inl e \<Rightarrow> True
     | Inr (t, n, rest) \<Rightarrow> length rest \<le> length cs \<and> map_option fst t \<noteq> Some ctEOF)"

lemma shrinks_intros:
  "(b \<Longrightarrow> shrinks cs x) \<Longrightarrow> (\<not> b \<Longrightarrow> shrinks cs y) \<Longrightarrow> shrinks cs (if b then x else y)"
  "shrinks cs (Inl e)" "shrinks cs (Inr (None, n, cs))"
  "k \<noteq> ctEOF \<Longrightarrow> shrinks cs (Inr (Some (k, w), n, cs))"
  "k \<noteq> ctEOF \<Longrightarrow> shrinks cs (Inr (Some (k, w), n, tl cs))"
  "k \<noteq> ctEOF \<Longrightarrow> shrinks cs (Inr (Some (k, w), n, dropWhile P cs))"
  "k \<noteq> ctEOF \<Longrightarrow> shrinks cs (Inr (Some (k, w), n, tl (dropWhile P cs)))"
  using length_tl_dropWhile [of P cs]
  by (auto simp: shrinks_def length_dropWhile_le)

lemma lex_word_shrinks: "shrinks cs (lex_word c cs)"
  using length_tl_dropWhile [of "\<lambda>d. d \<noteq> CHR '')''" "tl (dropWhile isIdentChar cs)"]
    length_dropWhile_le [of isIdentChar cs]
  by (auto simp: lex_word_def Let_def shrinks_def)

lemma lex_one_shrinks: "shrinks cs (lex_one c cs)"
  unfolding lex_one_def Let_def by (intro shrinks_intros lex_word_shrinks; simp)

lemma lex_one_rest:
  assumes "lex_one c cs = Inr (t, n, rest)"
  shows "length rest \<le> length cs" and "map_option fst t \<noteq> Some ctEOF"
  using lex_one_shrinks [of cs c] assms by (simp_all add: shrinks_def)

function lex :: "nat \<Rightarrow> string \<Rightarrow> lextok list result" where
  "lex i [] = Inr [Tok ctEOF i []]"
| "lex i (c # cs) =
     (case lex_one c cs of
        Inl e \<Rightarrow> Inl e
      | Inr (None, n, rest) \<Rightarrow> lex (i + n) rest
      | Inr (Some (k, t), n, rest) \<Rightarrow> bindE (lex (i + n) rest) (\<lambda>ts. Inr (Tok k i t # ts)))"
  by pat_completeness auto
termination
  by (relation "measure (\<lambda>(i, s). length s)") (auto dest!: lex_one_rest(1) simp: le_imp_less_Suc)

definition lexCondition :: "string \<Rightarrow> lextok list result" where
  "lexCondition s = lex 0 s"

section \<open>Parser\<close>

text \<open>\<open>strconv.ParseInt(text, 0, 64)\<close> on texts without underscores.\<close>

definition uint_base0 :: "string \<Rightarrow> nat option" where
  "uint_base0 s =
     (if s = [] then None
      else if hd s = CHR ''0'' then
        (let p = (if length s \<ge> 3 then s ! 1 else CHR ''0'') in
         if p = CHR ''b'' \<or> p = CHR ''B'' then parse_digits 2 0 (drop 2 s)
         else if p = CHR ''o'' \<or> p = CHR ''O'' then parse_digits 8 0 (drop 2 s)
         else if p = CHR ''x'' \<or> p = CHR ''X'' then parse_digits 16 0 (drop 2 s)
         else parse_digits 8 0 (tl s))
      else parse_digits 10 0 s)"

definition ParseInt0 :: "string \<Rightarrow> u64 option" where
  "ParseInt0 s =
     (if s = [] then None
      else
        let neg = (hd s = CHR ''-'');
            digits = (if hd s = CHR ''+'' \<or> hd s = CHR ''-'' then tl s else s)
        in case uint_base0 digits of
             None \<Rightarrow> None
           | Some un \<Rightarrow>
               if \<not> neg \<and> un \<ge> 2 ^ 63 then None
               else if neg \<and> un > 2 ^ 63 then None
               else Some (word_of_int (if neg then - int un else int un)))"

type_synonym 'a pres = "'a result option"

definition bindP :: "'a pres \<Rightarrow> ('a \<Rightarrow> 'b pres) \<Rightarrow> 'b pres" where
  "bindP m f = (case m of None \<Rightarrow> None | Some (Inl e) \<Rightarrow> Some (Inl e) | Some (Inr x) \<Rightarrow> f x)"

abbreviation peek :: "lextok list \<Rightarrow> lextok" where "peek ts \<equiv> hd ts"

definition nxt :: "lextok list \<Rightarrow> lextok list" where
  "nxt ts = (if length ts > 1 then tl ts else ts)"

definition index_of :: "char \<Rightarrow> string \<Rightarrow> nat option" where
  "index_of c s = (let n = length (takeWhile (\<lambda>d. d \<noteq> c) s) in if n < length s then Some n else None)"

definition attrOperand :: "string \<Rightarrow> Operand result" where
  "attrOperand text =
     (case index_of CHR ''.'' text of
        None \<Rightarrow> Inl (Errorf ''attribute needs a Class.name form'')
      | Some dot \<Rightarrow>
          let class = take (dot - 1) (drop 1 text); name = drop (dot + 1) text in
          if name = [] then Inl (Errorf ''attribute has an empty name'')
          else if class = ''User'' then Inr (UserAttr name)
          else if class = ''Device'' then Inr (DeviceAttr name)
          else if class = ''Resource'' then Inr (ResourceAttr name)
          else Inl (Errorf ''unknown attribute class''))"

text \<open>An operand of one token.\<close>

definition simpleOperand :: "options \<Rightarrow> lextok \<Rightarrow> Operand result" where
  "simpleOperand opt t =
     (case lk t of
        ctInt \<Rightarrow> (case ParseInt0 (ltext t) of
                   None \<Rightarrow> Inl (Errorf ''malformed integer'') | Some n \<Rightarrow> Inr (IntOperand n))
      | ctString \<Rightarrow> Inr (StringOperand (ltext t))
      | ctOctet \<Rightarrow> (case hex_DecodeString (ltext t) of
                   None \<Rightarrow> Inl (Errorf ''malformed octet string'') | Some b \<Rightarrow> Inr (OctetOperand b))
      | ctSID \<Rightarrow> bindE (relabel (\<lambda>e. Errorf ''malformed SID'') (parseSIDText opt (ltext t)))
                   (\<lambda>sid. Inr (SIDOperand sid))
      | ctAttr \<Rightarrow> attrOperand (ltext t)
      | ctIdent \<Rightarrow> Inr (LocalAttr (ltext t))
      | _ \<Rightarrow> Inl (Errorf ''expected an operand''))"

fun parseOperand :: "options \<Rightarrow> nat \<Rightarrow> lextok list \<Rightarrow> (Operand \<times> lextok list) pres"
  and parseItems :: "options \<Rightarrow> nat \<Rightarrow> Operand list \<Rightarrow> lextok list \<Rightarrow> (Operand list \<times> lextok list) pres" where
  "parseOperand opt 0 ts = None"
| "parseOperand opt (Suc n) ts =
     (if lk (peek ts) = ctLBrace then
        bindP (parseItems opt n [] (nxt ts)) (\<lambda>(items, ts). Some (Inr (Composite items, nxt ts)))
      else Some (bindE (simpleOperand opt (peek ts)) (\<lambda>x. Inr (x, nxt ts))))"
| "parseItems opt 0 items ts = None"
| "parseItems opt (Suc n) items ts =
     (if lk (peek ts) = ctRBrace then Some (Inr (items, ts))
      else if lk (peek ts) = ctEOF then Some (Inl (Errorf ''unterminated {''))
      else bindP (parseOperand opt n ts) (\<lambda>(item, ts).
        if lk (peek ts) = ctComma then parseItems opt n (items @ [item]) (nxt ts)
        else if lk (peek ts) \<noteq> ctRBrace then Some (Inl (Errorf ''expected , or }''))
        else parseItems opt n (items @ [item]) ts))"

definition parseRelOp :: "lextok list \<Rightarrow> (CompareOp \<times> lextok list) result" where
  "parseRelOp ts =
     (let t = peek ts in
      case lk t of
        ctRel \<Rightarrow> (case map_of relSymbols (ltext t) of
                    None \<Rightarrow> Inl (Errorf ''unknown operator'') | Some op \<Rightarrow> Inr (op, nxt ts))
      | ctIdent \<Rightarrow> (case map_of relKeywords (ltext t) of
                    None \<Rightarrow> Inl (Errorf ''expected a relational operator'') | Some op \<Rightarrow> Inr (op, nxt ts))
      | _ \<Rightarrow> Inl (Errorf ''expected a relational operator''))"

fun parseOr :: "options \<Rightarrow> nat \<Rightarrow> lextok list \<Rightarrow> (Condition \<times> lextok list) pres"
  and parseOrLoop :: "options \<Rightarrow> nat \<Rightarrow> Condition \<Rightarrow> lextok list \<Rightarrow> (Condition \<times> lextok list) pres"
  and parseAnd :: "options \<Rightarrow> nat \<Rightarrow> lextok list \<Rightarrow> (Condition \<times> lextok list) pres"
  and parseAndLoop :: "options \<Rightarrow> nat \<Rightarrow> Condition \<Rightarrow> lextok list \<Rightarrow> (Condition \<times> lextok list) pres"
  and parseUnary :: "options \<Rightarrow> nat \<Rightarrow> lextok list \<Rightarrow> (Condition \<times> lextok list) pres"
  and parseTerm :: "options \<Rightarrow> nat \<Rightarrow> lextok list \<Rightarrow> (Condition \<times> lextok list) pres" where
  "parseOr opt 0 ts = None"
| "parseOr opt (Suc n) ts = bindP (parseAnd opt n ts) (\<lambda>(lhs, ts). parseOrLoop opt n lhs ts)"
| "parseOrLoop opt 0 lhs ts = None"
| "parseOrLoop opt (Suc n) lhs ts =
     (if lk (peek ts) = ctOrOr then
        bindP (parseAnd opt n (nxt ts)) (\<lambda>(rhs, ts). parseOrLoop opt n (Cond_Or lhs rhs) ts)
      else Some (Inr (lhs, ts)))"
| "parseAnd opt 0 ts = None"
| "parseAnd opt (Suc n) ts = bindP (parseUnary opt n ts) (\<lambda>(lhs, ts). parseAndLoop opt n lhs ts)"
| "parseAndLoop opt 0 lhs ts = None"
| "parseAndLoop opt (Suc n) lhs ts =
     (if lk (peek ts) = ctAndAnd then
        bindP (parseUnary opt n (nxt ts)) (\<lambda>(rhs, ts). parseAndLoop opt n (Cond_And lhs rhs) ts)
      else Some (Inr (lhs, ts)))"
| "parseUnary opt 0 ts = None"
| "parseUnary opt (Suc n) ts =
     (if lk (peek ts) = ctBang then
        bindP (parseUnary opt n (nxt ts)) (\<lambda>(sub, ts). Some (Inr (Cond_Not sub, ts)))
      else parseTerm opt n ts)"
| "parseTerm opt 0 ts = None"
| "parseTerm opt (Suc n) ts =
     (let t = peek ts in
      if lk t = ctLParen then
        bindP (parseOr opt n (nxt ts)) (\<lambda>(e, ts).
          if lk (peek ts) \<noteq> ctRParen then Some (Inl (Errorf ''expected )'')) else Some (Inr (e, nxt ts)))
      else if lk t = ctIdent \<and> (ltext t = ''Exists'' \<or> ltext t = ''Not_Exists'') then
        bindP (parseOperand opt n (nxt ts)) (\<lambda>(x, ts).
          Some (Inr (if ltext t = ''Exists'' then Exists x else NotExists x, ts)))
      else if lk t = ctIdent \<and> map_of memberOps (ltext t) \<noteq> None then
        bindP (parseOperand opt n (nxt ts)) (\<lambda>(x, ts).
          Some (Inr (Member (the (map_of memberOps (ltext t))) x, ts)))
      else
        bindP (parseOperand opt n ts) (\<lambda>(lhs, ts).
        bindP (Some (parseRelOp ts)) (\<lambda>(op, ts).
        bindP (parseOperand opt n ts) (\<lambda>(rhs, ts).
        Some (Inr (Compare op lhs rhs, ts))))))"

definition parseConditionText :: "string \<Rightarrow> options \<Rightarrow> Condition pres" where
  "parseConditionText s opt =
     bindP (Some (lexCondition s)) (\<lambda>toks.
     bindP (parseOr opt (6 * length toks + 6) toks) (\<lambda>(cond, ts).
       if lk (peek ts) \<noteq> ctEOF then Some (Inl (Errorf ''unexpected token after expression''))
       else Some (Inr cond)))"

section \<open>Decompiler\<close>

definition compareSym :: "(u8 \<times> string) list" where
  "compareSym = [(compare_byte OpEqual, ''==''), (compare_byte OpNotEqual, ''!=''),
     (compare_byte OpLess, ''<''), (compare_byte OpLessEqual, ''<=''),
     (compare_byte OpGreater, ''>''), (compare_byte OpGreaterEqual, ''>=''),
     (compare_byte OpContains, ''Contains''), (compare_byte OpAnyOf, ''Any_of''),
     (compare_byte OpNotContains, ''Not_Contains''), (compare_byte OpNotAnyOf, ''Not_Any_of'')]"

definition memberKw :: "(u8 \<times> string) list" where
  "memberKw = [(member_byte OpMemberOf, ''Member_of''), (member_byte OpDeviceMemberOf, ''Device_Member_of''),
     (member_byte OpMemberOfAny, ''Member_of_Any''), (member_byte OpDeviceMemberOfAny, ''Device_Member_of_Any''),
     (member_byte OpNotMemberOf, ''Not_Member_of''), (member_byte OpNotDeviceMemberOf, ''Not_Device_Member_of''),
     (member_byte OpNotMemberOfAny, ''Not_Member_of_Any''),
     (member_byte OpNotDeviceMemberOfAny, ''Not_Device_Member_of_Any'')]"

definition FormatInt :: "int \<Rightarrow> string" where
  "FormatInt i = (if i < 0 then CHR ''-'' # FormatUint (nat (- i)) 10 else FormatUint (nat i) 10)"

fun units_of :: "bytes \<Rightarrow> u16 list" where
  "units_of (a # b # bs) = (ucast a OR push_bit 8 (ucast b)) # units_of bs"
| "units_of _ = []"

definition utf16Decode :: "bytes \<Rightarrow> string" where
  "utf16Decode b = string_of (string_of_runes (utf16_decode (units_of b)))"

fun join_text :: "string \<Rightarrow> string list \<Rightarrow> string" where
  "join_text sep [] = []"
| "join_text sep [w] = w"
| "join_text sep (w # ws) = w @ sep @ join_text sep ws"

definition errTrunc :: gerr where "errTrunc = Errorf ''truncated conditional expression''"
definition errUnderflow :: gerr where
  "errUnderflow = Errorf ''malformed conditional expression: operand stack underflow''"

definition data_tags :: "u8 list" where
  "data_tags = [0x10, 0x18, 0x51, 0x50, 0xf8, 0xf9, 0xfa, 0xfb]"

text \<open>The length-prefixed tokens but the composite, which recurs.\<close>

definition decodeDataToken :: "options \<Rightarrow> u8 \<Rightarrow> bytes \<Rightarrow> string result" where
  "decodeDataToken opt tag data =
     (if tag = 0x10 then Inr ([quote] @ utf16Decode data @ [quote])
      else if tag = 0x18 then Inr (''#'' @ hex_EncodeToString data)
      else if tag = 0x51 then
        bindE (wrapE ''malformed SID literal: '' (ParseSID data)) (\<lambda>sid.
          Inr (''SID('' @ formatSID opt sid @ '')''))
      else if tag = 0xf8 then Inr (utf16Decode data)
      else if tag = 0xf9 then Inr (''@User.'' @ utf16Decode data)
      else if tag = 0xfa then Inr (''@Resource.'' @ utf16Decode data)
      else if tag = 0xfb then Inr (''@Device.'' @ utf16Decode data)
      else Inl (Errorf ''unknown data token''))"

text \<open>The operator tokens, which consume one byte: the new stack, its top first.\<close>

definition op_token :: "u8 \<Rightarrow> string list \<Rightarrow> string list result" where
  "op_token tag stack =
     (let unary = (\<lambda>f. case stack of x # st \<Rightarrow> Inr (f x # st) | _ \<Rightarrow> Inl errUnderflow);
          binary = (\<lambda>f. case stack of rhs # lhs # st \<Rightarrow> Inr (f lhs rhs # st) | _ \<Rightarrow> Inl errUnderflow)
      in
      if tag = 0x87 then unary (\<lambda>x. ''Exists '' @ x)
      else if tag = 0x8d then unary (\<lambda>x. ''Not_Exists '' @ x)
      else if tag = 0xa2 then unary (\<lambda>x. ''!('' @ x @ '')'')
      else if tag = 0xa0 then binary (\<lambda>l r. ''('' @ l @ '') && ('' @ r @ '')'')
      else if tag = 0xa1 then binary (\<lambda>l r. ''('' @ l @ '') || ('' @ r @ '')'')
      else case map_of compareSym tag of
             Some sy \<Rightarrow> binary (\<lambda>l r. l @ '' '' @ sy @ '' '' @ r)
           | None \<Rightarrow>
               (case map_of memberKw tag of
                  Some kw \<Rightarrow> unary (\<lambda>x. kw @ '' '' @ x)
                | None \<Rightarrow> Inl (Errorf ''unknown conditional token'')))"

function decodeTokens :: "options \<Rightarrow> string list \<Rightarrow> bytes \<Rightarrow> string list result" where
  "decodeTokens opt stack [] = Inr stack"
| "decodeTokens opt stack (tag # b) =
     (if tag = 0x00 then Inr stack
      else if tag = 0x04 then
        (if length b < 10 then Inl errTrunc
         else decodeTokens opt (FormatInt (sint (le_val (take 8 b) :: u64)) # stack) (drop 10 b))
      else if tag \<in> set data_tags then
        (if length b < 4 then Inl errTrunc
         else let n = unat (le_val (take 4 b) :: u32) in
           if length b < 4 + n then Inl errTrunc
           else if tag = 0x50 then
             bindE (decodeTokens opt [] (take n (drop 4 b))) (\<lambda>items.
               decodeTokens opt ((''{'' @ join_text '', '' (rev items) @ ''}'') # stack) (drop (4 + n) b))
           else
             bindE (decodeDataToken opt tag (take n (drop 4 b))) (\<lambda>s.
               decodeTokens opt (s # stack) (drop (4 + n) b)))
      else bindE (op_token tag stack) (\<lambda>stack. decodeTokens opt stack b))"
  by pat_completeness auto
termination
  by (relation "measure (\<lambda>(opt, st, b). length b)") auto

definition decodeCondition :: "bytes \<Rightarrow> options \<Rightarrow> string result" where
  "decodeCondition code opt =
     (if length code < 4 \<or> take 4 code \<noteq> bytes_of ''artx''
      then Inl (Errorf ''conditional expression is missing the artx prefix'')
      else bindE (decodeTokens opt [] (drop 4 code)) (\<lambda>stack.
        case stack of [t] \<Rightarrow> Inr t
        | _ \<Rightarrow> Inl (Errorf ''conditional expression left a wrong number of values on the stack'')))"

section \<open>The parser always answers\<close>

text \<open>A token slice with one end token, at its end.\<close>

definition tok_wf :: "lextok list \<Rightarrow> bool" where
  "tok_wf ts \<longleftrightarrow> (\<exists>us e. ts = us @ [e] \<and> lk e = ctEOF \<and> (\<forall>u \<in> set us. lk u \<noteq> ctEOF))"

lemma lex_wf: "lex i s = Inr ts \<Longrightarrow> tok_wf ts"
proof (induction i s arbitrary: ts rule: lex.induct)
  case (1 i)
  then show ?case by (auto simp: tok_wf_def)
next
  case (2 i c cs)
  obtain t n rest where l: "lex_one c cs = Inr (t, n, rest)"
    using 2(3) by (cases "lex_one c cs") auto
  show ?case
  proof (cases t)
    case None
    then show ?thesis using 2 l by auto
  next
    case (Some kt)
    obtain k w where kt: "kt = (k, w)" by (cases kt)
    with 2(3) l Some obtain ts' where ts: "lex (i + n) rest = Inr ts'" "ts = Tok k i w # ts'" by auto
    have "tok_wf ts'" using 2(2) [OF l refl _ refl] ts(1) l Some kt by auto
    moreover have "k \<noteq> ctEOF" using lex_one_rest(2) [OF l] Some kt by simp
    ultimately show ?thesis
      unfolding tok_wf_def ts(2) by (metis append_Cons lextok.select_convs(1) set_ConsD)
  qed
qed

lemma tok_wf_nxt:
  assumes "tok_wf ts" and "lk (peek ts) \<noteq> ctEOF"
  shows "tok_wf (nxt ts)" and "length (nxt ts) < length ts"
proof -
  obtain us e where ts: "ts = us @ [e]" "lk e = ctEOF" "\<forall>u \<in> set us. lk u \<noteq> ctEOF"
    using assms(1) by (auto simp: tok_wf_def)
  with assms(2) obtain u us' where us: "us = u # us'" by (cases us) auto
  have "nxt ts = us' @ [e]" by (simp add: nxt_def ts us)
  with ts us show "tok_wf (nxt ts)" "length (nxt ts) < length ts" by (auto simp: tok_wf_def)
qed

definition answers :: "nat \<Rightarrow> ('a \<times> lextok list) pres \<Rightarrow> bool" where
  "answers L r \<longleftrightarrow> (case r of None \<Rightarrow> False | Some (Inl e) \<Rightarrow> True
     | Some (Inr (x, ts)) \<Rightarrow> tok_wf ts \<and> length ts < L)"

lemma answers_simps [simp]:
  "answers L (Some (Inl e))" "answers L (Some (Inr (x, ts))) \<longleftrightarrow> tok_wf ts \<and> length ts < L"
  by (simp_all add: answers_def)

lemma answers_bind:
  assumes "answers L m" and "\<And>x ts. tok_wf ts \<Longrightarrow> length ts < L \<Longrightarrow> answers M (f (x, ts))"
  shows "answers M (bindP m f)"
proof -
  consider e where "m = Some (Inl e)" | x ts where "m = Some (Inr (x, ts))" "tok_wf ts" "length ts < L"
    using assms(1) by (auto simp: answers_def split: option.splits sum.splits)
  then show ?thesis by cases (simp_all add: bindP_def assms(2))
qed

lemma answers_mono: "answers L r \<Longrightarrow> L \<le> M \<Longrightarrow> answers M r"
  by (auto simp: answers_def split: option.splits sum.splits)

lemma operand_answers:
  "(\<forall>ts. tok_wf ts \<longrightarrow> 2 * length ts + 1 \<le> n \<longrightarrow> answers (length ts) (parseOperand opt n ts)) \<and>
   (\<forall>ts items. tok_wf ts \<longrightarrow> 2 * length ts + 2 \<le> n \<longrightarrow>
      answers (Suc (length ts)) (parseItems opt n items ts))"
proof (induction n)
  case (Suc n)
  have op: "answers (length ts) (parseOperand opt (Suc n) ts)"
    if w: "tok_wf ts" and f: "2 * length ts + 1 \<le> Suc n" for ts
  proof (cases "lk (peek ts) = ctEOF")
    case True
    then show ?thesis by (simp add: simpleOperand_def)
  next
    case False
    note nx = tok_wf_nxt [OF w False]
    have "answers (Suc (length (nxt ts))) (parseItems opt n [] (nxt ts))"
      using Suc.IH nx f by auto
    then have "answers (length ts) (bindP (parseItems opt n [] (nxt ts)) (\<lambda>(items, ts).
        Some (Inr (Composite items, nxt ts))))"
    proof (rule answers_bind)
      fix x us assume u: "tok_wf us" "length us < Suc (length (nxt ts))"
      show "answers (length ts) (case (x, us) of (items, ts) \<Rightarrow> Some (Inr (Composite items, nxt ts)))"
        using u nx tok_wf_nxt [of us] by (cases "lk (peek us) = ctEOF") (auto simp: nxt_def tok_wf_def)
    qed
    then show ?thesis using nx by (cases "simpleOperand opt (peek ts)") simp_all
  qed
  have it: "answers (Suc (length ts)) (parseItems opt (Suc n) items ts)"
    if w: "tok_wf ts" and f: "2 * length ts + 2 \<le> Suc n" for ts items
  proof -
    have a: "answers (length ts) (parseOperand opt n ts)" using Suc.IH w f by auto
    have i: "answers (Suc (length ts)) (parseItems opt n items' us)"
      if "tok_wf us" "length us < length ts" for items' us
    proof -
      have "answers (Suc (length us)) (parseItems opt n items' us)" using Suc.IH that f by simp
      then show ?thesis by (rule answers_mono) (use that in simp)
    qed
    have "answers (Suc (length ts)) (bindP (parseOperand opt n ts) (\<lambda>(item, ts).
        if lk (peek ts) = ctComma then parseItems opt n (items @ [item]) (nxt ts)
        else if lk (peek ts) \<noteq> ctRBrace then Some (Inl (Errorf ''expected , or }''))
        else parseItems opt n (items @ [item]) ts))"
      using a
    proof (rule answers_bind)
      fix x us assume u: "tok_wf us" "length us < length ts"
      have "lk (peek us) = ctComma \<Longrightarrow> tok_wf (nxt us) \<and> length (nxt us) < length ts"
        using tok_wf_nxt [of us] u by auto
      then show "answers (Suc (length ts)) (case (x, us) of (item, ts) \<Rightarrow>
          if lk (peek ts) = ctComma then parseItems opt n (items @ [item]) (nxt ts)
          else if lk (peek ts) \<noteq> ctRBrace then Some (Inl (Errorf ''expected , or }''))
          else parseItems opt n (items @ [item]) ts)"
        using u i by simp
    qed
    then show ?thesis using w by simp
  qed
  show ?case using op it by blast
qed simp

lemma relop_answers: "tok_wf ts \<Longrightarrow> answers (length ts) (Some (parseRelOp ts))"
  using tok_wf_nxt [of ts]
  by (auto simp: parseRelOp_def Let_def split: ctokKind.split option.split)

text \<open>The six procedures at once, by the fuel each needs.\<close>

definition cond_answers :: "options \<Rightarrow> nat \<Rightarrow> bool" where
  "cond_answers opt n \<longleftrightarrow> (\<forall>ts. tok_wf ts \<longrightarrow>
     (6 * length ts + 4 \<le> n \<longrightarrow> answers (length ts) (parseOr opt n ts)) \<and>
     (6 * length ts + 1 \<le> n \<longrightarrow> (\<forall>c. answers (Suc (length ts)) (parseOrLoop opt n c ts))) \<and>
     (6 * length ts + 3 \<le> n \<longrightarrow> answers (length ts) (parseAnd opt n ts)) \<and>
     (6 * length ts + 1 \<le> n \<longrightarrow> (\<forall>c. answers (Suc (length ts)) (parseAndLoop opt n c ts))) \<and>
     (6 * length ts + 2 \<le> n \<longrightarrow> answers (length ts) (parseUnary opt n ts)) \<and>
     (6 * length ts + 1 \<le> n \<longrightarrow> answers (length ts) (parseTerm opt n ts)))"

lemma cond_answersD:
  assumes "cond_answers opt n" and "tok_wf ts"
  shows "6 * length ts + 4 \<le> n \<Longrightarrow> length ts \<le> L \<Longrightarrow> answers L (parseOr opt n ts)"
    and "6 * length ts + 1 \<le> n \<Longrightarrow> length ts < L \<Longrightarrow> answers L (parseOrLoop opt n c ts)"
    and "6 * length ts + 3 \<le> n \<Longrightarrow> length ts \<le> L \<Longrightarrow> answers L (parseAnd opt n ts)"
    and "6 * length ts + 1 \<le> n \<Longrightarrow> length ts < L \<Longrightarrow> answers L (parseAndLoop opt n c ts)"
    and "6 * length ts + 2 \<le> n \<Longrightarrow> length ts \<le> L \<Longrightarrow> answers L (parseUnary opt n ts)"
    and "6 * length ts + 1 \<le> n \<Longrightarrow> length ts \<le> L \<Longrightarrow> answers L (parseTerm opt n ts)"
  using assms unfolding cond_answers_def by (meson answers_mono Suc_leI)+

lemma tok_wf_pos: "tok_wf ts \<Longrightarrow> 1 \<le> length ts"
  by (auto simp: tok_wf_def)

lemma operand_answersD:
  "tok_wf ts \<Longrightarrow> 2 * length ts + 1 \<le> n \<Longrightarrow> length ts \<le> L \<Longrightarrow> answers L (parseOperand opt n ts)"
  using operand_answers [of n opt] answers_mono by blast

text \<open>Reading one token and going on.\<close>

lemma answers_nxt:
  assumes "tok_wf ts" and "lk (peek ts) \<noteq> ctEOF" and "length ts \<le> L"
  shows "answers L (Some (Inr (x, nxt ts)))"
  using tok_wf_nxt [OF assms(1,2)] assms(3) by simp

lemma term_answers:
  assumes IH: "cond_answers opt n" and w: "tok_wf ts" and f: "6 * length ts + 1 \<le> Suc n"
  shows "answers (length ts) (parseTerm opt (Suc n) ts)"
proof -
  have op: "answers (length us) (parseOperand opt n us)"
    if "tok_wf us" "length us \<le> length ts" for us
    by (rule operand_answersD) (use that f tok_wf_pos [OF w] in auto)
  have paren: "answers (length ts) (bindP (parseOr opt n (nxt ts)) (\<lambda>(e, us).
      if lk (peek us) \<noteq> ctRParen then Some (Inl (Errorf ''expected )'')) else Some (Inr (e, nxt us))))"
    if k: "lk (peek ts) = ctLParen"
  proof -
    have nx: "tok_wf (nxt ts)" "length (nxt ts) < length ts" using tok_wf_nxt [OF w] k by auto
    have "answers (length (nxt ts)) (parseOr opt n (nxt ts))"
      by (rule cond_answersD(1) [OF IH nx(1)]) (use nx f in auto)
    then show ?thesis
    proof (rule answers_bind, unfold prod.case)
      fix e us assume "tok_wf us" "length us < length (nxt ts)"
      then show "answers (length ts) (if lk (peek us) \<noteq> ctRParen then Some (Inl (Errorf ''expected )''))
          else Some (Inr (e, nxt us)))"
        using answers_nxt [of us "length ts" e] nx by auto
    qed
  qed
  have prefix: "answers (length ts) (bindP (parseOperand opt n (nxt ts)) (\<lambda>(x, us). Some (Inr (g x, us))))"
    if k: "lk (peek ts) = ctIdent" for g :: "Operand \<Rightarrow> Condition"
  proof -
    have nx: "tok_wf (nxt ts)" "length (nxt ts) < length ts" using tok_wf_nxt [OF w] k by auto
    from op [OF nx(1)] nx(2) have "answers (length (nxt ts)) (parseOperand opt n (nxt ts))" by simp
    then show ?thesis by (rule answers_bind) (use nx in auto)
  qed
  have rel_term: "answers (length ts)
      (bindP (parseOperand opt n ts) (\<lambda>(lhs, ts).
        bindP (Some (parseRelOp ts)) (\<lambda>(op, ts).
        bindP (parseOperand opt n ts) (\<lambda>(rhs, ts).
        Some (Inr (Compare op lhs rhs, ts))))))"
  proof (rule answers_bind [OF op [OF w order_refl]], unfold prod.case)
    fix x us assume u: "tok_wf us" "length us < length ts"
    show "answers (length ts) (bindP (Some (parseRelOp us)) (\<lambda>(op, ts).
        bindP (parseOperand opt n ts) (\<lambda>(rhs, ts). Some (Inr (Compare op x rhs, ts)))))"
    proof (rule answers_bind [OF relop_answers [OF u(1)]], unfold prod.case)
      fix y vs assume v: "tok_wf vs" "length vs < length us"
      then have "answers (length vs) (parseOperand opt n vs)" using op u by simp
      then show "answers (length ts) (bindP (parseOperand opt n vs) (\<lambda>(rhs, ts).
          Some (Inr (Compare y x rhs, ts))))"
        by (rule answers_bind) (use u v in auto)
    qed
  qed
  show ?thesis using paren prefix rel_term by (simp add: Let_def)
qed

lemma unary_answers:
  assumes IH: "cond_answers opt n" and w: "tok_wf ts" and f: "6 * length ts + 2 \<le> Suc n"
  shows "answers (length ts) (parseUnary opt (Suc n) ts)"
proof (cases "lk (peek ts) = ctBang")
  case True
  have nx: "tok_wf (nxt ts)" "length (nxt ts) < length ts" using tok_wf_nxt [OF w] True by auto
  have "answers (length (nxt ts)) (parseUnary opt n (nxt ts))"
    by (rule cond_answersD(5) [OF IH nx(1)]) (use nx f in auto)
  then have "answers (length ts) (bindP (parseUnary opt n (nxt ts)) (\<lambda>(sub, ts). Some (Inr (Cond_Not sub, ts))))"
    by (rule answers_bind) (use nx in auto)
  with True show ?thesis by simp
next
  case False
  then show ?thesis using cond_answersD(6) [OF IH w, of "length ts"] f by simp
qed

lemma level_answers:
  assumes IH: "cond_answers opt n" and w: "tok_wf ts"
  shows "6 * length ts + 3 \<le> Suc n \<Longrightarrow> answers (length ts) (parseAnd opt (Suc n) ts)"
    and "6 * length ts + 4 \<le> Suc n \<Longrightarrow> answers (length ts) (parseOr opt (Suc n) ts)"
proof -
  assume f: "6 * length ts + 3 \<le> Suc n"
  have "answers (length ts) (parseUnary opt n ts)"
    by (rule cond_answersD(5) [OF IH w]) (use f in auto)
  then have "answers (length ts) (bindP (parseUnary opt n ts) (\<lambda>(lhs, ts). parseAndLoop opt n lhs ts))"
    by (rule answers_bind) (use f in \<open>auto intro!: cond_answersD(4) [OF IH]\<close>)
  then show "answers (length ts) (parseAnd opt (Suc n) ts)" by simp
next
  assume f: "6 * length ts + 4 \<le> Suc n"
  have "answers (length ts) (parseAnd opt n ts)"
    by (rule cond_answersD(3) [OF IH w]) (use f in auto)
  then have "answers (length ts) (bindP (parseAnd opt n ts) (\<lambda>(lhs, ts). parseOrLoop opt n lhs ts))"
    by (rule answers_bind) (use f in \<open>auto intro!: cond_answersD(2) [OF IH]\<close>)
  then show "answers (length ts) (parseOr opt (Suc n) ts)" by simp
qed

lemma loop_answers:
  assumes IH: "cond_answers opt n" and w: "tok_wf ts" and f: "6 * length ts + 1 \<le> Suc n"
  shows "answers (Suc (length ts)) (parseAndLoop opt (Suc n) c ts)"
    and "answers (Suc (length ts)) (parseOrLoop opt (Suc n) c ts)"
proof -
  have nx: "tok_wf (nxt ts)" "length (nxt ts) < length ts" if "lk (peek ts) \<noteq> ctEOF"
    using tok_wf_nxt [OF w that] by auto
  have "answers (length (nxt ts)) (parseUnary opt n (nxt ts))" if "lk (peek ts) = ctAndAnd"
    by (rule cond_answersD(5) [OF IH]) (use nx that f in auto)
  then have "answers (Suc (length ts)) (bindP (parseUnary opt n (nxt ts)) (\<lambda>(rhs, ts).
      parseAndLoop opt n (Cond_And c rhs) ts))" if "lk (peek ts) = ctAndAnd"
    by (rule answers_bind) (use nx that f in \<open>auto intro!: cond_answersD(4) [OF IH]\<close>)
  then show "answers (Suc (length ts)) (parseAndLoop opt (Suc n) c ts)" using w by simp
  have "answers (length (nxt ts)) (parseAnd opt n (nxt ts))" if "lk (peek ts) = ctOrOr"
    by (rule cond_answersD(3) [OF IH]) (use nx that f in auto)
  then have "answers (Suc (length ts)) (bindP (parseAnd opt n (nxt ts)) (\<lambda>(rhs, ts).
      parseOrLoop opt n (Cond_Or c rhs) ts))" if "lk (peek ts) = ctOrOr"
    by (rule answers_bind) (use nx that f in \<open>auto intro!: cond_answersD(2) [OF IH]\<close>)
  then show "answers (Suc (length ts)) (parseOrLoop opt (Suc n) c ts)" using w by simp
qed

lemma cond_answers_all: "cond_answers opt n"
proof (induction n)
  case (Suc n)
  then show ?case
    unfolding cond_answers_def [of opt "Suc n"]
    by (intro allI impI conjI) (erule (1) level_answers loop_answers unary_answers term_answers, assumption)+
qed (simp add: cond_answers_def)

text \<open>
  Compiling a conditional expression always ends: the parser's recursion never needs more
  steps than \<open>parseConditionText\<close> allows for the number of tokens, so on every text the
  result is a condition or an error.\<close>

theorem parseConditionText_total: "\<exists>r. parseConditionText s opt = Some r"
proof (cases "lexCondition s")
  case (Inr toks)
  then have "tok_wf toks" by (simp add: lexCondition_def lex_wf)
  then have "answers (length toks) (parseOr opt (6 * length toks + 6) toks)"
    by (rule cond_answersD(1) [OF cond_answers_all]) simp_all
  then show ?thesis
    by (auto simp: parseConditionText_def Inr bindP_def answers_def split: option.splits sum.splits)
qed (simp add: parseConditionText_def bindP_def)

end
