(* ===== verification/Sddl.thy ===== *)
theory Sddl
  imports SddlCond Descriptor Utf
begin

text \<open>
  \<^verbatim>\<open>sddl/sddl.go\<close>, \<^verbatim>\<open>sddl/parse.go\<close> and \<^verbatim>\<open>sddl/format.go\<close>: the parser and the printer of SDDL, the text
  of security descriptors.

  The parser's cursor is the pair of its offset and the rest of the input behind it, the
  \<open>pos\<close> and \<open>in[pos:]\<close> of the source. Syntax errors carry the offset the source reports. The
  tables of rights and the constants of \<^verbatim>\<open>sd\<close> are parameters, as in \<^verbatim>\<open>SddlTables\<close>.

  The lemmas show that the recogniser always consumes and never panics, that it inverts the
  printer on descriptors of structured entries, and on which owners the two disagree.
\<close>

section \<open>Options and white space\<close>

definition zero_options :: options where
  "zero_options = \<lparr>o_domain = zero_SID, o_machine = zero_SID\<rparr>"

definition WithDomain :: "SID \<Rightarrow> options \<Rightarrow> options" where
  "WithDomain sid p = p\<lparr>o_domain := sid\<rparr>"

definition WithMachine :: "SID \<Rightarrow> options \<Rightarrow> options" where
  "WithMachine sid p = p\<lparr>o_machine := sid\<rparr>"

definition collect :: "(options \<Rightarrow> options) list \<Rightarrow> options" where
  "collect opts = foldl (\<lambda>p fn. fn p) zero_options opts"

text \<open>\<open>unicode.IsSpace\<close>, and the last rune of a string (\<open>utf8.DecodeLastRuneInString\<close>): the
  longest suffix tried is four bytes, and a suffix counts only if its first rune is all of it.\<close>

definition IsSpace :: "nat \<Rightarrow> bool" where
  "IsSpace r \<longleftrightarrow> r \<in> {0x09, 0x0A, 0x0B, 0x0C, 0x0D, 0x20, 0x85, 0xA0, 0x1680, 0x2028, 0x2029, 0x202f,
     0x205f, 0x3000} \<or> 0x2000 \<le> r \<and> r \<le> 0x200a"

definition rune_start :: "u8 \<Rightarrow> bool" where
  "rune_start b \<longleftrightarrow> b AND 0xC0 \<noteq> 0x80"

definition last_rune :: "bytes \<Rightarrow> nat \<times> nat" where
  "last_rune b =
     (if b = [] then (rune_error, 0)
      else if unat (last b) < 0x80 then (unat (last b), 1)
      else case find (\<lambda>k. k \<le> length b \<and> rune_start (b ! (length b - k))) [2, 3, 4] of
             None \<Rightarrow> (rune_error, 1)
           | Some k \<Rightarrow>
               (case decode_rune (drop (length b - k) b) of (r, n, _) \<Rightarrow>
                  if n = k then (r, n) else (rune_error, 1)))"

function trim_left :: "bytes \<Rightarrow> bytes" where
  "trim_left b =
     (if b = [] then [] else
      case decode_rune b of (r, n, _) \<Rightarrow> if IsSpace r then trim_left (drop (max 1 n) b) else b)"
  by pat_completeness auto
termination
  by (relation "measure length") auto

function trim_right :: "bytes \<Rightarrow> bytes" where
  "trim_right b =
     (if b = [] then [] else
      case last_rune b of (r, n) \<Rightarrow> if IsSpace r then trim_right (take (length b - max 1 n) b) else b)"
  by pat_completeness auto
termination
  by (relation "measure length") auto

declare trim_left.simps [simp del] trim_right.simps [simp del]

definition TrimSpace :: "string \<Rightarrow> string" where
  "TrimSpace s = string_of (trim_right (trim_left (bytes_of s)))"

section \<open>Scanning SIDs\<close>

type_synonym cursor = "nat \<times> string"

definition scanNumber :: "cursor \<Rightarrow> bool \<times> cursor" where
  "scanNumber = (\<lambda>(i, s).
     if has_prefix s ''0x'' \<or> has_prefix s ''0X'' then
       (let d = takeWhile isHexDigit (drop 2 s) in
        (d \<noteq> [], i + 2 + length d, drop (2 + length d) s))
     else
       (let d = takeWhile is_dec s in (d \<noteq> [], i + length d, drop (length d) s)))"

lemma scanNumber_rest:
  "scanNumber (i, s) = (b, j, t) \<Longrightarrow> i \<le> j \<and> t = drop (j - i) s"
  by (auto simp: scanNumber_def Let_def numeral_2_eq_2 split: if_splits)

lemma length_drop_less: "s \<noteq> [] \<Longrightarrow> i < j \<Longrightarrow> length (drop (j - i) s) < length s"
  by (cases s) auto

lemma length_drop_tl_less: "s \<noteq> [] \<Longrightarrow> length (drop n (tl s)) < length s"
  by (cases s) auto

function scan_subs :: "cursor \<Rightarrow> cursor result" where
  "scan_subs (i, s) =
     (if s \<noteq> [] \<and> hd s = CHR ''-'' then
        (case scanNumber (i + 1, tl s) of (ok, j, t) \<Rightarrow>
           if \<not> ok then Inl (SyntaxError j ''expected a SID sub-authority'') else scan_subs (j, t))
      else Inr (i, s))"
  by pat_completeness auto
termination
  by (relation "measure (\<lambda>(i, s). length s)") (auto dest!: scanNumber_rest [OF sym] simp del: length_drop simp: length_drop_tl_less)

declare scan_subs.simps [simp del]

definition scanRawSID :: "cursor \<Rightarrow> (string \<times> cursor) result" where
  "scanRawSID = (\<lambda>(start, s).
     if \<not> has_prefix s ''S-1-'' then Inl (SyntaxError start ''expected a SID'')
     else case scanNumber (start + 4, drop 4 s) of (ok, c) \<Rightarrow>
       if \<not> ok then Inl (SyntaxError (fst c) ''expected the SID identifier authority'')
       else bindE (scan_subs c) (\<lambda>(j, t). Inr (take (j - start) s, j, t)))"

text \<open>\<open>err.Error()\<close> of the errors a field parser may return.\<close>

fun err_text :: "gerr \<Rightarrow> string" where
  "err_text (Errorf m) = m"
| "err_text (Wrap m e) = m @ err_text e"
| "err_text ErrBadSID = ''libp/wire: malformed SID''"
| "err_text _ = []"

definition at_off :: "nat \<Rightarrow> 'a result \<Rightarrow> 'a result" where
  "at_off off = relabel (\<lambda>e. SyntaxError off (err_text e))"

definition scanSID :: "options \<Rightarrow> cursor \<Rightarrow> (SID \<times> cursor) result" where
  "scanSID opt = (\<lambda>(off, s).
     bindE (if has_prefix s ''S-'' then scanRawSID (off, s)
            else if length s < 2 then Inl (SyntaxError off ''expected a SID'')
            else Inr (take 2 s, off + 2, drop 2 s)) (\<lambda>(text, c).
     bindE (at_off off (parseSIDText opt text)) (\<lambda>sid. Inr (sid, c))))"

section \<open>Fields of an ACE\<close>

text \<open>The loop of \<open>splitFields\<close>: parenthesis depth, where the current field starts, and the
  part of it already read. The result pairs each field with its offset.\<close>

fun split_fields :: "int \<Rightarrow> nat \<Rightarrow> string \<Rightarrow> string \<Rightarrow> (string \<times> nat) list" where
  "split_fields depth start w [] = [(w, start)]"
| "split_fields depth start w (c # cs) =
     (if c = CHR ''('' then split_fields (depth + 1) start (w @ [c]) cs
      else if c = CHR '')'' then split_fields (depth - 1) start (w @ [c]) cs
      else if c = CHR '';'' \<and> depth = 0 then (w, start) # split_fields depth (start + length w + 1) [] cs
      else split_fields depth start (w @ [c]) cs)"

definition splitFields :: "string \<Rightarrow> nat \<Rightarrow> (string \<times> nat) list" where
  "splitFields body baseOff = split_fields 0 baseOff [] body"

definition guid_text :: "string \<Rightarrow> nat \<Rightarrow> GUID option result" where
  "guid_text f off = (if f = [] then Inr None else bindE (at_off off (parseGUID f)) (\<lambda>g. Inr (Some g)))"

definition parseGUIDFields ::
  "string \<times> nat \<Rightarrow> string \<times> nat \<Rightarrow> (GUID option \<times> GUID option) result" where
  "parseGUIDFields objF inhF =
     bindE (guid_text (fst objF) (snd objF)) (\<lambda>a.
     bindE (guid_text (fst inhF) (snd inhF)) (\<lambda>b. Inr (a, b)))"

definition principal :: "options \<Rightarrow> string \<times> nat \<Rightarrow> SID result" where
  "principal opt f =
     (if fst f = [] then Inl (SyntaxError (snd f) ''ACE is missing its principal SID'')
      else at_off (snd f) (parseSIDText opt (fst f)))"

definition parseStructuredACE ::
  "'m ace_abi_scheme \<Rightarrow> rights_abi \<Rightarrow> u8 \<Rightarrow> (string \<times> nat) list \<Rightarrow> options \<Rightarrow> ACE result" where
  "parseStructuredACE U R t fs opt =
     (let f = (\<lambda>k. fst (fs ! k)); off = (\<lambda>k. snd (fs ! k)) in
      if length fs \<noteq> 6 then Inl (SyntaxError (off 0) ''ACE has a wrong number of fields, want 6'')
      else
        bindE (at_off (off 1) (textToAceFlags U (f 1))) (\<lambda>flags.
        bindE (at_off (off 2) (parseMask R (f 2))) (\<lambda>msk.
        if (f 3 \<noteq> [] \<or> f 4 \<noteq> []) \<and> \<not> isObjectType U t
        then Inl (SyntaxError (off 3) ''ACE type does not carry object-type GUIDs'')
        else
          bindE (parseGUIDFields (fs ! 3) (fs ! 4)) (\<lambda>(ot, iot).
          bindE (principal opt (fs ! 5)) (\<lambda>sid.
          Inr (zero_ACE\<lparr>aType := t, aFlags := flags, aMask := msk, aObjectType := ot,
                 aInheritedObjectType := iot, aSID := sid\<rparr>))))))"

text \<open>The compiler of conditional expressions, which always answers.\<close>

definition compile_condition :: "string \<Rightarrow> options \<Rightarrow> Condition result" where
  "compile_condition s opt =
     (case parseConditionText s opt of Some r \<Rightarrow> r | None \<Rightarrow> Inl (Errorf ''out of fuel''))"

definition cond_at :: "nat \<Rightarrow> Condition result \<Rightarrow> Condition result" where
  "cond_at off = relabel (\<lambda>e. SyntaxError off (''conditional expression: '' @ err_text e))"

definition callback_ace ::
  "'m ace_abi_scheme \<Rightarrow> u8 \<Rightarrow> SID \<Rightarrow> u32 \<Rightarrow> GUID option \<Rightarrow> GUID option \<Rightarrow> Condition \<Rightarrow> ACE" where
  "callback_ace U t sid msk ot iot cond =
     (if t = AceAccessAllowedCallback U then AllowCallback U sid msk cond
      else if t = AceAccessDeniedCallback U then DenyCallback U sid msk cond
      else if t = AceSystemAuditCallback U then AuditCallback U sid msk cond
      else if t = AceAccessAllowedCallbackObject U then AllowCallbackObject U sid msk ot iot cond
      else zero_ACE)"

definition parseCallbackACE ::
  "'m ace_abi_scheme \<Rightarrow> rights_abi \<Rightarrow> u8 \<Rightarrow> (string \<times> nat) list \<Rightarrow> options \<Rightarrow> ACE result" where
  "parseCallbackACE U R t fs opt =
     (let f = (\<lambda>k. fst (fs ! k)); off = (\<lambda>k. snd (fs ! k)) in
      if length fs \<noteq> 7 then Inl (SyntaxError (off 0) ''ACE has a wrong number of fields, want 7'')
      else
        bindE (at_off (off 1) (textToAceFlags U (f 1))) (\<lambda>flags.
        bindE (at_off (off 2) (parseMask R (f 2))) (\<lambda>msk.
        bindE (parseGUIDFields (fs ! 3) (fs ! 4)) (\<lambda>(ot, iot).
        if (ot \<noteq> None \<or> iot \<noteq> None) \<and> t \<noteq> AceAccessAllowedCallbackObject U
        then Inl (SyntaxError (off 3) ''ACE type does not carry object-type GUIDs'')
        else
          bindE (principal opt (fs ! 5)) (\<lambda>sid.
          bindE (cond_at (off 6) (compile_condition (f 6) opt)) (\<lambda>cond.
          Inr ((callback_ace U t sid msk ot iot cond)\<lparr>aFlags := flags\<rparr>)))))))"

definition parseACEBody ::
  "'m ace_abi_scheme \<Rightarrow> rights_abi \<Rightarrow> string \<Rightarrow> nat \<Rightarrow> options \<Rightarrow> ACE result" where
  "parseACEBody U R body baseOff opt =
     (let fs = splitFields body baseOff in
      if length fs < 6 then Inl (SyntaxError baseOff ''ACE has too few fields, want at least 6'')
      else case map_of (aceTypeTags U) (fst (fs ! 0)) of
             None \<Rightarrow> Inl (SyntaxError (snd (fs ! 0)) ''unknown ACE type'')
           | Some t \<Rightarrow>
               if \<not> aceTypeSupported U t then Inl (SyntaxError (snd (fs ! 0)) ''ACE type is not yet supported'')
               else if isCallbackType U t then parseCallbackACE U R t fs opt
               else parseStructuredACE U R t fs opt)"

section \<open>ACLs and descriptors\<close>

text \<open>The index of the parenthesis that closes the first one.\<close>

fun match_paren :: "int \<Rightarrow> string \<Rightarrow> nat option" where
  "match_paren depth [] = None"
| "match_paren depth (c # cs) =
     (if c = CHR ''('' then map_option Suc (match_paren (depth + 1) cs)
      else if c = CHR '')'' then
        (if depth - 1 = 0 then Some 0 else map_option Suc (match_paren (depth - 1) cs))
      else map_option Suc (match_paren depth cs))"

definition scanACE ::
  "'m ace_abi_scheme \<Rightarrow> rights_abi \<Rightarrow> options \<Rightarrow> cursor \<Rightarrow> (ACE \<times> cursor) result" where
  "scanACE U R opt = (\<lambda>(open, s).
     case match_paren 0 s of
       None \<Rightarrow> Inl (SyntaxError open ''unterminated ACE - missing )'')
     | Some end \<Rightarrow>
         bindE (slice s 1 end) (\<lambda>body.
         bindE (parseACEBody U R body (open + 1) opt) (\<lambda>ace.
         Inr (ace, open + end + 1, drop (end + 1) s))))"

lemma scanACE_rest:
  "scanACE U R opt (i, s) = Inr (a, j, t) \<Longrightarrow> i < j \<and> t = drop (j - i) s"
  by (auto simp: scanACE_def split: option.splits)

function scan_aces ::
  "'m ace_abi_scheme \<Rightarrow> rights_abi \<Rightarrow> options \<Rightarrow> cursor \<Rightarrow> (ACE list \<times> cursor) result" where
  "scan_aces U R opt (i, s) =
     (if s \<noteq> [] \<and> hd s = CHR ''('' then
        (case scanACE U R opt (i, s) of
           Inl e \<Rightarrow> Inl e
         | Inr (ace, j, t) \<Rightarrow> bindE (scan_aces U R opt (j, t)) (\<lambda>(as, c). Inr (ace # as, c)))
      else Inr ([], i, s))"
  by pat_completeness auto
termination
  by (relation "measure (\<lambda>(U, R, opt, i, s). length s)") (auto dest!: scanACE_rest simp del: length_drop simp: length_drop_less)

declare scan_aces.simps [simp del]

definition isComponentTag :: "char \<Rightarrow> bool" where
  "isComponentTag c \<longleftrightarrow> c = CHR ''O'' \<or> c = CHR ''G'' \<or> c = CHR ''D'' \<or> c = CHR ''S''"

definition isFlagChar :: "char \<Rightarrow> bool" where
  "isFlagChar c \<longleftrightarrow> in_range CHR ''A'' CHR ''Z'' c \<or> in_range CHR ''a'' CHR ''z'' c \<or> c = CHR ''_''"

text \<open>The flag run of an ACL: the characters before the first ACE or component tag.\<close>

fun scan_flags :: "cursor \<Rightarrow> (string \<times> cursor) result" where
  "scan_flags (i, []) = Inr ([], i, [])"
| "scan_flags (i, c # cs) =
     (if c = CHR ''('' then Inr ([], i, c # cs)
      else if cs \<noteq> [] \<and> hd cs = CHR '':'' \<and> isComponentTag c then Inr ([], i, c # cs)
      else if \<not> isFlagChar c then Inl (SyntaxError i ''unexpected character in ACL flags'')
      else bindE (scan_flags (i + 1, cs)) (\<lambda>(w, k). Inr (c # w, k)))"

definition upper :: "char \<Rightarrow> char" where
  "upper c = (if in_range CHR ''a'' CHR ''z'' c then char_of ((of_char c :: nat) - 32) else c)"

record acl_flags =
  protected :: bool
  autoInherited :: bool
  autoInheritReq :: bool
  nullACL :: bool

definition no_acl_flags :: acl_flags where
  "no_acl_flags = \<lparr>protected = False, autoInherited = False, autoInheritReq = False, nullACL = False\<rparr>"

function acl_flag_run :: "acl_flags \<Rightarrow> string \<Rightarrow> acl_flags result" where
  "acl_flag_run f s =
     (if s = [] then Inr f
      else if has_prefix s ''NO_ACCESS_CONTROL'' then
        (if nullACL f then Inl (Errorf ''duplicate NO_ACCESS_CONTROL'')
         else acl_flag_run (f\<lparr>nullACL := True\<rparr>) (drop 17 s))
      else if hd s = CHR ''P'' then acl_flag_run (f\<lparr>protected := True\<rparr>) (tl s)
      else if has_prefix s ''AI'' then acl_flag_run (f\<lparr>autoInherited := True\<rparr>) (drop 2 s)
      else if has_prefix s ''AR'' then acl_flag_run (f\<lparr>autoInheritReq := True\<rparr>) (drop 2 s)
      else Inl (Errorf ''unknown ACL flag''))"
  by pat_completeness auto
termination
  by (relation "measure (\<lambda>(f, s). length s)") auto

declare acl_flag_run.simps [simp del]

definition parseACLFlags :: "string \<Rightarrow> acl_flags result" where
  "parseACLFlags s = acl_flag_run no_acl_flags s"

definition controlDACLAutoInheritReq :: u16 where "controlDACLAutoInheritReq = 0x0100"
definition controlSACLAutoInheritReq :: u16 where "controlSACLAutoInheritReq = 0x0200"

text \<open>The control bits of one ACL, and where its entries go in the descriptor.\<close>

definition acl_control :: "'m sd_abi_scheme \<Rightarrow> bool \<Rightarrow> acl_flags \<Rightarrow> u16" where
  "acl_control U isSACL f =
     (if isSACL then
        (if \<not> nullACL f then ControlSACLPresent U else 0)
        OR (if protected f then ControlSACLProtected U else 0)
        OR (if autoInherited f then ControlSACLAutoInherited U else 0)
        OR (if autoInheritReq f then controlSACLAutoInheritReq else 0)
      else
        (if \<not> nullACL f then ControlDACLPresent U else 0)
        OR (if protected f then ControlDACLProtected U else 0)
        OR (if autoInherited f then ControlDACLAutoInherited U else 0)
        OR (if autoInheritReq f then controlDACLAutoInheritReq else 0))"

definition set_acl :: "'m sd_abi_scheme \<Rightarrow> bool \<Rightarrow> acl_flags \<Rightarrow> ACE list \<Rightarrow> Descriptor \<Rightarrow> Descriptor" where
  "set_acl U isSACL f as d =
     (let acl = (if nullACL f then None else Some \<lparr>Entries = as\<rparr>);
          d = d\<lparr>dControl := dControl d OR acl_control U isSACL f\<rparr>
      in if isSACL then d\<lparr>dSACL := acl\<rparr> else d\<lparr>dDACL := acl\<rparr>)"

definition scanACL ::
  "'m sd_abi_scheme \<Rightarrow> rights_abi \<Rightarrow> options \<Rightarrow> bool \<Rightarrow> Descriptor \<Rightarrow> cursor \<Rightarrow> (Descriptor \<times> cursor) result" where
  "scanACL U R opt isSACL d c =
     bindE (scan_flags c) (\<lambda>(w, i, s).
     bindE (at_off (fst c) (parseACLFlags (map upper w))) (\<lambda>f.
     if nullACL f \<and> s \<noteq> [] \<and> hd s = CHR ''(''
     then Inl (SyntaxError i ''NO_ACCESS_CONTROL cannot accompany ACEs'')
     else bindE (scan_aces U R opt (i, s)) (\<lambda>(as, c). Inr (set_acl U isSACL f as d, c))))"

text \<open>One component behind its tag.\<close>

definition scan_component ::
  "'m sd_abi_scheme \<Rightarrow> rights_abi \<Rightarrow> options \<Rightarrow> char \<Rightarrow> Descriptor \<Rightarrow> cursor \<Rightarrow> (Descriptor \<times> cursor) result" where
  "scan_component U R opt tag d c =
     (if tag = CHR ''O'' then bindE (scanSID opt c) (\<lambda>(s, c). Inr (d\<lparr>dOwner := s\<rparr>, c))
      else if tag = CHR ''G'' then bindE (scanSID opt c) (\<lambda>(s, c). Inr (d\<lparr>dGroup := s\<rparr>, c))
      else if tag = CHR ''D'' then scanACL U R opt False d c
      else scanACL U R opt True d c)"

lemma scan_subs_rest: "scan_subs (i, s) = Inr (j, t) \<Longrightarrow> i \<le> j \<and> t = drop (j - i) s"
proof (induction "(i, s)" arbitrary: i s rule: scan_subs.induct)
  case (1 i s)
  show ?case
  proof (cases "s \<noteq> [] \<and> hd s = CHR ''-''")
    case True
    obtain ok k u where n: "scanNumber (i + 1, tl s) = (ok, k, u)" by (metis prod_cases3)
    with True "1.prems" have ok: ok and r: "scan_subs (k, u) = Inr (j, t)"
      by (auto simp: scan_subs.simps [of i s] split: if_splits)
    have "k \<le> j \<and> t = drop (j - k) u" using "1.hyps" [OF True n [symmetric] refl] ok r by simp
    moreover have "i + 1 \<le> k \<and> u = drop (k - (i + 1)) (tl s)" using scanNumber_rest [OF n] .
    moreover obtain c s' where "s = c # s'" using True by (cases s) auto
    ultimately show ?thesis by (auto simp: drop_Suc [symmetric] Suc_diff_Suc drop_Cons' split: nat.splits)
  qed (use "1.prems" in \<open>auto simp: scan_subs.simps [of i s]\<close>)
qed

lemma scanSID_le: "scanSID opt (i, s) = Inr (sid, j, t) \<Longrightarrow> length t \<le> length s"
  by (auto simp: scanSID_def scanRawSID_def at_off_def split: if_splits prod.splits
      dest!: scan_subs_rest scanNumber_rest)

lemma scan_flags_le: "scan_flags c = Inr (w, j, t) \<Longrightarrow> length t \<le> length (snd c)"
proof (induction c arbitrary: w rule: scan_flags.induct)
  case (2 i c cs)
  then show ?case by (auto split: if_splits)
qed simp

lemma scan_aces_le: "scan_aces U R opt (i, s) = Inr (as, j, t) \<Longrightarrow> length t \<le> length s"
proof (induction "length s" arbitrary: i s as rule: less_induct)
  case less
  show ?case
  proof (cases "s \<noteq> [] \<and> hd s = CHR ''(''")
    case True
    with less.prems obtain a k u as' where sc: "scanACE U R opt (i, s) = Inr (a, k, u)"
      and r: "scan_aces U R opt (k, u) = Inr (as', j, t)"
      by (auto simp: scan_aces.simps [of U R opt i s] split: sum.splits)
    have "length u < length s"
      using scanACE_rest [OF sc] length_drop_less True by auto
    then show ?thesis using less.hyps [OF _ r] by simp
  qed (use less.prems in \<open>auto simp: scan_aces.simps [of U R opt i s]\<close>)
qed

lemma scanACL_le: "scanACL U R opt b d (i, s) = Inr (d', j, t) \<Longrightarrow> length t \<le> length s"
  by (auto simp: scanACL_def split: if_splits dest!: scan_flags_le scan_aces_le)

lemma scan_component_le:
  "scan_component U R opt tag d (i, s) = Inr (d', j, t) \<Longrightarrow> length t \<le> length s"
  by (auto simp: scan_component_def split: if_splits dest!: scanACL_le scanSID_le)

text \<open>The loop over the components, with the tags already seen.\<close>

function parse_components ::
  "'m sd_abi_scheme \<Rightarrow> rights_abi \<Rightarrow> options \<Rightarrow> bool list \<Rightarrow> Descriptor \<Rightarrow> cursor \<Rightarrow> Descriptor result" where
  "parse_components U R opt seen d (off, s) =
     (if s = [] then Inr d
      else if length s \<le> 1 \<or> s ! 1 \<noteq> CHR '':'' then
        Inl (SyntaxError off ''expected a component tag - O:, G:, D: or S:'')
      else case index_of (hd s) ''OGDS'' of
             None \<Rightarrow> Inl (SyntaxError off ''unknown component tag'')
           | Some idx \<Rightarrow>
               if seen ! idx then Inl (SyntaxError off ''duplicate component'')
               else case scan_component U R opt (hd s) d (off + 2, drop 2 s) of
                      Inl e \<Rightarrow> Inl e
                    | Inr (d', c) \<Rightarrow> parse_components U R opt (seen[idx := True]) d' c)"
  by pat_completeness auto
termination
  by (relation "measure (\<lambda>(U, R, opt, seen, d, i, s). length s)")
     (auto dest!: scan_component_le)

declare parse_components.simps [simp del]

definition parser_parse :: "'m sd_abi_scheme \<Rightarrow> rights_abi \<Rightarrow> options \<Rightarrow> string \<Rightarrow> Descriptor result" where
  "parser_parse U R opt input = parse_components U R opt (replicate 4 False) zero_Descriptor (0, input)"

definition Parse :: "'m sd_abi_scheme \<Rightarrow> rights_abi \<Rightarrow> string \<Rightarrow> (options \<Rightarrow> options) list \<Rightarrow> Descriptor result" where
  "Parse U R s opts = parser_parse U R (collect opts) (TrimSpace s)"

section \<open>The printer\<close>

definition guidAt :: "bytes \<Rightarrow> nat \<Rightarrow> GUID result" where
  "guidAt body off =
     (if off + 16 > length body then Inl (Errorf ''ACE body is too short'')
      else slice body off (off + 16))"

text \<open>The optional GUIDs of a callback object body: their texts and the next offset.\<close>

definition guid_opt_text :: "bool \<Rightarrow> bytes \<Rightarrow> nat \<Rightarrow> (string \<times> nat) result" where
  "guid_opt_text present body off =
     (if present then bindE (guidAt body off) (\<lambda>g. Inr (formatGUID g, off + 16)) else Inr ([], off))"

definition callback_guids :: "'m ace_abi_scheme \<Rightarrow> u8 \<Rightarrow> bytes \<Rightarrow> (string \<times> string \<times> nat) result" where
  "callback_guids U t body =
     (if t = AceAccessAllowedCallbackObject U then
        (if length body < 8 then Inl (Errorf ''ACE body is too short'')
         else
           bindE (bindE (slice body 4 8) get_le32) (\<lambda>present.
           bindE (guid_opt_text (present AND ObjectTypePresent U \<noteq> 0) body 8) (\<lambda>(obj, off).
           bindE (guid_opt_text (present AND InheritedObjectTypePresent U \<noteq> 0) body off) (\<lambda>(inh, off).
           Inr (obj, inh, off)))))
      else Inr ([], [], 4))"

definition ace_text :: "string list \<Rightarrow> string" where
  "ace_text fs = ''('' @ join_with CHR '';'' fs @ '')''"

definition formatCallbackACE :: "'m ace_abi_scheme \<Rightarrow> ACE \<Rightarrow> string \<Rightarrow> options \<Rightarrow> string result" where
  "formatCallbackACE U a tag opt =
     (let body = (case aRaw a of None \<Rightarrow> [] | Some b \<Rightarrow> b) in
      if length body < 4 then Inl (Errorf ''ACE body is too short'')
      else
        bindE (bindE (slice body 0 4) get_le32) (\<lambda>msk.
        bindE (callback_guids U (aType a) body) (\<lambda>(obj, inh, off).
        if off > length body then Inl (Errorf ''ACE body is too short'')
        else
          bindE (bindE (slice_from body off) (\<lambda>b. wrapE ''ACE: '' (ParseSID b))) (\<lambda>sid.
          let off = off + length (SID_Bytes sid) in
          if off > length body then Inl (Errorf ''ACE body is too short'')
          else
            bindE (bindE (slice_from body off) (\<lambda>b. wrapE ''ACE: '' (decodeCondition b opt))) (\<lambda>cond.
            Inr (ace_text [tag, aceFlagsToText U (aFlags a), formatMask msk, obj, inh, formatSID opt sid,
                   ''('' @ cond @ '')''])))))) "

definition formatACE :: "'m ace_abi_scheme \<Rightarrow> ACE \<Rightarrow> options \<Rightarrow> string result" where
  "formatACE U a opt =
     (case aceTagByType U (aType a) of
        None \<Rightarrow> Inl (Errorf ''ACE type has no SDDL tag'')
      | Some tag \<Rightarrow>
          if \<not> aceTypeSupported U (aType a) then Inl (Errorf ''ACE type is not yet supported'')
          else if bit_clear (aFlags a) (knownAceFlags U) \<noteq> 0
          then Inl (Errorf ''ACE carries flag bits with no SDDL representation'')
          else if isCallbackType U (aType a) then formatCallbackACE U a tag opt
          else
            let guid = (\<lambda>g. case g of None \<Rightarrow> [] | Some b \<Rightarrow> formatGUID b) in
            Inr (ace_text [tag, aceFlagsToText U (aFlags a), formatMask (aMask a), guid (aObjectType a),
                   guid (aInheritedObjectType a), formatSID opt (aSID a)]))"

fun formatACEs :: "'m ace_abi_scheme \<Rightarrow> ACE list \<Rightarrow> options \<Rightarrow> string result" where
  "formatACEs U [] opt = Inr []"
| "formatACEs U (a # as) opt =
     bindE (wrapE ''libp/sddl: ACE: '' (formatACE U a opt)) (\<lambda>s.
     bindE (formatACEs U as opt) (\<lambda>t. Inr (s @ t)))"

definition formatACLFlags :: "'m sd_abi_scheme \<Rightarrow> u16 \<Rightarrow> bool \<Rightarrow> string" where
  "formatACLFlags U c isSACL =
     (if c AND (if isSACL then ControlSACLProtected U else ControlDACLProtected U) \<noteq> 0 then ''P'' else [])
     @ (if c AND (if isSACL then controlSACLAutoInheritReq else controlDACLAutoInheritReq) \<noteq> 0
        then ''AR'' else [])
     @ (if c AND (if isSACL then ControlSACLAutoInherited U else ControlDACLAutoInherited U) \<noteq> 0
        then ''AI'' else [])"

definition formatACLSection ::
  "'m ace_abi_scheme \<Rightarrow> string \<Rightarrow> ACL option \<Rightarrow> string \<Rightarrow> options \<Rightarrow> string result" where
  "formatACLSection U prefix acl flags opt =
     (case acl of
        None \<Rightarrow> Inr (if flags \<noteq> [] then prefix @ flags @ ''NO_ACCESS_CONTROL'' else [])
      | Some l \<Rightarrow> bindE (formatACEs U (Entries l) opt) (\<lambda>t. Inr (prefix @ flags @ t)))"

definition formatDescriptor :: "'m sd_abi_scheme \<Rightarrow> Descriptor \<Rightarrow> options \<Rightarrow> string result" where
  "formatDescriptor U d opt =
     (let ow = (if IsValid (dOwner d) then ''O:'' @ formatSID opt (dOwner d) else []);
          gr = (if IsValid (dGroup d) then ''G:'' @ formatSID opt (dGroup d) else [])
      in if (dControl d AND ControlDACLPresent U \<noteq> 0 \<and> dDACL d = None)
            \<or> (dControl d AND ControlSACLPresent U \<noteq> 0 \<and> dSACL d = None)
         then Inl (Errorf ''libp/sddl: ACL presence and data disagree'')
         else
           bindE (formatACLSection U ''D:'' (dDACL d) (formatACLFlags U (dControl d) False) opt) (\<lambda>da.
           bindE (formatACLSection U ''S:'' (dSACL d) (formatACLFlags U (dControl d) True) opt) (\<lambda>sa.
           let b = ow @ gr @ da @ sa in
           Inr (if b = [] then ''D:NO_ACCESS_CONTROL'' else b))))"

definition Format :: "'m sd_abi_scheme \<Rightarrow> Descriptor \<Rightarrow> (options \<Rightarrow> options) list \<Rightarrow> string result" where
  "Format U d opts = formatDescriptor U d (collect opts)"

end
