(* ===== verification/SddlRound.thy ===== *)
theory SddlRound
  imports Sddl
begin

text \<open>
  The correctness of the SDDL parser and printer of \<^verbatim>\<open>Sddl\<close>: \<open>Parse\<close> inverts \<open>Format\<close> on
  descriptors of structured entries, in every resolution context, up to the control bits
  SDDL has no letters for; the parser never panics on any input; and an owner whose
  authority needs the hexadecimal form and which has no sub-authorities is mis-scanned.
\<close>

section \<open>Plain texts\<close>

text \<open>The characters of the fields the printer writes: none of them is a delimiter.\<close>

definition plain :: "char \<Rightarrow> bool" where
  "plain c \<longleftrightarrow> isIdentChar c \<or> c = CHR ''-''"

lemma plain_not:
  assumes "plain c"
  shows "c \<noteq> CHR ''(''" "c \<noteq> CHR '')''" "c \<noteq> CHR '';''" "c \<noteq> CHR '':''"
  using assms by (auto simp: plain_def isIdentChar_def isIdentStart_def in_range_def)

lemma is_dec_plain: "is_dec c \<Longrightarrow> plain c"
  by (auto simp: is_dec_def plain_def isIdentChar_def in_range_def)

lemma is_lower_hex_plain: "is_lower_hex c \<Longrightarrow> plain c"
  by (auto simp: is_lower_hex_def is_dec_plain) (auto simp: plain_def isIdentChar_def isIdentStart_def in_range_def)

lemma FormatUint_plain [simp]:
  "list_all plain (FormatUint n 10)" "list_all plain (FormatUint n 16)"
  by (auto simp: list_all_iff intro: is_dec_plain is_lower_hex_plain FormatUint_dec FormatUint_hex)

lemma plain_consts [simp]: "list_all plain ''0x''" "list_all plain ''S-1-''" "plain CHR ''-''" "plain CHR ''S''"
  "plain CHR ''0''" "plain CHR ''x''" "plain CHR ''1''"
  by code_simp+

lemma alias_plain: "list_all (list_all plain) (map fst sidAliases)"
  unfolding sidAliases_def list.map fst_conv by code_simp

lemma formatSID_cases:
  obtains (named) e where "(formatSID opt s, e) \<in> set sidAliases" | (literal) "formatSID opt s = SID_String s"
proof -
  have "(\<exists>e. (formatSID opt s, e) \<in> set sidAliases) \<or> formatSID opt s = SID_String s"
    by (auto simp: formatSID_def split: option.splits if_splits
        elim!: absAliasBySID_sound relativeAlias_sound)
  then show ?thesis using that by blast
qed

lemma SID_String_plain: "valid_sid s \<Longrightarrow> list_all plain (SID_String s)"
  by (auto simp: SID_String_def list_all_iff [of _ "concat _"]
      dest: valid_sid_IsValid intro: is_dec_plain FormatUint_dec)

lemma formatSID_plain: "valid_sid s \<Longrightarrow> list_all plain (formatSID opt s)"
proof (cases rule: formatSID_cases [of opt s])
  case (named e)
  then have "formatSID opt s \<in> set (map fst sidAliases)" by force
  then show ?thesis using alias_plain unfolding list_all_iff [of "list_all plain"] by blast
qed (simp add: SID_String_plain)

lemma formatMask_plain: "list_all plain (formatMask m)"
  by (simp add: formatMask_def)

lemma hex_Encode_plain: "list_all plain (hex_EncodeToString bs)"
proof -
  have "plain (digit_char d)" if "d < 16" for d
    using that digit_char_hex is_lower_hex_plain by blast
  then show ?thesis
    using unsigned_less [of "_ :: u8", where 'a = nat]
    by (auto simp: hex_EncodeToString_def list_all_iff less_mult_imp_div_less)
qed

lemma formatGUID_plain: "list_all plain (formatGUID g)"
  using hex_Encode_plain [of "guid_swap g"]
  by (auto simp: formatGUID_def Let_def list_all_iff dest: in_set_takeD in_set_dropD)

lemma aceTag_plain: "aceTagByType U t = Some tag \<Longrightarrow> list_all plain tag"
proof -
  assume "aceTagByType U t = Some tag"
  then have "(tag, t) \<in> set (aceTypeTags U)"
    by (rule aceTagByType_sound [THEN map_of_SomeD])
  then have "tag \<in> set (map fst (aceTypeTags U))" by force
  moreover have "list_all (list_all plain) (map fst (aceTypeTags U))"
    unfolding aceTypeTags_def list.map fst_conv by code_simp
  ultimately show ?thesis unfolding list_all_iff [of "list_all plain"] by blast
qed

lemma aceFlagsToText_plain: "list_all plain (aceFlagsToText U f)"
proof -
  have "list_all (list_all plain) (map snd (aceFlagText U))"
    unfolding aceFlagText_def list.map snd_conv by code_simp
  then show ?thesis by (auto simp: aceFlagsToText_def list_all_iff)
qed

lemmas field_plain = formatSID_plain formatMask_plain formatGUID_plain aceTag_plain aceFlagsToText_plain

section \<open>ACEs\<close>

lemma split_fields_field:
  "list_all plain f \<Longrightarrow> split_fields 0 st w (f @ CHR '';'' # r)
     = (w @ f, st) # split_fields 0 (st + length (w @ f) + 1) [] r"
  by (induction f arbitrary: w) (auto simp: plain_not)

lemma split_fields_last: "list_all plain f \<Longrightarrow> split_fields 0 st w f = [(w @ f, st)]"
  by (induction f arbitrary: w) (auto simp: plain_not)

lemma splitFields_join:
  "fs \<noteq> [] \<Longrightarrow> list_all (list_all plain) fs \<Longrightarrow> map fst (splitFields (join_with CHR '';'' fs) off) = fs"
proof (induction fs arbitrary: off rule: induct_list012)
  case (3 f g fs)
  then show ?case by (simp add: splitFields_def split_fields_field)
qed (simp_all add: splitFields_def split_fields_last)

lemma match_paren_plain:
  "list_all (\<lambda>c. c \<noteq> CHR ''('' \<and> c \<noteq> CHR '')'') b \<Longrightarrow>
   match_paren d (b @ r) = map_option ((+) (length b)) (match_paren d r)"
  by (induction b) (cases "match_paren d r"; auto)+

lemma plain_no_paren:
  "list_all plain f \<Longrightarrow> list_all (\<lambda>c. c \<noteq> CHR ''('' \<and> c \<noteq> CHR '')'') f"
  by (erule list.pred_mono_strong) (simp add: plain_not)

lemma join_plain:
  "list_all (list_all plain) fs \<Longrightarrow> list_all (\<lambda>c. c \<noteq> CHR ''('' \<and> c \<noteq> CHR '')'') (join_with CHR '';'' fs)"
proof (induction fs rule: induct_list012)
  case (3 f g fs)
  then show ?case by (simp add: plain_no_paren)
qed (simp_all add: plain_no_paren)

lemma scanACE_text:
  assumes "fs \<noteq> []" and "list_all (list_all plain) fs"
  shows "scanACE U R opt (i, ace_text fs @ r) =
    bindE (parseACEBody U R (join_with CHR '';'' fs) (i + 1) opt) (\<lambda>a. Inr (a, i + length (ace_text fs), r))"
proof -
  let ?b = "join_with CHR '';'' fs"
  have "match_paren 0 (ace_text fs @ r) = Some (length ?b + 1)"
    by (simp add: ace_text_def match_paren_plain join_plain [OF assms(2)])
  then show ?thesis by (simp add: scanACE_def ace_text_def slice_in)
qed

text \<open>The entries SDDL has a structured form for.\<close>

definition sddl_ace :: "'m ace_abi_scheme \<Rightarrow> ACE \<Rightarrow> bool" where
  "sddl_ace U a \<longleftrightarrow> aceTypeSupported U (aType a) \<and> \<not> isCallbackType U (aType a)
     \<and> bit_clear (aFlags a) (knownAceFlags U) = 0 \<and> valid_sid (aSID a) \<and> aRaw a = None
     \<and> (isObjectType U (aType a) \<or> aObjectType a = None \<and> aInheritedObjectType a = None)
     \<and> guid_ok (aObjectType a) \<and> guid_ok (aInheritedObjectType a)"

lemma at_off_Inr [simp]: "at_off i (Inr x) = Inr x"
  by (simp add: at_off_def)

lemma formatSID_nonempty: "valid_sid s \<Longrightarrow> formatSID opt s \<noteq> []"
  by (cases rule: formatSID_cases [of opt s]) (auto simp: SID_String_def dest: alias_facts(3) valid_sid_IsValid)

lemma formatGUID_nonempty: "formatGUID g \<noteq> []"
  by (simp add: formatGUID_def Let_def)

lemma guid_text_format:
  "guid_ok g \<Longrightarrow> guid_text (case g of None \<Rightarrow> [] | Some b \<Rightarrow> formatGUID b) off = Inr g"
  by (auto simp: guid_text_def guid_ok_def formatGUID_nonempty parseGUID_formatGUID split: option.splits)

lemma scanACE_formatACE:
  assumes "single_bits (flag_bits U)" and "sddl_ace U a"
  obtains t where "formatACE U a opt = Inr t" "t \<noteq> []" "hd t = CHR ''(''" "last t = CHR '')''"
    "\<And>i r. scanACE U R opt (i, t @ r) = Inr (a, i + length t, r)"
proof -
  obtain tag where tag: "aceTagByType U (aType a) = Some tag"
    using assms(2) aceTagByType_ex by (auto simp: sddl_ace_def)
  let ?g = "\<lambda>g. case g of None \<Rightarrow> [] | Some b \<Rightarrow> formatGUID b"
  let ?fs = "[tag, aceFlagsToText U (aFlags a), formatMask (aMask a), ?g (aObjectType a),
    ?g (aInheritedObjectType a), formatSID opt (aSID a)]"
  have pl: "list_all (list_all plain) ?fs"
    using assms(2) by (auto simp: sddl_ace_def field_plain aceTag_plain [OF tag] split: option.splits)
  have f: "formatACE U a opt = Inr (ace_text ?fs)"
    using assms(2) by (simp add: formatACE_def tag sddl_ace_def Let_def)
  have "parseACEBody U R (join_with CHR '';'' ?fs) off opt = Inr a" for off
  proof -
    obtain ps where ps: "splitFields (join_with CHR '';'' ?fs) off = ps" "map fst ps = ?fs"
      using splitFields_join [OF _ pl] by blast
    have "length (map fst ps) = 6" unfolding ps(2) by simp
    then have l: "length ps = 6" by simp
    have n: "fst (ps ! k) = ?fs ! k" if "k < 6" for k
      using that l ps(2) by (metis nth_map)
    have "parseStructuredACE U R (aType a) ps opt = Inr a"
      using assms n [of 1] n [of 2] n [of 3] n [of 4] n [of 5]
      by (auto simp: parseStructuredACE_def Let_def l sddl_ace_def textToAceFlags_roundtrip
          parseMask_formatMask parseGUIDFields_def guid_text_format principal_def formatSID_nonempty
          parseSIDText_formatSID zero_ACE_def)
    then show ?thesis
      using assms(2) n [of 0] l aceTagByType_sound [OF tag]
      unfolding parseACEBody_def ps(1) Let_def by (simp add: sddl_ace_def)
  qed
  then have "scanACE U R opt (i, ace_text ?fs @ r) = Inr (a, i + length (ace_text ?fs), r)" for i r
    by (subst scanACE_text [OF _ pl]) simp_all
  then show ?thesis by (intro that [OF f]) (simp_all add: ace_text_def)
qed

lemma scan_aces_formatACEs:
  assumes "single_bits (flag_bits U)" and "list_all (sddl_ace U) as"
  obtains t where "formatACEs U as opt = Inr t" "t = [] \<or> hd t = CHR ''('' \<and> last t = CHR '')''"
    "\<And>i r. r = [] \<or> hd r \<noteq> CHR ''('' \<Longrightarrow> scan_aces U R opt (i, t @ r) = Inr (as, i + length t, r)"
  using assms(2)
proof (induction as arbitrary: thesis)
  case Nil
  show ?case by (rule Nil.prems(1) [of "[]"]) (auto simp: scan_aces.simps)
next
  case (Cons a as)
  obtain t where t: "formatACE U a opt = Inr t" "t \<noteq> []" "hd t = CHR ''(''" "last t = CHR '')''"
      "\<And>i r. scanACE U R opt (i, t @ r) = Inr (a, i + length t, r)"
    using scanACE_formatACE [OF assms(1), of a opt R] Cons.prems(2) by auto
  obtain u where u: "formatACEs U as opt = Inr u" "u = [] \<or> hd u = CHR ''('' \<and> last u = CHR '')''"
      "\<And>i r. r = [] \<or> hd r \<noteq> CHR ''('' \<Longrightarrow> scan_aces U R opt (i, u @ r) = Inr (as, i + length u, r)"
    using Cons.IH Cons.prems(2) by auto
  show ?case
  proof (rule Cons.prems(1) [of "t @ u"])
    show "scan_aces U R opt (i, (t @ u) @ r) = Inr (a # as, i + length (t @ u), r)"
      if "r = [] \<or> hd r \<noteq> CHR ''(''" for i r
      using t(2,3) t(5) [of i "u @ r"] u(3) [OF that, of "i + length t"]
      by (subst scan_aces.simps) (simp add: ac_simps)
  qed (use t u in \<open>auto simp: last_append\<close>)
qed

section \<open>ACL flags\<close>

text \<open>Where the flag run of an ACL ends.\<close>

definition acl_stop :: "string \<Rightarrow> bool" where
  "acl_stop r \<longleftrightarrow> r = [] \<or> hd r = CHR ''('' \<or> length r > 1 \<and> isComponentTag (hd r) \<and> r ! 1 = CHR '':''"

lemma acl_stop_hd: "acl_stop r \<Longrightarrow> r = [] \<or> hd r \<noteq> CHR '':''"
  by (auto simp: acl_stop_def isComponentTag_def)

lemma scan_flags_stop: "acl_stop r \<Longrightarrow> scan_flags (i, r) = Inr ([], i, r)"
  by (cases r) (auto simp: acl_stop_def hd_conv_nth)

lemma isFlagChar_not: "isFlagChar c \<Longrightarrow> c \<noteq> CHR ''('' \<and> c \<noteq> CHR '':''"
  by (auto simp: isFlagChar_def in_range_def)

lemma scan_flags_run:
  "list_all isFlagChar w \<Longrightarrow> acl_stop r \<Longrightarrow> scan_flags (i, w @ r) = Inr (w, i + length w, r)"
proof (induction w arbitrary: i)
  case (Cons c w)
  then have "w @ r = [] \<or> hd (w @ r) \<noteq> CHR '':''"
    using acl_stop_hd [of r] by (cases w) (auto dest!: isFlagChar_not)
  with Cons show ?case by (auto dest!: isFlagChar_not)
qed (simp add: scan_flags_stop)

definition flag_text :: "acl_flags \<Rightarrow> string" where
  "flag_text f = (if protected f then ''P'' else []) @ (if autoInheritReq f then ''AR'' else [])
     @ (if autoInherited f then ''AI'' else []) @ (if nullACL f then ''NO_ACCESS_CONTROL'' else [])"

lemma flag_text_chars: "list_all isFlagChar (flag_text f)" "map upper (flag_text f) = flag_text f"
  by (auto simp: flag_text_def isFlagChar_def in_range_def upper_def)

lemma parseACLFlags_flag_text: "parseACLFlags (flag_text f) = Inr f"
  by (cases f) (auto simp: parseACLFlags_def flag_text_def no_acl_flags_def acl_flag_run.simps has_prefix_def)

section \<open>SIDs of the owner and the group\<close>

definition sec_stop :: "string \<Rightarrow> bool" where
  "sec_stop r \<longleftrightarrow> r = [] \<or> hd r \<in> {CHR ''G'', CHR ''D'', CHR ''S''}"

definition num_stop :: "string \<Rightarrow> bool" where
  "num_stop r \<longleftrightarrow> r = [] \<or> hd r \<in> {CHR ''-'', CHR ''G'', CHR ''D'', CHR ''S''}"

lemma takeWhile_stop:
  "list_all P w \<Longrightarrow> r = [] \<or> \<not> P (hd r) \<Longrightarrow> takeWhile P (w @ r) = w"
  by (cases r) (simp_all add: list_all_iff takeWhile_append)

lemma num_stop_dec: "num_stop r \<Longrightarrow> r = [] \<or> \<not> is_dec (hd r)"
  by (auto simp: num_stop_def is_dec_def)

lemma scanNumber_dec:
  assumes "num_stop r"
  shows "scanNumber (i, FormatUint n 10 @ r) = (True, i + length (FormatUint n 10), r)"
proof -
  let ?w = "FormatUint n 10"
  have d: "list_all is_dec ?w" by (auto simp: list_all_iff FormatUint_dec)
  obtain c w where w: "?w = c # w" by (meson FormatUint_nonempty neq_Nil_conv)
  have "\<not> has_prefix (?w @ r) [CHR ''0'', x]" if "x \<in> {CHR ''x'', CHR ''X''}" for x
  proof (cases w)
    case Nil
    then show ?thesis using that assms by (cases r) (auto simp: has_prefix_def w num_stop_def)
  next
    case (Cons y ys)
    then show ?thesis using that d by (auto simp: has_prefix_def w is_dec_def)
  qed
  then show ?thesis
    using takeWhile_stop [OF d num_stop_dec [OF assms]] by (simp add: scanNumber_def)
qed

lemma scanNumber_hex:
  assumes "r = [] \<or> \<not> isHexDigit (hd r)"
  shows "scanNumber (i, ''0x'' @ FormatUint n 16 @ r) = (True, i + length (''0x'' @ FormatUint n 16), r)"
proof -
  have "list_all isHexDigit (FormatUint n 16)"
    by (auto simp: list_all_iff isHexDigit_def is_lower_hex_def is_dec_def in_range_def dest!: FormatUint_hex)
  from takeWhile_stop [OF this assms] show ?thesis by (simp add: scanNumber_def has_prefix_def)
qed

lemma scan_subs_text:
  assumes "sec_stop r"
  shows "scan_subs (i, concat (map (\<lambda>n. CHR ''-'' # FormatUint (f n) 10) ns) @ r)
    = Inr (i + length (concat (map (\<lambda>n. CHR ''-'' # FormatUint (f n) 10) ns)), r)"
proof (induction ns arbitrary: i)
  case Nil
  show ?case using assms by (auto simp: scan_subs.simps sec_stop_def)
next
  case (Cons n ns)
  let ?r = "concat (map (\<lambda>n. CHR ''-'' # FormatUint (f n) 10) ns) @ r"
  have "num_stop ?r" using assms by (cases ns) (auto simp: num_stop_def sec_stop_def)
  then show ?case
    using Cons.IH by (subst scan_subs.simps) (simp add: scanNumber_dec ac_simps)
qed

text \<open>A SID whose literal form does not end in hexadecimal digits.\<close>

definition scannable :: "SID \<Rightarrow> bool" where
  "scannable s \<longleftrightarrow> authority s < 2 ^ 32 \<or> sub_count s > 0"

lemma scanRawSID_parts:
  assumes "\<And>j. scanNumber (j, a @ w @ r) = (True, j + length a, w @ r)"
    and "\<And>j. scan_subs (j, w @ r) = Inr (j + length w, r)"
  shows "scanRawSID (i, (''S-1-'' @ a @ w) @ r) = Inr (''S-1-'' @ a @ w, i + length (''S-1-'' @ a @ w), r)"
proof -
  have "take (length a + (length w + 4)) (''S-1-'' @ a @ w @ r) = ''S-1-'' @ a @ w"
    by (simp add: eval_nat_numeral)
  then show ?thesis
    using assms by (simp add: scanRawSID_def has_prefix_def ac_simps)
qed

lemma scanRawSID_text:
  assumes "valid_sid s" and "scannable s" and "sec_stop r"
  shows "scanRawSID (i, SID_String s @ r) = Inr (SID_String s, i + length (SID_String s), r)"
proof -
  let ?a = "if authority s \<ge> 2 ^ 32 then ''0x'' @ FormatUint (unat (authority s)) 16
    else FormatUint (unat (authority s)) 10"
  let ?subs = "concat (map (\<lambda>i. CHR ''-'' # FormatUint (unat (sub_at s i)) 10) [0..<sub_count s])"
  have str: "SID_String s = ''S-1-'' @ ?a @ ?subs"
    using assms(1) by (simp add: SID_String_def valid_sid_IsValid)
  have ns: "num_stop (?subs @ r)"
    using assms(3) by (cases "sub_count s") (auto simp: num_stop_def sec_stop_def upt_rec)
  have "scanNumber (j, ?a @ ?subs @ r) = (True, j + length ?a, ?subs @ r)" for j
  proof (cases "authority s \<ge> 2 ^ 32")
    case True
    then have "sub_count s > 0" using assms(2) unfolding scannable_def by (metis leD)
    then have "hd (?subs @ r) = CHR ''-''" by (simp add: upt_rec)
    then show ?thesis
      using True scanNumber_hex [of "?subs @ r" j] by (simp add: isHexDigit_def in_range_def)
  qed (use scanNumber_dec [OF ns] in simp)
  then show ?thesis
    unfolding str by (rule scanRawSID_parts) (rule scan_subs_text [OF assms(3)])
qed

lemma scanSID_formatSID:
  assumes "valid_sid s" and "scannable s" and "sec_stop r"
  shows "scanSID opt (i, formatSID opt s @ r) = Inr (s, i + length (formatSID opt s), r)"
proof (cases rule: formatSID_cases [of opt s])
  case (named e)
  then have "length (formatSID opt s) = 2" "\<not> has_prefix (formatSID opt s) ''S-''"
    using alias_facts by blast+
  then show ?thesis
    using parseSIDText_formatSID [OF assms(1), of opt] by (simp add: scanSID_def has_prefix_def)
next
  case literal
  have "has_prefix (SID_String s @ r) ''S-''"
    using assms(1) by (simp add: has_prefix_def SID_String_def valid_sid_IsValid)
  then show ?thesis
    using parseSIDText_formatSID [OF assms(1), of opt] scanRawSID_text [OF assms]
    by (simp add: scanSID_def literal)
qed

section \<open>The whole descriptor\<close>

lemma parse_component:
  assumes "index_of tag ''OGDS'' = Some idx" and "\<not> seen ! idx"
    and "scan_component U R opt tag d (off + 2, s) = Inr (d', j, r)"
  shows "parse_components U R opt seen d (off, tag # CHR '':'' # s)
    = parse_components U R opt (seen[idx := True]) d' (j, r)"
  using assms by (subst parse_components.simps) (simp add: numeral_2_eq_2)

text \<open>The bits of a control word SDDL has letters for, as the parser restores them.\<close>

definition pick :: "u16 \<Rightarrow> u16 \<Rightarrow> u16" where
  "pick c b = (if c AND b \<noteq> 0 then b else 0)"

definition dacl_control :: "'m sd_abi_scheme \<Rightarrow> Descriptor \<Rightarrow> u16" where
  "dacl_control U d = (if dDACL d \<noteq> None then ControlDACLPresent U else 0)
     OR pick (dControl d) (ControlDACLProtected U) OR pick (dControl d) (ControlDACLAutoInherited U)
     OR pick (dControl d) controlDACLAutoInheritReq"

definition sacl_control :: "'m sd_abi_scheme \<Rightarrow> Descriptor \<Rightarrow> u16" where
  "sacl_control U d = (if dSACL d \<noteq> None then ControlSACLPresent U else 0)
     OR pick (dControl d) (ControlSACLProtected U) OR pick (dControl d) (ControlSACLAutoInherited U)
     OR pick (dControl d) controlSACLAutoInheritReq"

definition sddl_acl :: "'m ace_abi_scheme \<Rightarrow> ACL option \<Rightarrow> bool" where
  "sddl_acl U l \<longleftrightarrow> (case l of None \<Rightarrow> True | Some l \<Rightarrow> list_all (sddl_ace U) (Entries l))"

definition acl_of :: "bool \<Rightarrow> Descriptor \<Rightarrow> ACL option" where
  "acl_of isSACL d = (if isSACL then dSACL d else dDACL d)"

definition entries_of :: "ACL option \<Rightarrow> ACE list" where
  "entries_of l = (case l of None \<Rightarrow> [] | Some l \<Rightarrow> Entries l)"

text \<open>The flags of one ACL of a descriptor.\<close>

definition flags_of :: "'m sd_abi_scheme \<Rightarrow> bool \<Rightarrow> Descriptor \<Rightarrow> acl_flags" where
  "flags_of U isSACL d = \<lparr>
     protected = dControl d AND (if isSACL then ControlSACLProtected U else ControlDACLProtected U) \<noteq> 0,
     autoInherited = dControl d AND (if isSACL then ControlSACLAutoInherited U else ControlDACLAutoInherited U) \<noteq> 0,
     autoInheritReq = dControl d AND (if isSACL then controlSACLAutoInheritReq else controlDACLAutoInheritReq) \<noteq> 0,
     nullACL = acl_of isSACL d = None\<rparr>"

lemma flags_of_null [simp]: "nullACL (flags_of U b d) \<longleftrightarrow> acl_of b d = None"
  by (simp add: flags_of_def)

lemma acl_control_flags_of:
  "acl_control U False (flags_of U False d) = dacl_control U d"
  "acl_control U True (flags_of U True d) = sacl_control U d"
  by (simp_all add: acl_control_def flags_of_def dacl_control_def sacl_control_def pick_def acl_of_def)

lemma flag_text_flags_of:
  "flag_text (flags_of U b d) = formatACLFlags U (dControl d) b
     @ (if acl_of b d = None then ''NO_ACCESS_CONTROL'' else [])"
  by (simp add: flag_text_def flags_of_def formatACLFlags_def)

lemma no_flags_control:
  "formatACLFlags U (dControl d) b = [] \<Longrightarrow> acl_of b d = None \<Longrightarrow> acl_control U b (flags_of U b d) = 0"
  by (cases b) (auto simp: formatACLFlags_def acl_control_def flags_of_def split: if_splits)

text \<open>Entries behind the flag run of a section: the text, and what scanning it does.\<close>

lemma scanACL_text:
  assumes "single_bits (flag_bits U)" and "sddl_acl U (acl_of b d)"
  obtains t where "formatACEs U (entries_of (acl_of b d)) opt = Inr t" "t = [] \<or> hd t = CHR ''('' \<and> last t = CHR '')''"
    "\<And>d0 i r. acl_stop r \<Longrightarrow> r = [] \<or> hd r \<noteq> CHR ''('' \<Longrightarrow>
       scanACL U R opt b d0 (i, flag_text (flags_of U b d) @ t @ r)
       = Inr (set_acl U b (flags_of U b d) (entries_of (acl_of b d)) d0,
           i + length (flag_text (flags_of U b d) @ t), r)"
proof -
  let ?as = "entries_of (acl_of b d)" and ?f = "flags_of U b d"
  have "list_all (sddl_ace U) ?as"
    using assms(2) by (auto simp: entries_of_def sddl_acl_def split: option.splits)
  then obtain t where t: "formatACEs U ?as opt = Inr t" "t = [] \<or> hd t = CHR ''('' \<and> last t = CHR '')''"
      "\<And>i r. r = [] \<or> hd r \<noteq> CHR ''('' \<Longrightarrow> scan_aces U R opt (i, t @ r) = Inr (?as, i + length t, r)"
    using scan_aces_formatACEs [OF assms(1), of ?as opt R] by blast
  have "scanACL U R opt b d0 (i, flag_text ?f @ t @ r)
      = Inr (set_acl U b ?f ?as d0, i + length (flag_text ?f @ t), r)"
    if "acl_stop r" "r = [] \<or> hd r \<noteq> CHR ''(''" for d0 i r
  proof -
    have st: "acl_stop (t @ r)" using t(2) that(1) by (cases "t = []") (auto simp: acl_stop_def)
    have "\<not> (nullACL ?f \<and> t @ r \<noteq> [] \<and> hd (t @ r) = CHR ''('')"
      using that(2) t(1) by (auto simp: entries_of_def)
    then show ?thesis
      using t(3) [OF that(2)] scan_flags_run [OF flag_text_chars(1) st]
      by (simp add: scanACL_def flag_text_chars parseACLFlags_flag_text ac_simps)
  qed
  then show ?thesis using that t by blast
qed

text \<open>One ACL section of the descriptor \<open>d\<close>, read into \<open>d0\<close>, whose ACL is still absent.\<close>

definition sec_tag :: "bool \<Rightarrow> char" where
  "sec_tag b = (if b then CHR ''S'' else CHR ''D'')"

definition solid :: "string \<Rightarrow> bool" where
  "solid t \<longleftrightarrow> t = [] \<or> (of_char (last t) :: nat) < 128 \<and> \<not> IsSpace (of_char (last t))"

lemma list_update_False: "\<not> xs ! i \<Longrightarrow> xs[i := False] = xs"
  by (metis (full_types) list_update_id)

lemma parse_section:
  assumes "single_bits (flag_bits U)" and "sddl_acl U (acl_of b d)"
  obtains t where
    "formatACLSection U [sec_tag b, CHR '':''] (acl_of b d) (formatACLFlags U (dControl d) b) opt = Inr t"
    "t = [] \<or> (\<exists>t'. t = sec_tag b # CHR '':'' # t')" "solid t"
    "\<And>d0 i r seen. r = [] \<or> (\<exists>r'. r = CHR ''S'' # CHR '':'' # r') \<Longrightarrow> acl_of b d0 = None \<Longrightarrow>
       \<not> seen ! (if b then 3 else 2) \<Longrightarrow> length seen = 4 \<Longrightarrow>
       parse_components U R opt seen d0 (i, t @ r)
       = parse_components U R opt (seen[(if b then 3 else 2) := t \<noteq> []])
           (set_acl U b (flags_of U b d) (entries_of (acl_of b d)) d0) (i + length t, r)"
proof -
  obtain t where t: "formatACEs U (entries_of (acl_of b d)) opt = Inr t" "t = [] \<or> hd t = CHR ''('' \<and> last t = CHR '')''"
    "\<And>d0 i r. acl_stop r \<Longrightarrow> r = [] \<or> hd r \<noteq> CHR ''('' \<Longrightarrow>
       scanACL U R opt b d0 (i, flag_text (flags_of U b d) @ t @ r)
       = Inr (set_acl U b (flags_of U b d) (entries_of (acl_of b d)) d0,
           i + length (flag_text (flags_of U b d) @ t), r)"
    using scanACL_text [OF assms, of opt R] by blast
  let ?fl = "formatACLFlags U (dControl d) b"
  show ?thesis
  proof (cases "acl_of b d = None \<and> ?fl = []")
    case True
    have "set_acl U b (flags_of U b d) (entries_of (acl_of b d)) d0 = d0" if "acl_of b d0 = None" for d0
      using that True no_flags_control [of U d b]
      by (cases b) (auto simp: set_acl_def acl_of_def)
    then show ?thesis
      using True by (intro that [of "[]"]) (auto simp: formatACLSection_def solid_def list_update_False)
  next
    case False
    let ?t = "sec_tag b # CHR '':'' # flag_text (flags_of U b d) @ t"
    have f: "formatACLSection U [sec_tag b, CHR '':''] (acl_of b d) ?fl opt = Inr ?t"
      using False t(1) by (cases "acl_of b d") (auto simp: formatACLSection_def flag_text_flags_of entries_of_def)
    have "solid ?t"
      using t(2) by (cases "t = []") (auto simp: solid_def flag_text_def IsSpace_def last_append)
    moreover have "parse_components U R opt seen d0 (i, ?t @ r)
        = parse_components U R opt (seen[(if b then 3 else 2) := True])
           (set_acl U b (flags_of U b d) (entries_of (acl_of b d)) d0) (i + length ?t, r)"
      if "r = [] \<or> (\<exists>r'. r = CHR ''S'' # CHR '':'' # r')" "\<not> seen ! (if b then 3 else 2)" for d0 i r seen
    proof -
      have st: "acl_stop r" "r = [] \<or> hd r \<noteq> CHR ''(''"
        using that(1) by (auto simp: acl_stop_def isComponentTag_def)
      have ix: "index_of (sec_tag b) ''OGDS'' = Some (if b then 3 else 2)"
        by (cases b) (simp_all add: index_of_def sec_tag_def)
      have sc: "scan_component U R opt (sec_tag b) d0 (i + 2, flag_text (flags_of U b d) @ t @ r)
          = Inr (set_acl U b (flags_of U b d) (entries_of (acl_of b d)) d0, i + length ?t, r)"
        using t(3) [OF st, of d0 "i + 2"] by (cases b) (simp_all add: scan_component_def sec_tag_def)
      show ?thesis using parse_component [OF ix that(2) sc] by simp
    qed
    ultimately show ?thesis by (intro that [OF f]) auto
  qed
qed

definition sid_text :: "char \<Rightarrow> SID \<Rightarrow> options \<Rightarrow> string" where
  "sid_text tag s opt = (if IsValid s then [tag, CHR '':''] @ formatSID opt s else [])"

definition sddl_sid :: "SID \<Rightarrow> bool" where
  "sddl_sid s \<longleftrightarrow> s = zero_SID \<or> valid_sid s \<and> scannable s"

lemma sddl_sid_scan:
  assumes "sddl_sid s" and "IsValid s" and "sec_stop r"
  shows "scanSID opt (i, formatSID opt s @ r) = Inr (s, i + length (formatSID opt s), r)"
  using assms by (intro scanSID_formatSID) (auto simp: sddl_sid_def)

lemma parse_owner:
  assumes "sddl_sid s" and "sec_stop r" and "dOwner d0 = zero_SID" and "\<not> seen ! 0"
  shows "parse_components U R opt seen d0 (i, sid_text CHR ''O'' s opt @ r)
    = parse_components U R opt (seen[0 := IsValid s]) (d0\<lparr>dOwner := s\<rparr>) (i + length (sid_text CHR ''O'' s opt), r)"
proof (cases "IsValid s")
  case True
  have "scan_component U R opt CHR ''O'' d0 (i + 2, formatSID opt s @ r)
      = Inr (d0\<lparr>dOwner := s\<rparr>, i + 2 + length (formatSID opt s), r)"
    using sddl_sid_scan [OF assms(1) True assms(2)] by (simp add: scan_component_def)
  from parse_component [OF _ assms(4) this] True show ?thesis by (simp add: sid_text_def index_of_def)
next
  case False
  have e: "d0\<lparr>dOwner := zero_SID\<rparr> = d0" using assms(3) by (cases d0) simp
  show ?thesis
    using False assms by (auto simp: sid_text_def sddl_sid_def list_update_False e)
qed

lemma parse_group:
  assumes "sddl_sid s" and "sec_stop r" and "dGroup d0 = zero_SID" and "\<not> seen ! 1"
  shows "parse_components U R opt seen d0 (i, sid_text CHR ''G'' s opt @ r)
    = parse_components U R opt (seen[1 := IsValid s]) (d0\<lparr>dGroup := s\<rparr>) (i + length (sid_text CHR ''G'' s opt), r)"
proof (cases "IsValid s")
  case True
  have "scan_component U R opt CHR ''G'' d0 (i + 2, formatSID opt s @ r)
      = Inr (d0\<lparr>dGroup := s\<rparr>, i + 2 + length (formatSID opt s), r)"
    using sddl_sid_scan [OF assms(1) True assms(2)] by (simp add: scan_component_def)
  from parse_component [OF _ assms(4) this] True show ?thesis by (simp add: sid_text_def index_of_def)
next
  case False
  have e: "d0\<lparr>dGroup := zero_SID\<rparr> = d0" using assms(3) by (cases d0) simp
  show ?thesis
    using False assms by (auto simp: sid_text_def sddl_sid_def list_update_False e)
qed

section \<open>White space\<close>

lemma unat_of_char: "unat (of_nat (of_char c) :: u8) = of_char c"
proof -
  have "char_of (unat (of_nat (of_char c) :: u8)) = c"
    using string_of_bytes_of [of "[c]"] by (simp add: string_of_def bytes_of_def)
  then have "of_char (char_of (unat (of_nat (of_char c) :: u8)) :: char) = (of_char c :: nat)" by (rule arg_cong)
  moreover have "unat (of_nat (of_char c) :: u8) < 256"
    using unsigned_less [of "of_nat (of_char c) :: u8"] by simp
  ultimately show ?thesis by simp
qed

lemma TrimSpace_solid:
  assumes "s \<noteq> []" and "(of_char (hd s) :: nat) < 128" and "\<not> IsSpace (of_char (hd s))" and "solid s"
  shows "TrimSpace s = s"
proof -
  have l: "trim_left (bytes_of s) = bytes_of s"
    using assms(1-3) by (subst trim_left.simps, cases s)
      (auto simp: bytes_of_def decode_rune_def unat_of_char)
  have "unat (last (bytes_of s)) = of_char (last s)"
    using assms(1) by (simp add: bytes_of_def last_map unat_of_char)
  then have "trim_right (bytes_of s) = bytes_of s"
    using assms(1,4) by (subst trim_right.simps) (auto simp: last_rune_def solid_def)
  with l show ?thesis by (simp add: TrimSpace_def)
qed

section \<open>Format and Parse\<close>

definition sddl_desc :: "'m sd_abi_scheme \<Rightarrow> Descriptor \<Rightarrow> bool" where
  "sddl_desc U d \<longleftrightarrow> sddl_sid (dOwner d) \<and> sddl_sid (dGroup d) \<and> sddl_acl U (dDACL d) \<and> sddl_acl U (dSACL d)
     \<and> (dControl d AND ControlDACLPresent U \<noteq> 0 \<longrightarrow> dDACL d \<noteq> None)
     \<and> (dControl d AND ControlSACLPresent U \<noteq> 0 \<longrightarrow> dSACL d \<noteq> None)"

definition sddl_view :: "'m sd_abi_scheme \<Rightarrow> Descriptor \<Rightarrow> Descriptor" where
  "sddl_view U d = d\<lparr>dControl := dacl_control U d OR sacl_control U d\<rparr>"

lemma sid_text_shape:
  "sddl_sid s \<Longrightarrow> sid_text tag s opt = [] \<or> (\<exists>t. sid_text tag s opt = tag # CHR '':'' # t)"
  by (auto simp: sid_text_def)

lemma plain_solid: "w \<noteq> [] \<Longrightarrow> list_all plain w \<Longrightarrow> solid w"
proof -
  assume "w \<noteq> []" "list_all plain w"
  then have "plain (last w)" by (simp add: list_all_iff)
  then have "45 \<le> (of_char (last w) :: nat)" "(of_char (last w) :: nat) < 128"
    by (auto simp: plain_def isIdentChar_def isIdentStart_def in_range_def)
  then show ?thesis by (auto simp: solid_def IsSpace_def)
qed

lemma sid_text_solid: "sddl_sid s \<Longrightarrow> solid (sid_text tag s opt)"
proof (cases "IsValid s")
  case True
  moreover assume "sddl_sid s"
  ultimately have "valid_sid s" by (auto simp: sddl_sid_def)
  then have "formatSID opt s \<noteq> []" "solid (formatSID opt s)"
    using formatSID_nonempty formatSID_plain plain_solid by blast+
  with True show ?thesis by (simp add: sid_text_def solid_def)
qed (simp add: sid_text_def solid_def)

lemma solid_append: "solid a \<Longrightarrow> solid b \<Longrightarrow> solid (a @ b)"
  by (auto simp: solid_def last_append)

lemma view_eq:
  "set_acl U True (flags_of U True d) (entries_of (dSACL d))
     (set_acl U False (flags_of U False d) (entries_of (dDACL d))
       (zero_Descriptor\<lparr>dOwner := dOwner d, dGroup := dGroup d\<rparr>)) = sddl_view U d"
  unfolding set_acl_def Let_def acl_control_flags_of sddl_view_def
  by (cases d) (auto simp: zero_Descriptor_def entries_of_def acl_of_def split: option.splits)

lemma set_acl_frame:
  "dSACL (set_acl U False f as d) = dSACL d"
  by (simp add: set_acl_def Let_def)

lemma parse_components_end: "parse_components U R opt seen d (i, []) = Inr d"
  by (simp add: parse_components.simps)

lemma scanACL_flags_only:
  "scanACL U R opt b d (i, flag_text f) = Inr (set_acl U b f [] d, i + length (flag_text f), [])"
proof -
  have "scan_flags (i, flag_text f) = Inr (flag_text f, i + length (flag_text f), [])"
    using scan_flags_run [OF flag_text_chars(1), of "[]"] by (simp add: acl_stop_def)
  then show ?thesis
    by (simp add: scanACL_def flag_text_chars parseACLFlags_flag_text scan_aces.simps)
qed

lemma parse_null: "parser_parse U R opt ''D:NO_ACCESS_CONTROL'' = Inr zero_Descriptor"
proof -
  define f where "f = no_acl_flags\<lparr>nullACL := True\<rparr>"
  have t: "''D:NO_ACCESS_CONTROL'' = CHR ''D'' # CHR '':'' # flag_text f"
    by (simp add: flag_text_def f_def no_acl_flags_def)
  have "set_acl U False f [] zero_Descriptor = zero_Descriptor"
    by (simp add: set_acl_def acl_control_def f_def no_acl_flags_def zero_Descriptor_def)
  then have "scan_component U R opt CHR ''D'' zero_Descriptor (0 + 2, flag_text f)
      = Inr (zero_Descriptor, 0 + 2 + length (flag_text f), [])"
    by (simp add: scan_component_def scanACL_flags_only)
  from parse_component [OF _ _ this, of 2 "replicate 4 False"] show ?thesis
    unfolding t parser_parse_def by (simp add: index_of_def parse_components_end)
qed

text \<open>The text of a descriptor and what reading it does.\<close>

lemma formatDescriptor_parse:
  assumes "single_bits (flag_bits U)" and "sddl_desc U d"
  obtains t where "formatDescriptor U d opt = Inr t" "TrimSpace t = t" "parser_parse U R opt t = Inr (sddl_view U d)"
proof -
  have "sddl_acl U (acl_of b d)" for b using assms(2) by (simp add: sddl_desc_def acl_of_def)
  note sec = parse_section [OF assms(1) this, of _ opt R]
  obtain da where da: "formatACLSection U ''D:'' (dDACL d) (formatACLFlags U (dControl d) False) opt = Inr da"
      "da = [] \<or> (\<exists>t. da = CHR ''D'' # CHR '':'' # t)" "solid da"
      "\<And>d0 i r seen. r = [] \<or> (\<exists>r'. r = CHR ''S'' # CHR '':'' # r') \<Longrightarrow> dDACL d0 = None \<Longrightarrow>
       \<not> seen ! 2 \<Longrightarrow> length seen = 4 \<Longrightarrow>
       parse_components U R opt seen d0 (i, da @ r) = parse_components U R opt (seen[2 := da \<noteq> []])
           (set_acl U False (flags_of U False d) (entries_of (dDACL d)) d0) (i + length da, r)"
    by (rule sec [of False]) (simp add: sec_tag_def acl_of_def)
  obtain sa where sa: "formatACLSection U ''S:'' (dSACL d) (formatACLFlags U (dControl d) True) opt = Inr sa"
      "sa = [] \<or> (\<exists>t. sa = CHR ''S'' # CHR '':'' # t)" "solid sa"
      "\<And>d0 i r seen. r = [] \<or> (\<exists>r'. r = CHR ''S'' # CHR '':'' # r') \<Longrightarrow> dSACL d0 = None \<Longrightarrow>
       \<not> seen ! 3 \<Longrightarrow> length seen = 4 \<Longrightarrow>
       parse_components U R opt seen d0 (i, sa @ r) = parse_components U R opt (seen[3 := sa \<noteq> []])
           (set_acl U True (flags_of U True d) (entries_of (dSACL d)) d0) (i + length sa, r)"
    by (rule sec [of True]) (simp add: sec_tag_def acl_of_def)
  let ?o = "sid_text CHR ''O'' (dOwner d) opt" and ?g = "sid_text CHR ''G'' (dGroup d) opt"
  let ?t = "?o @ ?g @ da @ sa"
  have og: "sddl_sid (dOwner d)" "sddl_sid (dGroup d)" using assms(2) by (simp_all add: sddl_desc_def)
  have st: "sec_stop (?g @ da @ sa)" "sec_stop (da @ sa)"
    using da(2) sa(2) by (auto simp: sec_stop_def sid_text_def)
  have p: "parser_parse U R opt ?t = Inr (sddl_view U d)"
    unfolding parser_parse_def
    using parse_owner [OF og(1) st(1), of zero_Descriptor "replicate 4 False" U R]
      parse_group [OF og(2) st(2), of "zero_Descriptor\<lparr>dOwner := dOwner d\<rparr>" _ U R]
      da(4) [OF sa(2)] sa(4) [of "[]"]
    by (simp add: zero_Descriptor_def eval_nat_numeral set_acl_frame parse_components_end view_eq [symmetric])
  have f: "formatDescriptor U d opt = Inr (if ?t = [] then ''D:NO_ACCESS_CONTROL'' else ?t)"
    using assms(2) da(1) sa(1) by (auto simp: formatDescriptor_def sddl_desc_def Let_def sid_text_def)
  show ?thesis
  proof (cases "?t = []")
    case True
    then have v: "sddl_view U d = zero_Descriptor" using p by (simp add: parser_parse_def parse_components_end)
    have "TrimSpace ''D:NO_ACCESS_CONTROL'' = ''D:NO_ACCESS_CONTROL''"
      by (rule TrimSpace_solid) (simp_all add: solid_def IsSpace_def)
    then show ?thesis using f that True parse_null [of U R opt] unfolding v by simp
  next
    case False
    have "hd ?t \<in> {CHR ''O'', CHR ''G'', CHR ''D'', CHR ''S''}"
      using False da(2) sa(2) by (auto simp: sid_text_def)
    then have "TrimSpace ?t = ?t"
      using False og da(3) sa(3)
      by (intro TrimSpace_solid solid_append sid_text_solid) (auto simp: IsSpace_def)
    moreover have "formatDescriptor U d opt = Inr ?t" using f False by (simp only: if_False)
    ultimately show ?thesis using that p by blast
  qed
qed

text \<open>C2
  \<open>Parse\<close> inverts \<open>Format\<close>: a descriptor of structured entries (every supported type but the
  callback types, known flags, valid SIDs) is rendered without error, with and without
  owner, group and ACLs and in every resolution context of aliases, and parsing the text
  under the same options gives the descriptor back, its control word reduced to the bits
  SDDL has letters for. The one restriction on owner and group is \<open>scannable\<close>.\<close>

theorem Parse_Format:
  assumes "single_bits (flag_bits U)" and "sddl_desc U d"
  shows "\<exists>t. Format U d opts = Inr t \<and> Parse U R t opts = Inr (sddl_view U d)"
proof -
  obtain t where "formatDescriptor U d (collect opts) = Inr t" "TrimSpace t = t"
      "parser_parse U R (collect opts) t = Inr (sddl_view U d)"
    using formatDescriptor_parse [OF assms] by blast
  then show ?thesis unfolding Format_def Parse_def by (metis (no_types))
qed

definition sample_sddl :: Descriptor where
  "sample_sddl = \<lparr>dControl = ControlDACLPresent ms_dtyp OR ControlDACLProtected ms_dtyp, dOwner = wk_SID LocalSystem,
     dGroup = zero_SID, dDACL = Some \<lparr>Entries = [Allow ms_dtyp (wk_SID BuiltinUsers) 0x1200a9]\<rparr>, dSACL = None\<rparr>"

lemma sample_sddl_ok: "sddl_desc ms_dtyp sample_sddl"
proof -
  have "sddl_ace ms_dtyp (Allow ms_dtyp (wk_SID BuiltinUsers) 0x1200a9)"
    by (simp add: sddl_ace_def Allow_def zero_ACE_def wk_SID_valid guid_ok_def) code_simp
  moreover have "scannable (wk_SID LocalSystem)" by code_simp
  ultimately show ?thesis
    by (simp add: sddl_desc_def sample_sddl_def sddl_sid_def wk_SID_valid sddl_acl_def ms_dtyp_def)
qed

theorem Parse_Format_witness:
  "\<exists>t. Format ms_dtyp sample_sddl [] = Inr t \<and> Parse ms_dtyp sample_rights t [] = Inr (sddl_view ms_dtyp sample_sddl)"
  by (rule Parse_Format [OF ms_single_bits sample_sddl_ok])

section \<open>Safety of the parser\<close>

text \<open>Resolution contexts as Go's types have them: SIDs are 68-byte arrays in normal form.\<close>

definition opt_ok :: "options \<Rightarrow> bool" where
  "opt_ok opt \<longleftrightarrow> sid_inv (o_domain opt) \<and> sid_inv (o_machine opt)"

lemma at_off_no_panic: "no_panic m \<Longrightarrow> no_panic (at_off i m)"
  by (simp add: at_off_def no_panic_relabel)

lemma parse_subs_no_panic: "no_panic (parse_subs ps)"
  by (induction ps) (auto split: option.splits)

lemma NewSID_no_panic: "no_panic (NewSID a ss)"
  by (simp add: NewSID_def)

lemma SIDFromString_no_panic: "no_panic (SIDFromString s)"
  by (auto simp: SIDFromString_def Let_def NewSID_no_panic parse_subs_no_panic split: option.splits)

lemma Child_no_panic: "sid_inv s \<Longrightarrow> no_panic (Child s rid)"
  using Child_eq [of s rid] by (cases "IsValid s") (auto simp: Child_def NewSID_no_panic)

lemma parseSIDText_no_panic: "opt_ok opt \<Longrightarrow> no_panic (parseSIDText opt t)"
  by (auto simp: parseSIDText_def SIDFromString_no_panic resolveAlias_def opt_ok_def Child_no_panic
      split: option.splits aliasKind.splits)

lemma flag_run_no_panic: "even (length s) \<Longrightarrow> no_panic (flag_run U f s)"
  by (induction U f s rule: flag_run.induct) (auto split: option.splits)

lemma textToAceFlags_no_panic: "no_panic (textToAceFlags U s)"
  by (simp add: textToAceFlags_def flag_run_no_panic even_iff_mod_2_eq_zero)

lemma parseMask_no_panic: "no_panic (parseMask R s)"
proof -
  have h: "no_panic (parseHexMask s)" for s by (simp add: parseHexMask_def split: option.splits)
  have "no_panic (mnemonic_run R m s)" for m
    by (induction R m s rule: mnemonic_run.induct) (auto simp: h split: option.splits)
  then show ?thesis by (simp add: parseMask_def h split: option.splits)
qed

lemma parseGUID_no_panic: "no_panic (parseGUID s)"
  by (simp add: parseGUID_def split: option.splits)

text \<open>The parser of conditional expressions.\<close>

definition np :: "'a pres \<Rightarrow> bool" where
  "np m \<longleftrightarrow> m \<noteq> Some (Inl Panic)"

lemma np_simps [simp]: "np None" "np (Some r) \<longleftrightarrow> no_panic r"
  by (auto simp: np_def no_panic_def)

lemma np_bindP: "np m \<Longrightarrow> (\<And>x. np (f x)) \<Longrightarrow> np (bindP m f)"
  by (auto simp: bindP_def no_panic_def np_def split: option.splits sum.splits)

lemma simpleOperand_no_panic: "opt_ok opt \<Longrightarrow> no_panic (simpleOperand opt t)"
  by (auto simp: simpleOperand_def attrOperand_def Let_def parseSIDText_no_panic
      intro!: no_panic_bindE no_panic_relabel split: ctokKind.splits option.splits)

lemma parseOperand_np:
  assumes "opt_ok opt"
  shows "np (parseOperand opt n ts)" and "np (parseItems opt n items ts)"
proof (induction n arbitrary: ts items)
  case (Suc n)
  {
    case 1
    show ?case using Suc by (auto intro!: np_bindP no_panic_bindE simpleOperand_no_panic assms split: prod.splits)
  next
    case 2
    show ?case using Suc by (auto intro!: np_bindP split: prod.splits)
  }
qed simp_all

lemma parseRelOp_no_panic: "no_panic (parseRelOp ts)"
  by (simp add: parseRelOp_def Let_def split: ctokKind.splits option.splits)

lemma parseOr_np:
  assumes "opt_ok opt"
  shows "np (parseOr opt n ts)" and "np (parseOrLoop opt n c ts)" and "np (parseAnd opt n ts)"
    and "np (parseAndLoop opt n c ts)" and "np (parseUnary opt n ts)" and "np (parseTerm opt n ts)"
proof (induction n arbitrary: ts c)
  case (Suc n)
  {
    case 6
    show ?case using Suc(1) parseOperand_np [OF assms] parseRelOp_no_panic
      by (auto simp: Let_def intro!: np_bindP split: prod.splits)
  }
qed (auto intro!: np_bindP split: prod.splits)

lemma lex_one_no_panic: "lex_one c cs \<noteq> Inl Panic"
  by (simp add: lex_one_def lex_word_def Let_def)

lemma lex_no_panic: "no_panic (lex i s)"
proof (induction i s rule: lex.induct)
  case (2 i c cs)
  then show ?case
    using lex_one_no_panic [of c cs] by (auto split: sum.splits option.splits prod.splits intro!: no_panic_bindE)
qed simp

lemma compile_condition_no_panic: "opt_ok opt \<Longrightarrow> no_panic (compile_condition s opt)"
proof -
  assume "opt_ok opt"
  then have "np (parseConditionText s opt)"
    unfolding parseConditionText_def lexCondition_def
    by (intro np_bindP) (auto simp: lex_no_panic parseOr_np)
  then show ?thesis by (auto simp: compile_condition_def split: option.splits)
qed

text \<open>ACEs, components, descriptors.\<close>

lemma guid_text_no_panic: "no_panic (guid_text f off)"
  by (auto simp: guid_text_def parseGUID_no_panic intro!: no_panic_bindE at_off_no_panic)

lemma principal_no_panic: "opt_ok opt \<Longrightarrow> no_panic (principal opt f)"
  by (simp add: principal_def at_off_no_panic parseSIDText_no_panic)

lemma cond_at_no_panic: "no_panic m \<Longrightarrow> no_panic (cond_at off m)"
  by (simp add: cond_at_def no_panic_relabel)

lemmas field_no_panic = no_panic_bindE at_off_no_panic guid_text_no_panic principal_no_panic cond_at_no_panic
  textToAceFlags_no_panic parseMask_no_panic compile_condition_no_panic

lemma parseACEBody_no_panic:
  assumes "opt_ok opt"
  shows "no_panic (parseACEBody U R body off opt)"
proof -
  have g: "no_panic (parseGUIDFields a b)" for a b
    unfolding parseGUIDFields_def by (intro field_no_panic) simp
  have "no_panic (parseStructuredACE U R t fs opt)" for t fs
    unfolding parseStructuredACE_def Let_def using assms by (auto intro!: field_no_panic g)
  moreover have "no_panic (parseCallbackACE U R t fs opt)" for t fs
    unfolding parseCallbackACE_def Let_def using assms by (auto intro!: field_no_panic g)
  ultimately show ?thesis by (simp add: parseACEBody_def Let_def split: option.splits)
qed

lemma match_paren_bound: "match_paren d s = Some n \<Longrightarrow> n < length s"
  by (induction d s arbitrary: n rule: match_paren.induct) (auto split: if_splits)

lemma scanACE_no_panic:
  assumes "opt_ok opt" and "hd s = CHR ''(''"
  shows "no_panic (scanACE U R opt (i, s))"
proof (cases "match_paren 0 s")
  case (Some n)
  then have "n > 0" using assms(2) by (cases s) auto
  then show ?thesis
    using Some match_paren_bound [OF Some] parseACEBody_no_panic [OF assms(1)]
    by (auto simp: scanACE_def slice_in intro!: no_panic_bindE)
qed (simp add: scanACE_def)

lemma scan_aces_no_panic: "opt_ok opt \<Longrightarrow> no_panic (scan_aces U R opt (i, s))"
proof (induction "length s" arbitrary: i s rule: less_induct)
  case less
  show ?case
  proof (cases "s \<noteq> [] \<and> hd s = CHR ''(''")
    case True
    have "no_panic (scan_aces U R opt (j, t))" if "scanACE U R opt (i, s) = Inr (a, j, t)" for a j t
      using less.hyps [OF _ less.prems] scanACE_rest [OF that] length_drop_less True by blast
    moreover have "no_panic (scanACE U R opt (i, s))" using scanACE_no_panic [OF less.prems] True by blast
    ultimately show ?thesis
      using True by (subst scan_aces.simps) (auto split: sum.splits intro!: no_panic_bindE)
  qed (subst scan_aces.simps, auto)
qed

lemma scan_subs_no_panic: "no_panic (scan_subs c)"
proof (induction c rule: scan_subs.induct)
  case (1 i s)
  then show ?case by (subst scan_subs.simps) (auto split: prod.splits)
qed

lemma scanSID_no_panic: "opt_ok opt \<Longrightarrow> no_panic (scanSID opt c)"
  by (auto simp: scanSID_def scanRawSID_def scan_subs_no_panic parseSIDText_no_panic
      intro!: no_panic_bindE at_off_no_panic split: prod.splits)

lemma scan_flags_no_panic: "no_panic (scan_flags c)"
  by (induction c rule: scan_flags.induct) auto

lemma acl_flag_run_no_panic: "no_panic (acl_flag_run f s)"
  by (induction f s rule: acl_flag_run.induct) (subst acl_flag_run.simps, simp)

lemma scan_component_no_panic: "opt_ok opt \<Longrightarrow> no_panic (scan_component U R opt tag d c)"
  by (cases c) (auto simp: scan_component_def scanACL_def scanSID_no_panic scan_flags_no_panic scan_aces_no_panic
      parseACLFlags_def acl_flag_run_no_panic intro!: no_panic_bindE at_off_no_panic)

lemma parse_components_no_panic: "opt_ok opt \<Longrightarrow> no_panic (parse_components U R opt seen d c)"
proof (induction U R opt seen d c rule: parse_components.induct)
  case (1 U R opt seen d off s)
  then show ?case
    using scan_component_no_panic [OF 1(2), of U R "hd s" d "(off + 2, drop 2 s)"]
    by (subst parse_components.simps) (auto simp: no_panic_def split: sum.splits option.splits)
qed



section \<open>Owners that are mis-scanned\<close>

lemma scanRawSID_hex:
  assumes "valid_sid s" and "\<not> scannable s"
  shows "scanRawSID (i, SID_String s @ ''D:'') = Inr (SID_String s @ ''D'', i + length (SID_String s) + 1, '':'')"
proof -
  let ?h = "FormatUint (unat (authority s)) 16"
  have str: "SID_String s = ''S-1-'' @ ''0x'' @ ?h"
    using assms by (auto simp: SID_String_def scannable_def valid_sid_IsValid not_less)
  have "list_all isHexDigit (?h @ ''D'')"
    by (auto simp: list_all_iff isHexDigit_def is_lower_hex_def is_dec_def in_range_def dest!: FormatUint_hex)
  from takeWhile_stop [OF this, of "'':''"]
  have tw: "takeWhile isHexDigit (?h @ ''D:'') = ?h @ ''D''" by (simp add: isHexDigit_def in_range_def)
  have "scanRawSID (i, (''S-1-'' @ (''0x'' @ ?h @ ''D'') @ []) @ '':'')
      = Inr (''S-1-'' @ (''0x'' @ ?h @ ''D'') @ [], i + length (''S-1-'' @ (''0x'' @ ?h @ ''D'') @ []), '':'')"
    using tw by (intro scanRawSID_parts) (simp_all add: scanNumber_def has_prefix_def scan_subs.simps)
  then show ?thesis by (simp add: str)
qed



end
