(* ===== verification/SidType.thy ===== *)
theory SidType
  imports SddlTables Descriptor
begin

text \<open>
  The type of security identifiers as its clients see it. The array inside a \<open>wire.SID\<close> is not
  exported, so the only SIDs a program can hold are the zero value and what the operations of
  the packages \<^verbatim>\<open>wire\<close>, \<^verbatim>\<open>sd\<close> and \<^verbatim>\<open>sddl\<close> return, fed with such SIDs again. \<open>client_sid\<close> is that set;
  the theorem says which values it has.
\<close>

inductive client_sid :: "SID \<Rightarrow> bool" where
  cs_zero: "client_sid zero_SID"
| cs_parse: "ParseSID b = Inr s \<Longrightarrow> client_sid s"
| cs_new: "NewSID a ss = Inr s \<Longrightarrow> client_sid s"
| cs_string: "SIDFromString t = Inr s \<Longrightarrow> client_sid s"
| cs_child: "client_sid s \<Longrightarrow> Child s rid = Inr c \<Longrightarrow> client_sid c"
| cs_known: "client_sid (wk_SID k)"
| cs_alias: "client_sid dm \<Longrightarrow> client_sid mc \<Longrightarrow> parseSIDText \<lparr>o_domain = dm, o_machine = mc\<rparr> t = Inr s \<Longrightarrow> client_sid s"
| cs_owner: "ParseDescriptor (U :: sd_abi) b = Inr d \<Longrightarrow> client_sid (dOwner d)"
| cs_group: "ParseDescriptor (U :: sd_abi) b = Inr d \<Longrightarrow> client_sid (dGroup d)"

lemma mustSID_inv [simp]: "sid_inv (mustSID a ss)"
  by (auto simp: mustSID_def valid_sid_def dest: NewSID_valid split: sum.split)

lemma wk_SID_inv [simp]: "sid_inv (wk_SID k)"
  using wk_SID_valid [of k] by (simp add: valid_sid_def)

lemma sidAliases_inv: "list_all (\<lambda>p. sid_inv (ae_sid (snd p))) sidAliases"
  by (simp add: sidAliases_def absAlias_def domAlias_def macAlias_def)

lemma parseSIDText_inv:
  assumes "sid_inv (o_domain opt)" and "sid_inv (o_machine opt)" and "parseSIDText opt t = Inr s"
  shows "sid_inv s"
proof (cases "has_prefix t ''S-''")
  case True
  then show ?thesis using assms(3) SIDFromString_valid by (simp add: parseSIDText_def valid_sid_def)
next
  case False
  then have r: "resolveAlias opt t = Inr s" using assms(3) by (simp add: parseSIDText_def)
  then obtain e where e: "map_of sidAliases t = Some e" by (auto simp: resolveAlias_def split: option.splits)
  then have "sid_inv (ae_sid e)" using sidAliases_inv by (auto simp: list_all_iff dest!: map_of_SomeD)
  then show ?thesis
    using r e assms(1,2) Child_valid [of "o_domain opt"] Child_valid [of "o_machine opt"]
    by (auto simp: resolveAlias_def valid_sid_def split: aliasKind.splits if_splits)
qed

lemma client_sid_inv: "client_sid s \<Longrightarrow> sid_inv s"
proof (induction rule: client_sid.induct)
  case (cs_alias dm mc t s)
  then show ?case using parseSIDText_inv [of "\<lparr>o_domain = dm, o_machine = mc\<rparr>"] by simp
next
  case (cs_child s rid c)
  then show ?case using Child_valid by (simp add: valid_sid_def)
qed (auto simp: valid_sid_def desc_parsed_def
    dest: ParseSID_sound(1) NewSID_valid SIDFromString_valid ParseDescriptor_parsed)

text \<open>C7
  The values of the type. Every SID a program can obtain, from wire bytes, parts, text, aliases
  in any domain and machine context, descriptors and relative identifiers in any combination, is
  the zero value or a valid SID, which encodes to between 8 and 68 bytes that parse back to it,
  prints to a text that reads back to it, and has a clean tail, so that comparing the arrays
  compares the identifiers. Every valid SID can be obtained.\<close>

theorem client_sids:
  "client_sid s \<longleftrightarrow> s = zero_SID
     \<or> IsValid s \<and> sid_inv s \<and> ParseSID (SID_Bytes s) = Inr s \<and> SIDFromString (SID_String s) = Inr s
       \<and> 8 \<le> length (SID_Bytes s) \<and> length (SID_Bytes s) \<le> 68"
proof
  assume "client_sid s"
  then consider "s = zero_SID" | "valid_sid s" using client_sid_inv sid_inv_cases by blast
  then show "s = zero_SID \<or> IsValid s \<and> sid_inv s \<and> ParseSID (SID_Bytes s) = Inr s \<and> SIDFromString (SID_String s) = Inr s
       \<and> 8 \<le> length (SID_Bytes s) \<and> length (SID_Bytes s) \<le> 68"
  proof cases
    case 2
    then show ?thesis
      using ParseSID_round [of s "[]"] sid_text.ps_pr [of s] length_SID_Bytes [of s] length_SID_Bytes_le [of s]
      by (simp add: valid_sid_def)
  qed simp
qed (auto intro: cs_zero cs_parse)

end
