(* ===== verification/Io.thy ===== *)
theory Io
  imports Sys
begin

text \<open>
  Operations that call the kernel, shared by the registry, the token and the event package.

  An operation is a function of the state \<open>'w\<close> it acts on: \<open>None\<close> is a call that is
  interrupted for ever (see \<^verbatim>\<open>Sys\<close>), otherwise it yields its result, an error or a value, and
  the state it leaves. \<open>bindIO\<close> is the \<open>if err != nil { return err }\<close> between two calls and
  \<open>deferred\<close> a Go \<open>defer\<close>, which runs on every way out, also on a panic.

  \<open>probe\<close> is the loop \<^verbatim>\<open>for range maxProbeRetries\<close> of the registry's variable-length reads; the
  locale \<open>two_pass\<close> is the kernel's side of that protocol, and inside it one lemma says that
  two attempts are enough.
\<close>

type_synonym ('w, 'a) io = "'w \<Rightarrow> ('a result \<times> 'w) option"

definition retIO :: "'a \<Rightarrow> ('w, 'a) io" where "retIO x w = Some (Inr x, w)"
definition failIO :: "gerr \<Rightarrow> ('w, 'a) io" where "failIO e w = Some (Inl e, w)"

definition bindIO :: "('w, 'a) io \<Rightarrow> ('a \<Rightarrow> ('w, 'b) io) \<Rightarrow> ('w, 'b) io" where
  "bindIO m f w =
     (case m w of None \<Rightarrow> None | Some (Inl e, w) \<Rightarrow> Some (Inl e, w) | Some (Inr x, w) \<Rightarrow> f x w)"

definition wrapIO :: "string \<Rightarrow> ('w, 'a) io \<Rightarrow> ('w, 'a) io" where
  "wrapIO s m w = map_option (\<lambda>(r, w). (wrapE s r, w)) (m w)"

text \<open>\<open>defer g\<close>: \<open>g\<close> runs whatever \<open>m\<close> returns, and its result is dropped.\<close>

definition deferred :: "('w, unit) io \<Rightarrow> ('w, 'a) io \<Rightarrow> ('w, 'a) io" where
  "deferred g m w =
     (case m w of None \<Rightarrow> None
      | Some (r, w) \<Rightarrow> (case g w of None \<Rightarrow> None | Some (_, w) \<Rightarrow> Some (r, w)))"

text \<open>A system call under \<open>sys.Retry\<close>, and one that is issued once (\<open>syscall.Close\<close>).\<close>

definition retried :: "'w syscall \<Rightarrow> ('w, u64) io" where
  "retried k w =
     (case Retry k w of None \<Rightarrow> None
      | Some ((r, None), w) \<Rightarrow> Some (Inr r, w)
      | Some ((r, Some e), w) \<Rightarrow> Some (Inl e, w))"

definition once :: "'w syscall \<Rightarrow> ('w, u64) io" where
  "once k w =
     (case k w of ((r, e), w) \<Rightarrow> Some (if e = 0 then Inr r else Inl (Errno (ucast e)), w))"

text \<open>An ioctl that reads and writes an argument block: the error, and the block it leaves.\<close>

definition ioctl_rw :: "('s \<times> 'w) syscall \<Rightarrow> 's \<Rightarrow> 'w \<Rightarrow> (gerr option \<times> 's \<times> 'w) option" where
  "ioctl_rw k a w =
     (case Retry k (a, w) of None \<Rightarrow> None | Some ((_, err), (a, w)) \<Rightarrow> Some (err, a, w))"

lemma retIO_run [simp]: "retIO x w = Some (Inr x, w)"
  by (simp add: retIO_def)

lemma failIO_run [simp]: "failIO e w = Some (Inl e, w)"
  by (simp add: failIO_def)

lemma bindIO_run [simp]:
  "m w = None \<Longrightarrow> bindIO m f w = None"
  "m w = Some (Inl e, w') \<Longrightarrow> bindIO m f w = Some (Inl e, w')"
  "m w = Some (Inr x, w') \<Longrightarrow> bindIO m f w = f x w'"
  by (simp_all add: bindIO_def)

lemma bindIO_SomeD:
  assumes "bindIO m f w = Some (r, w')"
  obtains e where "m w = Some (Inl e, w')" "r = Inl e"
    | x w1 where "m w = Some (Inr x, w1)" "f x w1 = Some (r, w')"
  using assms by (auto simp: bindIO_def split: option.splits sum.splits)

lemma wrapIO_SomeD:
  assumes "wrapIO s m w = Some (r, w')"
  obtains r0 where "m w = Some (r0, w')" "r = wrapE s r0"
  using assms by (auto simp: wrapIO_def)

lemma wrapE_Inl: "e \<noteq> Panic \<Longrightarrow> wrapE s (Inl e) = Inl (Wrap s e)"
  by (cases e) (simp_all add: wrapE_def)

lemma wrapE_InlD: "wrapE s m = Inl e \<Longrightarrow> \<exists>e0. m = Inl e0"
  by (cases m) auto

text \<open>Operations that keep a property of the state, whatever their outcome.\<close>

definition keeps :: "('w \<Rightarrow> 'w \<Rightarrow> bool) \<Rightarrow> ('w, 'a) io \<Rightarrow> bool" where
  "keeps P m \<longleftrightarrow> (\<forall>w r w'. m w = Some (r, w') \<longrightarrow> P w w')"

lemma keeps_ret [intro]: "(\<And>w. P w w) \<Longrightarrow> keeps P (retIO x)"
  by (simp add: keeps_def)

lemma keeps_fail [intro]: "(\<And>w. P w w) \<Longrightarrow> keeps P (failIO e)"
  by (simp add: keeps_def)

lemma keeps_bind:
  assumes "transp P" and "keeps P m" and "\<And>x. keeps P (f x)"
  shows "keeps P (bindIO m f)"
  using assms unfolding keeps_def by (blast elim: bindIO_SomeD dest: transpD)

lemma keeps_wrap: "keeps P m \<Longrightarrow> keeps P (wrapIO s m)"
  unfolding keeps_def by (blast elim: wrapIO_SomeD)

lemma keeps_deferred:
  "transp P \<Longrightarrow> keeps P g \<Longrightarrow> keeps P m \<Longrightarrow> keeps P (deferred g m)"
  unfolding keeps_def deferred_def by (auto split: option.splits) (metis transpD)

lemma keeps_once: "(\<And>w. P w (snd (k w))) \<Longrightarrow> keeps P (once k)"
proof -
  assume "\<And>w. P w (snd (k w))"
  then show ?thesis by (auto simp: keeps_def once_def split: prod.splits) (metis snd_conv)
qed

lemma interrupted_keeps:
  assumes "interrupted k n w w'" and "reflp P" and "transp P" and "\<And>w. P w (snd (k w))"
  shows "P w w'"
  using assms(1)
proof (induction rule: interrupted.induct)
  case (interrupted_Suc s r s1 n s2)
  then show ?case using assms(3,4) by (metis snd_conv transpD)
qed (simp add: reflpD [OF assms(2)])

lemma keeps_retried:
  assumes "reflp P" and "transp P" and "\<And>w. P w (snd (k w))"
  shows "keeps P (retried k)"
  unfolding keeps_def
proof (intro allI impI)
  fix w r w'
  assume "retried k w = Some (r, w')"
  then obtain x err where "Retry k w = Some ((x, err), w')"
    by (auto simp: retried_def split: option.splits)
  then obtain n t e where "interrupted k n w t" "k t = ((x, e), w')"
    by (blast dest: Retry_SomeD)
  then show "P w w'"
    using interrupted_keeps [OF _ assms] assms(3) [of t] transpD [OF assms(2)] by simp blast
qed

section \<open>Probe loops\<close>

datatype ('b, 'a) attempt = Again 'b | Stop "'a result"

fun probe :: "('b \<Rightarrow> 'w \<Rightarrow> (('b, 'a) attempt \<times> 'w) option) \<Rightarrow> gerr \<Rightarrow> nat \<Rightarrow> 'b \<Rightarrow> ('w, 'a) io" where
  "probe step err 0 b w = Some (Inl err, w)"
| "probe step err (Suc n) b w =
     (case step b w of None \<Rightarrow> None
      | Some (Stop r, w) \<Rightarrow> Some (r, w)
      | Some (Again b, w) \<Rightarrow> probe step err n b w)"

lemma probe_no_panic:
  assumes "\<And>b w r w'. step b w = Some (Stop r, w') \<Longrightarrow> r \<noteq> Inl Panic" and "err \<noteq> Panic"
  shows "probe step err n b w \<noteq> Some (Inl Panic, w')"
proof (induction n arbitrary: b w)
  case (Suc n)
  then show ?case using assms(1) by (auto split: option.splits attempt.splits)
qed (simp add: assms(2))

locale two_pass =
  fixes step :: "'b \<Rightarrow> 'w \<Rightarrow> (('b, 'a) attempt \<times> 'w) option"
    and holds :: "'d \<Rightarrow> 'w \<Rightarrow> bool"
    and fits :: "'d \<Rightarrow> 'b \<Rightarrow> bool"
    and answer :: "'d \<Rightarrow> 'a result"
    and regrown :: "'d \<Rightarrow> 'b"
  assumes fetch: "holds d w \<Longrightarrow> fits d b \<Longrightarrow> step b w = Some (Stop (answer d), w)"
    and grow: "holds d w \<Longrightarrow> \<not> fits d b \<Longrightarrow> step b w = Some (Again (regrown d), w)"
    and regrown_fits: "holds d w \<Longrightarrow> fits d (regrown d)"
begin

lemma two_attempts: "holds d w \<Longrightarrow> probe step err (Suc (Suc n)) b w = Some (answer d, w)"
  by (cases "fits d b") (simp_all add: fetch grow regrown_fits)

end

end
