(* ===== verification/RegValue.thy ===== *)
theory RegValue
  imports Utf Strconv
begin

text \<open>
  \<^verbatim>\<open>registry/value.go\<close>, \<^verbatim>\<open>registry/access.go\<close>, \<^verbatim>\<open>registry/errors.go\<close> and the packed batch of
  \<^verbatim>\<open>registry/read.go\<close>: typed registry values, their wire form, and the parser of the buffer
  that carries all values of a key.

  The type codes come from the generated binding and are a record of parameters; the
  theorems assume that they are distinct. The lemmas show that decoding inverts encoding
  on every value a constructor builds from well-formed data, and that the batch parser
  reads back what is packed, yields a prefix of it from a truncated buffer, and never
  leaves its bounds.
\<close>

section \<open>Types and values\<close>

record reg_abi =
  TypeNone :: u32
  TypeSZ :: u32
  TypeExpandSZ :: u32
  TypeBinary :: u32
  TypeDWORD :: u32
  TypeDWORDBigEndian :: u32
  TypeLink :: u32
  TypeMultiSZ :: u32
  TypeQWORD :: u32

definition reg_types :: "'m reg_abi_scheme \<Rightarrow> u32 list" where
  "reg_types A = [TypeNone A, TypeSZ A, TypeExpandSZ A, TypeBinary A, TypeDWORD A, TypeDWORDBigEndian A,
     TypeLink A, TypeMultiSZ A, TypeQWORD A]"

definition reg_abi_ok :: "'m reg_abi_scheme \<Rightarrow> bool" where
  "reg_abi_ok A \<longleftrightarrow> distinct (reg_types A)"

text \<open>The codes of the Windows registry, for the witnesses.\<close>

definition win_reg :: reg_abi where
  "win_reg = \<lparr>TypeNone = 0, TypeSZ = 1, TypeExpandSZ = 2, TypeBinary = 3, TypeDWORD = 4,
     TypeDWORDBigEndian = 5, TypeLink = 6, TypeMultiSZ = 7, TypeQWORD = 11\<rparr>"

definition Type_String :: "'m reg_abi_scheme \<Rightarrow> u32 \<Rightarrow> string" where
  "Type_String A t =
     (if t = TypeNone A then ''REG_NONE''
      else if t = TypeSZ A then ''REG_SZ''
      else if t = TypeExpandSZ A then ''REG_EXPAND_SZ''
      else if t = TypeBinary A then ''REG_BINARY''
      else if t = TypeDWORD A then ''REG_DWORD''
      else if t = TypeDWORDBigEndian A then ''REG_DWORD_BIG_ENDIAN''
      else if t = TypeLink A then ''REG_LINK''
      else if t = TypeMultiSZ A then ''REG_MULTI_SZ''
      else if t = TypeQWORD A then ''REG_QWORD''
      else ''REG_type('' @ FormatUint (unat t) 10 @ '')'')"

record Value =
  v_typ :: u32
  v_s :: string
  v_list :: "string list"
  v_num :: u64
  v_b :: bytes

definition typed :: "u32 \<Rightarrow> Value" where
  "typed t = \<lparr>v_typ = t, v_s = [], v_list = [], v_num = 0, v_b = []\<rparr>"

definition NoneValue :: "'m reg_abi_scheme \<Rightarrow> Value" where "NoneValue A = typed (TypeNone A)"
definition SZ :: "'m reg_abi_scheme \<Rightarrow> string \<Rightarrow> Value" where "SZ A s = (typed (TypeSZ A))\<lparr>v_s := s\<rparr>"
definition ExpandSZ :: "'m reg_abi_scheme \<Rightarrow> string \<Rightarrow> Value" where
  "ExpandSZ A s = (typed (TypeExpandSZ A))\<lparr>v_s := s\<rparr>"
definition Link :: "'m reg_abi_scheme \<Rightarrow> string \<Rightarrow> Value" where "Link A s = (typed (TypeLink A))\<lparr>v_s := s\<rparr>"
definition MultiSZ :: "'m reg_abi_scheme \<Rightarrow> string list \<Rightarrow> Value" where
  "MultiSZ A l = (typed (TypeMultiSZ A))\<lparr>v_list := l\<rparr>"
definition Binary :: "'m reg_abi_scheme \<Rightarrow> bytes \<Rightarrow> Value" where "Binary A b = (typed (TypeBinary A))\<lparr>v_b := b\<rparr>"
definition DWORD :: "'m reg_abi_scheme \<Rightarrow> u32 \<Rightarrow> Value" where
  "DWORD A n = (typed (TypeDWORD A))\<lparr>v_num := ucast n\<rparr>"
definition DWORDBigEndian :: "'m reg_abi_scheme \<Rightarrow> u32 \<Rightarrow> Value" where
  "DWORDBigEndian A n = (typed (TypeDWORDBigEndian A))\<lparr>v_num := ucast n\<rparr>"
definition QWORD :: "'m reg_abi_scheme \<Rightarrow> u64 \<Rightarrow> Value" where "QWORD A n = (typed (TypeQWORD A))\<lparr>v_num := n\<rparr>"
definition Other :: "u32 \<Rightarrow> bytes \<Rightarrow> Value" where "Other t b = (typed t)\<lparr>v_b := b\<rparr>"

definition Kind :: "Value \<Rightarrow> u32" where "Kind v = v_typ v"

definition isKnown :: "'m reg_abi_scheme \<Rightarrow> u32 \<Rightarrow> bool" where
  "isKnown A t \<longleftrightarrow> t \<in> set (reg_types A)"

text \<open>The accessors: \<open>None\<close> is the \<open>false\<close> of the source.\<close>

definition is_str_type :: "'m reg_abi_scheme \<Rightarrow> u32 \<Rightarrow> bool" where
  "is_str_type A t \<longleftrightarrow> t = TypeSZ A \<or> t = TypeExpandSZ A \<or> t = TypeLink A"

definition Str :: "'m reg_abi_scheme \<Rightarrow> Value \<Rightarrow> string option" where
  "Str A v = (if is_str_type A (v_typ v) then Some (v_s v) else None)"

definition Uint32 :: "'m reg_abi_scheme \<Rightarrow> Value \<Rightarrow> u32 option" where
  "Uint32 A v = (if v_typ v = TypeDWORD A \<or> v_typ v = TypeDWORDBigEndian A then Some (ucast (v_num v)) else None)"

definition Uint64 :: "'m reg_abi_scheme \<Rightarrow> Value \<Rightarrow> u64 option" where
  "Uint64 A v = (if v_typ v = TypeQWORD A then Some (v_num v) else None)"

definition ListOf :: "'m reg_abi_scheme \<Rightarrow> Value \<Rightarrow> string list option" where
  "ListOf A v = (if v_typ v = TypeMultiSZ A then Some (v_list v) else None)"

definition BytesOf :: "'m reg_abi_scheme \<Rightarrow> Value \<Rightarrow> bytes option" where
  "BytesOf A v = (if v_typ v = TypeBinary A then Some (v_b v)
     else if isKnown A (v_typ v) then None else Some (v_b v))"

section \<open>Wire form\<close>

definition encodeSZ :: "string \<Rightarrow> bytes" where
  "encodeSZ s = bytes_of s @ [0]"

definition encodeMultiSZ :: "string list \<Rightarrow> bytes" where
  "encodeMultiSZ l = concat (map (\<lambda>s. bytes_of s @ [0]) l) @ [0]"

definition Encode :: "'m reg_abi_scheme \<Rightarrow> Value \<Rightarrow> u32 \<times> bytes" where
  "Encode A v =
     (if v_typ v = TypeNone A then (TypeNone A, [])
      else if is_str_type A (v_typ v) then (v_typ v, encodeSZ (v_s v))
      else if v_typ v = TypeBinary A then (TypeBinary A, v_b v)
      else if v_typ v = TypeDWORD A then (TypeDWORD A, le32 (ucast (v_num v)))
      else if v_typ v = TypeDWORDBigEndian A then (TypeDWORDBigEndian A, be32 (ucast (v_num v)))
      else if v_typ v = TypeMultiSZ A then (TypeMultiSZ A, encodeMultiSZ (v_list v))
      else if v_typ v = TypeQWORD A then (TypeQWORD A, le64 (v_num v))
      else (v_typ v, v_b v))"

definition malformed :: "'m reg_abi_scheme \<Rightarrow> u32 \<Rightarrow> string \<Rightarrow> gerr" where
  "malformed A t detail =
     Wrap (''libp/registry: malformed '' @ Type_String A t @ '' value: '' @ detail @ '': '') ErrMalformedValue"

definition decodeSZ :: "'m reg_abi_scheme \<Rightarrow> bytes \<Rightarrow> u32 \<Rightarrow> string result" where
  "decodeSZ A d t =
     (let d = (if d \<noteq> [] \<and> last d = 0 then butlast d else d) in
      if \<not> utf8_valid d then Inl (malformed A t ''data is not valid UTF-8'')
      else Inr (string_of d))"

fun splitNUL :: "bytes \<Rightarrow> bytes list" where
  "splitNUL [] = [[]]"
| "splitNUL (c # cs) =
     (if c = 0 then [] # splitNUL cs
      else case splitNUL cs of w # ws \<Rightarrow> (c # w) # ws | [] \<Rightarrow> [[c]])"

fun multi_loop :: "'m reg_abi_scheme \<Rightarrow> bytes list \<Rightarrow> string list result" where
  "multi_loop A [] = Inr []"
| "multi_loop A (seg # segs) =
     (if seg = [] then multi_loop A segs
      else if \<not> utf8_valid seg then Inl (malformed A (TypeMultiSZ A) ''a string is not valid UTF-8'')
      else bindE (multi_loop A segs) (\<lambda>ss. Inr (string_of seg # ss)))"

definition decodeMultiSZ :: "'m reg_abi_scheme \<Rightarrow> bytes \<Rightarrow> string list result" where
  "decodeMultiSZ A d = multi_loop A (splitNUL d)"

definition Decode :: "'m reg_abi_scheme \<Rightarrow> u32 \<Rightarrow> bytes \<Rightarrow> Value result" where
  "Decode A t d =
     (if t = TypeNone A then Inr (NoneValue A)
      else if is_str_type A t then bindE (decodeSZ A d t) (\<lambda>s. Inr ((typed t)\<lparr>v_s := s\<rparr>))
      else if t = TypeBinary A then Inr (Binary A d)
      else if t = TypeDWORD A then
        (if length d \<noteq> 4 then Inl (malformed A t ''want 4 bytes'')
         else bindE (get_le32 d) (\<lambda>n. Inr (DWORD A n)))
      else if t = TypeDWORDBigEndian A then
        (if length d \<noteq> 4 then Inl (malformed A t ''want 4 bytes'')
         else bindE (get_be 4 d) (\<lambda>n. Inr (DWORDBigEndian A n)))
      else if t = TypeMultiSZ A then bindE (decodeMultiSZ A d) (\<lambda>l. Inr ((typed t)\<lparr>v_list := l\<rparr>))
      else if t = TypeQWORD A then
        (if length d \<noteq> 8 then Inl (malformed A t ''want 8 bytes'')
         else bindE (get_le64 d) (\<lambda>n. Inr (QWORD A n)))
      else Inr (Other t d))"

text \<open>\<^verbatim>\<open>registry/access.go\<close>: access masks.\<close>

definition Access_Contains :: "u32 \<Rightarrow> u32 \<Rightarrow> bool" where
  "Access_Contains a other \<longleftrightarrow> a AND other = other"

section \<open>The packed batch\<close>

record NamedValue =
  nv_Name :: string
  nv_Value :: Value

text \<open>One turn of the loop on the rest of the buffer; \<open>None\<close> is the \<open>break\<close>.\<close>

definition batch_entry :: "'m reg_abi_scheme \<Rightarrow> bytes \<Rightarrow> (NamedValue \<times> nat) option result" where
  "batch_entry A b =
     (if length b < 4 then Inr None
      else bindE (get_le32 b) (\<lambda>nl.
        let nameLen = unat nl in
        if length b < 4 + nameLen then Inr None
        else bindE (slice b 4 (4 + nameLen)) (\<lambda>name.
          let off = 4 + nameLen in
          if length b < off + 8 then Inr None
          else bindE (bindE (slice_from b off) get_le32) (\<lambda>t.
            bindE (bindE (slice_from b (off + 4)) get_le32) (\<lambda>dl.
            let dataLen = unat dl; off = off + 8 in
            if length b < off + dataLen then Inr None
            else bindE (slice b off (off + dataLen)) (\<lambda>d.
              bindE (Decode A t d) (\<lambda>v.
              Inr (Some (\<lparr>nv_Name = string_of name, nv_Value = v\<rparr>, off + dataLen)))))))))"

fun parseBatch :: "'m reg_abi_scheme \<Rightarrow> bytes \<Rightarrow> nat \<Rightarrow> NamedValue list result" where
  "parseBatch A b 0 = Inr []"
| "parseBatch A b (Suc k) =
     bindE (batch_entry A b) (\<lambda>r.
       case r of None \<Rightarrow> Inr []
       | Some (nv, n) \<Rightarrow>
           bindE (slice_from b n) (\<lambda>b'.
           bindE (parseBatch A b' k) (\<lambda>vs. Inr (nv # vs))))"

section \<open>Round trips of values\<close>

text \<open>The values the constructors build, with the conditions their encodings need.\<close>

definition value_ok :: "'m reg_abi_scheme \<Rightarrow> Value \<Rightarrow> bool" where
  "value_ok A v \<longleftrightarrow>
     v = NoneValue A
     \<or> (\<exists>s. utf8_valid (bytes_of s) \<and> v \<in> {SZ A s, ExpandSZ A s, Link A s})
     \<or> (\<exists>l. v = MultiSZ A l \<and> (\<forall>s \<in> set l. s \<noteq> [] \<and> utf8_valid (bytes_of s) \<and> 0 \<notin> set (bytes_of s)))
     \<or> (\<exists>b. v = Binary A b) \<or> (\<exists>n. v = DWORD A n \<or> v = DWORDBigEndian A n) \<or> (\<exists>n. v = QWORD A n)
     \<or> (\<exists>t b. v = Other t b \<and> \<not> isKnown A t)"

lemma value_ok_ctors: "value_ok A (NoneValue A)" "value_ok A (DWORD A n)"
  by (auto simp: value_ok_def)

lemmas ctor_defs = NoneValue_def SZ_def ExpandSZ_def Link_def MultiSZ_def Binary_def DWORD_def
  DWORDBigEndian_def QWORD_def Other_def typed_def

lemma decodeSZ_encodeSZ: "utf8_valid (bytes_of s) \<Longrightarrow> decodeSZ A (encodeSZ s) t = Inr s"
  by (simp add: decodeSZ_def encodeSZ_def)

lemma splitNUL_nonempty [simp]: "splitNUL b \<noteq> []"
  by (cases b) (auto split: list.splits)

lemma splitNUL_seg: "0 \<notin> set w \<Longrightarrow> splitNUL (w @ 0 # b) = w # splitNUL b"
  by (induction w) auto

lemma bytes_of_eq_Nil: "bytes_of s = [] \<longleftrightarrow> s = []"
  by (simp add: bytes_of_def)

lemma decodeMultiSZ_encode:
  assumes "\<forall>s \<in> set l. s \<noteq> [] \<and> utf8_valid (bytes_of s) \<and> 0 \<notin> set (bytes_of s)"
  shows "decodeMultiSZ A (encodeMultiSZ l) = Inr l"
  using assms
proof (induction l)
  case (Cons s l)
  then show ?case
    by (simp add: decodeMultiSZ_def encodeMultiSZ_def splitNUL_seg bytes_of_eq_Nil)
qed (simp add: decodeMultiSZ_def encodeMultiSZ_def)

lemma ucast_back: "ucast (ucast (n :: u32) :: u64) = n"
  by (rule bit_word_eqI) (auto simp: bit_simps)

text \<open>The type codes differ pairwise, in both orders.\<close>

lemma reg_types_differ:
  assumes "reg_abi_ok A"
  shows "distinct (reg_types A)" and "distinct (rev (reg_types A))"
  using assms by (simp_all add: reg_abi_ok_def)

lemmas codec_defs = Encode_def Decode_def is_str_type_def ctor_defs

lemma Decode_Encode:
  assumes "reg_abi_ok A" and "value_ok A v"
  shows "Decode A (fst (Encode A v)) (snd (Encode A v)) = Inr v"
proof -
  note ne = reg_types_differ [OF assms(1), unfolded reg_types_def, simplified]
  consider (none) "v = NoneValue A"
    | (str) s t where "utf8_valid (bytes_of s)" "v = (typed t)\<lparr>v_s := s\<rparr>" "is_str_type A t"
    | (multi) l where "v = MultiSZ A l" "\<forall>s \<in> set l. s \<noteq> [] \<and> utf8_valid (bytes_of s) \<and> 0 \<notin> set (bytes_of s)"
    | (bin) b where "v = Binary A b" | (dword) n where "v = DWORD A n" | (dwordbe) n where "v = DWORDBigEndian A n"
    | (qword) n where "v = QWORD A n" | (unknown) t b where "v = Other t b" "\<not> isKnown A t"
    using assms(2) unfolding value_ok_def SZ_def ExpandSZ_def Link_def is_str_type_def by blast
  then show ?thesis
  proof cases
    case str
    then have "t \<noteq> TypeNone A" using ne by (auto simp: is_str_type_def)
    with str show ?thesis by (simp add: Encode_def Decode_def decodeSZ_encodeSZ typed_def)
  next
    case multi
    then show ?thesis by (simp add: codec_defs decodeMultiSZ_encode ne)
  next
    case dwordbe
    then show ?thesis by (simp add: codec_defs get_be_def codec_simps ucast_back ne)
  next
    case unknown
    then show ?thesis by (simp add: codec_defs isKnown_def reg_types_def)
  qed (simp_all add: codec_defs go_simps codec_simps ucast_back ne)
qed

section \<open>Round trips of batches\<close>

definition entry_bytes :: "'m reg_abi_scheme \<Rightarrow> NamedValue \<Rightarrow> bytes" where
  "entry_bytes A e = (case Encode A (nv_Value e) of (t, d) \<Rightarrow>
     le32 (of_nat (length (nv_Name e))) @ bytes_of (nv_Name e) @ le32 t @ le32 (of_nat (length d)) @ d)"

definition entry_ok :: "'m reg_abi_scheme \<Rightarrow> NamedValue \<Rightarrow> bool" where
  "entry_ok A e \<longleftrightarrow> value_ok A (nv_Value e) \<and> length (nv_Name e) < 2 ^ 32
     \<and> length (snd (Encode A (nv_Value e))) < 2 ^ 32"

text \<open>The three integers of a packed entry.\<close>

lemma entry_heads:
  assumes "Encode A (nv_Value e) = (t, d)"
  shows "get_le32 (entry_bytes A e @ r) = Inr (of_nat (length (nv_Name e)))"
    and "bindE (slice_from (entry_bytes A e @ r) (4 + length (nv_Name e))) get_le32 = Inr t"
    and "bindE (slice_from (entry_bytes A e @ r) (8 + length (nv_Name e))) get_le32 = Inr (of_nat (length d))"
    and "length (entry_bytes A e) = 12 + length (nv_Name e) + length d"
  by (simp_all add: entry_bytes_def assms codec_simps slice_from_in)

lemma batch_entry_bytes:
  assumes "reg_abi_ok A" and "entry_ok A e"
  shows "batch_entry A (entry_bytes A e @ r) = Inr (Some (e, length (entry_bytes A e)))"
proof -
  obtain t d where e: "Encode A (nv_Value e) = (t, d)" by fastforce
  note h = entry_heads(1-3) [OF e, of r] entry_heads(4) [OF e]
  have v: "Decode A t d = Inr (nv_Value e)"
    using Decode_Encode [OF assms(1), of "nv_Value e"] assms(2) by (simp add: entry_ok_def e)
  have n: "length (nv_Name e) < 2 ^ 32" "length d < 2 ^ 32" using assms(2) by (simp_all add: entry_ok_def e)
  have s1: "slice (entry_bytes A e @ r) 4 (4 + length (nv_Name e)) = Inr (bytes_of (nv_Name e))"
    by (simp add: slice_in entry_bytes_def e)
  have s2: "slice (entry_bytes A e @ r) (12 + length (nv_Name e)) (12 + length (nv_Name e) + length d) = Inr d"
    by (simp add: slice_in entry_bytes_def e)
  show ?thesis
    unfolding batch_entry_def Let_def h(1) bindE_simps using n by (simp add: h(2,3,4) s1 s2 v)
qed

lemma get_le32_take:
  "4 \<le> k \<Longrightarrow> get_le32 (take k x) = get_le32 x"
  "i + 4 \<le> k \<Longrightarrow> k \<le> length x \<Longrightarrow> bindE (slice_from (take k x) i) get_le32 = bindE (slice_from x i) get_le32"
  by (auto simp: get_le32_def get_le_def slice_from_in take_drop min_def)

lemma batch_entry_cut:
  assumes "entry_ok A e" and "k < length (entry_bytes A e)"
  shows "batch_entry A (take k (entry_bytes A e)) = Inr None"
proof -
  obtain t d where e: "Encode A (nv_Value e) = (t, d)" by fastforce
  let ?n = "length (nv_Name e)"
  note h = entry_heads(1-3) [OF e, of "[]", simplified] entry_heads(4) [OF e]
  have n: "?n < 2 ^ 32" "length d < 2 ^ 32" using assms(1) by (simp_all add: entry_ok_def e)
  have k: "k \<le> length (entry_bytes A e)" "length (take k (entry_bytes A e)) = k" using assms(2) by simp_all
  consider "k < 4" | "4 \<le> k" "k < 4 + ?n" | "4 + ?n \<le> k" "k < 12 + ?n" | "12 + ?n \<le> k" "k < 12 + ?n + length d"
    using assms(2) h(4) by linarith
  then show ?thesis
  proof cases
    case 4
    then show ?thesis
      using n k get_le32_take(1) [of k "entry_bytes A e"] get_le32_take(2) [of "4 + ?n" k "entry_bytes A e"]
        get_le32_take(2) [of "8 + ?n" k "entry_bytes A e"]
      by (simp add: batch_entry_def h(1,2,3) Let_def slice_in)
  qed (use n k get_le32_take(1) [of k "entry_bytes A e"] in
      \<open>simp_all add: batch_entry_def h(1) Let_def slice_in\<close>)
qed



text \<open>The batch of a key, whole or cut.\<close>

lemma parseBatch_whole:
  "reg_abi_ok A \<Longrightarrow> list_all (entry_ok A) es \<Longrightarrow>
   parseBatch A (concat (map (entry_bytes A) es) @ r) (length es) = Inr es"
  by (induction es) (simp_all add: batch_entry_bytes slice_from_in)

lemma parseBatch_cut:
  assumes "reg_abi_ok A"
  shows "list_all (entry_ok A) es \<Longrightarrow>
   \<exists>m \<le> length es. parseBatch A (take k (concat (map (entry_bytes A) es))) (length es) = Inr (take m es)"
proof (induction es arbitrary: k)
  case (Cons e es)
  show ?case
  proof (cases "k < length (entry_bytes A e)")
    case True
    then have "parseBatch A (take k (concat (map (entry_bytes A) (e # es)))) (length (e # es)) = Inr (take 0 (e # es))"
      using batch_entry_cut [of A e k] Cons.prems by simp
    then show ?thesis by blast
  next
    case False
    then obtain m where m: "m \<le> length es"
        "parseBatch A (take (k - length (entry_bytes A e)) (concat (map (entry_bytes A) es))) (length es) = Inr (take m es)"
      using Cons by auto
    with False Cons.prems
    have "parseBatch A (take k (concat (map (entry_bytes A) (e # es)))) (length (e # es)) = Inr (take (Suc m) (e # es))"
      using batch_entry_bytes [OF assms, of e] by (simp add: slice_from_in)
    with m(1) show ?thesis by (metis Suc_le_mono length_Cons)
  qed
qed simp

text \<open>
  \<open>parseBatch\<close> reads back every entry the kernel packs, in order, whatever follows them,
  and from a buffer that is cut anywhere it returns a prefix of the entries: it neither
  fails nor invents or garbles one.\<close>

theorem parseBatch_roundtrip:
  assumes "reg_abi_ok A" and "list_all (entry_ok A) es"
  shows "parseBatch A (concat (map (entry_bytes A) es) @ r) (length es) = Inr es \<and>
    (\<exists>m \<le> length es. parseBatch A (take k (concat (map (entry_bytes A) es))) (length es) = Inr (take m es))"
  using parseBatch_whole [OF assms] parseBatch_cut [OF assms] by blast

theorem parseBatch_roundtrip_witness:
  "parseBatch win_reg (concat (map (entry_bytes win_reg)
     [\<lparr>nv_Name = ''a'', nv_Value = DWORD win_reg 7\<rparr>, \<lparr>nv_Name = [], nv_Value = NoneValue win_reg\<rparr>]) @ []) 2
   = Inr [\<lparr>nv_Name = ''a'', nv_Value = DWORD win_reg 7\<rparr>, \<lparr>nv_Name = [], nv_Value = NoneValue win_reg\<rparr>]"
proof -
  have a: "reg_abi_ok win_reg" by code_simp
  have "list_all (entry_ok win_reg)
      [\<lparr>nv_Name = ''a'', nv_Value = DWORD win_reg 7\<rparr>, \<lparr>nv_Name = [], nv_Value = NoneValue win_reg\<rparr>]"
    by (simp add: entry_ok_def value_ok_ctors) (simp add: Encode_def ctor_defs win_reg_def is_str_type_def)
  from parseBatch_roundtrip [OF a this, of "[]"] show ?thesis by (simp add: numeral_2_eq_2)
qed

section \<open>Safety\<close>

lemma multi_loop_no_panic: "no_panic (multi_loop A segs)"
  by (induction segs) (auto simp: malformed_def)

lemma Decode_no_panic: "no_panic (Decode A t d)"
  by (auto simp: Decode_def decodeSZ_def malformed_def decodeMultiSZ_def multi_loop_no_panic Let_def
      go_simps get_be_def intro!: no_panic_bindE)

lemma batch_entry_no_panic: "no_panic (batch_entry A b)"
  by (auto simp: batch_entry_def Let_def go_simps Decode_no_panic intro!: no_panic_bindE)

lemma batch_entry_size: "batch_entry A b = Inr (Some (e, n)) \<Longrightarrow> n \<le> length b"
  by (auto simp: batch_entry_def Let_def split: if_splits)

lemma parseBatch_no_panic: "no_panic (parseBatch A b k)"
  by (induction k arbitrary: b)
    (auto intro!: no_panic_bindE batch_entry_no_panic simp: slice_from_in dest!: batch_entry_size split: option.splits)

text \<open>
  \<open>Decode\<close> and \<open>parseBatch\<close> are safe on any bytes: whatever lengths the kernel's buffer
  claims, no read leaves it.\<close>

theorem parseBatch_safe:
  "Decode A t d \<noteq> Inl Panic \<and> parseBatch A b k \<noteq> Inl Panic"
  using Decode_no_panic [of A t d] parseBatch_no_panic [of A b k] by (simp add: no_panic_def)

end
