(* ===== verification/RegWatch.thy ===== *)
theory RegWatch
  imports RegValue
begin

text \<open>
  The change records of a watched registry key, which two packages parse:
  \<open>parseEvents\<close> of \<^verbatim>\<open>registry/watch.go\<close> turns a read buffer into events, and
  \<open>classifyRecords\<close> of \<^verbatim>\<open>event/policy.go\<close> only asks whether anything changed and whether the
  watched key itself is gone.

  Offsets and sizes of the record come from the generated binding and are parameters;
  \<open>watch_layout\<close> is the layout the comment on \<open>parseEvents\<close> documents. Both loops advance
  by a length read from the buffer, so they take fuel; the fuel their entry points pass
  always suffices under the layout. The lemmas show that both are total and safe on any
  bytes, that \<open>parseEvents\<close> inverts the layout, and that the two parsers agree.
\<close>

record watch_abi =
  WATCH_EVENT_MIN_SIZE :: nat
  WATCH_EVENT_TOTAL_LEN_OFFSET :: nat
  WATCH_EVENT_TYPE_OFFSET :: nat
  WATCH_EVENT_NAME_LEN_OFFSET :: nat
  WATCH_EVENT_NAME_OFFSET :: nat
  WATCH_SUBTREE_PATH_DEPTH_SIZE :: nat
  WATCH_PATH_COMPONENT_LEN_SIZE :: nat
  EventValueSet :: u16
  EventValueDeleted :: u16
  EventSubkeyCreated :: u16
  EventSubkeyDeleted :: u16
  EventSDChanged :: u16
  EventKeyDeleted :: u16
  EventOverflow :: u16

definition watch_layout :: "watch_abi \<Rightarrow> bool" where
  "watch_layout W \<longleftrightarrow> WATCH_EVENT_MIN_SIZE W = 8 \<and> WATCH_EVENT_TOTAL_LEN_OFFSET W = 0
     \<and> WATCH_EVENT_TYPE_OFFSET W = 4 \<and> WATCH_EVENT_NAME_LEN_OFFSET W = 6 \<and> WATCH_EVENT_NAME_OFFSET W = 8
     \<and> WATCH_SUBTREE_PATH_DEPTH_SIZE W = 2 \<and> WATCH_PATH_COMPONENT_LEN_SIZE W = 2"

section \<open>Watch events\<close>

definition WatchEventType_String :: "watch_abi \<Rightarrow> u16 \<Rightarrow> string" where
  "WatchEventType_String W e =
     (if e = EventValueSet W then ''ValueSet''
      else if e = EventValueDeleted W then ''ValueDeleted''
      else if e = EventSubkeyCreated W then ''SubkeyCreated''
      else if e = EventSubkeyDeleted W then ''SubkeyDeleted''
      else if e = EventSDChanged W then ''SDChanged''
      else if e = EventKeyDeleted W then ''KeyDeleted''
      else if e = EventOverflow W then ''Overflow''
      else ''WatchEventType('' @ FormatUint (unat e) 10 @ '')'')"

record WatchEvent =
  we_Type :: u16
  we_Name :: string
  we_Path :: "string list"

text \<open>The path components behind the depth, from the rest of the record.\<close>

fun path_loop :: "watch_abi \<Rightarrow> nat \<Rightarrow> bytes \<Rightarrow> string list result" where
  "path_loop W 0 r = Inr []"
| "path_loop W (Suc k) r =
     (if length r < WATCH_PATH_COMPONENT_LEN_SIZE W then Inr []
      else bindE (get_le16 r) (\<lambda>cl.
        bindE (slice_from r (WATCH_PATH_COMPONENT_LEN_SIZE W)) (\<lambda>r.
        if length r < unat cl then Inr []
        else bindE (slice r 0 (unat cl)) (\<lambda>c.
          bindE (slice_from r (unat cl)) (\<lambda>r.
          bindE (path_loop W k r) (\<lambda>ps. Inr (string_of c # ps)))))))"

definition parse_record :: "watch_abi \<Rightarrow> bytes \<Rightarrow> WatchEvent result" where
  "parse_record W r =
     bindE (bindE (slice_from r (WATCH_EVENT_TYPE_OFFSET W)) get_le16) (\<lambda>t.
     bindE (bindE (slice_from r (WATCH_EVENT_NAME_LEN_OFFSET W)) get_le16) (\<lambda>nl.
     let p = WATCH_EVENT_NAME_OFFSET W; nameLen = unat nl in
     bindE (if p + nameLen \<le> length r then bindE (slice r p (p + nameLen)) (\<lambda>n. Inr (n, p + nameLen))
            else Inr ([], p)) (\<lambda>(name, p).
     bindE (if p + WATCH_SUBTREE_PATH_DEPTH_SIZE W \<le> length r then
              bindE (bindE (slice_from r p) get_le16) (\<lambda>depth.
              bindE (slice_from r (p + WATCH_SUBTREE_PATH_DEPTH_SIZE W)) (path_loop W (unat depth)))
            else Inr []) (\<lambda>path.
     Inr \<lparr>we_Type = t, we_Name = string_of name, we_Path = path\<rparr>))))"

fun events_loop :: "watch_abi \<Rightarrow> nat \<Rightarrow> bytes \<Rightarrow> WatchEvent list result option" where
  "events_loop W 0 b = None"
| "events_loop W (Suc fuel) b =
     (if length b < WATCH_EVENT_MIN_SIZE W then Some (Inr [])
      else case bindE (slice_from b (WATCH_EVENT_TOTAL_LEN_OFFSET W)) get_le32 of
             Inl e \<Rightarrow> Some (Inl e)
           | Inr w \<Rightarrow>
               let totalLen = unat w in
               if totalLen < WATCH_EVENT_MIN_SIZE W \<or> totalLen > length b then Some (Inr [])
               else case parse_record W (take totalLen b) of
                      Inl e \<Rightarrow> Some (Inl e)
                    | Inr ev \<Rightarrow>
                        map_option (\<lambda>r. bindE r (\<lambda>evs. Inr (ev # evs))) (events_loop W fuel (drop totalLen b)))"

definition parseEvents :: "watch_abi \<Rightarrow> bytes \<Rightarrow> WatchEvent list result option" where
  "parseEvents W b = events_loop W (length b + 1) b"

section \<open>The policy's view\<close>

record watchNews =
  wn_changed :: bool
  wn_gone :: bool

definition record_gone :: "watch_abi \<Rightarrow> bytes \<Rightarrow> bool result" where
  "record_gone W r =
     bindE (bindE (slice_from r (WATCH_EVENT_TYPE_OFFSET W)) get_le16) (\<lambda>t.
     if t = EventKeyDeleted W then
       bindE (bindE (slice_from r (WATCH_EVENT_NAME_LEN_OFFSET W)) get_le16) (\<lambda>nl.
       let pos = WATCH_EVENT_NAME_OFFSET W + unat nl in
       if pos + 2 > length r then Inr True
       else bindE (bindE (slice_from r pos) get_le16) (\<lambda>depth. Inr (depth = 0)))
     else Inr False)"

fun classify_loop :: "watch_abi \<Rightarrow> nat \<Rightarrow> watchNews \<Rightarrow> bytes \<Rightarrow> watchNews result option" where
  "classify_loop W 0 n b = None"
| "classify_loop W (Suc fuel) n b =
     (if b = [] then Some (Inr n)
      else if length b < WATCH_EVENT_MIN_SIZE W then Some (Inr (n\<lparr>wn_gone := True\<rparr>))
      else case bindE (slice_from b (WATCH_EVENT_TOTAL_LEN_OFFSET W)) get_le32 of
             Inl e \<Rightarrow> Some (Inl e)
           | Inr w \<Rightarrow>
               let total = unat w in
               if total < WATCH_EVENT_MIN_SIZE W \<or> total > length b then Some (Inr (n\<lparr>wn_gone := True\<rparr>))
               else case record_gone W (take total b) of
                      Inl e \<Rightarrow> Some (Inl e)
                    | Inr g \<Rightarrow>
                        classify_loop W fuel (n\<lparr>wn_changed := True, wn_gone := wn_gone n \<or> g\<rparr>) (drop total b))"

definition classifyRecords :: "watch_abi \<Rightarrow> bytes \<Rightarrow> watchNews result option" where
  "classifyRecords W b = classify_loop W (length b + 1) \<lparr>wn_changed = False, wn_gone = False\<rparr> b"

section \<open>Totality and safety\<close>

lemma path_loop_ok: "watch_layout W \<Longrightarrow> \<exists>ps. path_loop W k r = Inr ps"
proof (induction k arbitrary: r)
  case (Suc k)
  then show ?case
    by (cases "length r < 2") (auto simp: watch_layout_def go_simps bindE_eq_Inr)
qed simp

lemma parse_record_ok:
  assumes "watch_layout W" and "8 \<le> length r"
  shows "\<exists>ev. parse_record W r = Inr ev"
proof -
  have "\<exists>ps. path_loop W k x = Inr ps" for k x using path_loop_ok [OF assms(1)] .
  then show ?thesis
    using assms by (auto simp: parse_record_def watch_layout_def go_simps Let_def bindE_eq_Inr)
qed

lemma record_gone_ok:
  assumes "watch_layout W" and "8 \<le> length r"
  shows "\<exists>g. record_gone W r = Inr g"
  using assms by (auto simp: record_gone_def watch_layout_def go_simps Let_def)

lemma advance:
  assumes "\<not> n < 8" and "\<not> length b < n" and "length b < Suc fuel"
  shows "b \<noteq> []" and "length b - n < fuel"
  using assms by auto

lemma events_loop_total:
  "watch_layout W \<Longrightarrow> length b < fuel \<Longrightarrow> \<exists>evs. events_loop W fuel b = Some (Inr evs)"
proof (induction W fuel b rule: events_loop.induct)
  case (2 W fuel b)
  show ?case
  proof (cases "length b < 8 \<or> unat (le_val (take 4 b) :: u32) < 8 \<or> unat (le_val (take 4 b) :: u32) > length b")
    case True
    then show ?thesis using 2(2) by (auto simp: watch_layout_def go_simps Let_def)
  next
    case False
    let ?n = "unat (le_val (take 4 b) :: u32)"
    obtain ev where ev: "parse_record W (take ?n b) = Inr ev"
      using parse_record_ok [OF 2(2), of "take ?n b"] False by auto
    have h: "bindE (slice_from b (WATCH_EVENT_TOTAL_LEN_OFFSET W)) get_le32 = Inr (le_val (take 4 b))"
      using False 2(2) by (simp add: watch_layout_def go_simps)
    obtain evs where "events_loop W fuel (drop ?n b) = Some (Inr evs)"
      using 2(1) [OF _ h refl _ ev] 2(2,3) False advance(2) [of ?n b fuel] by (auto simp: watch_layout_def)
    then show ?thesis using False ev h 2(2) by (auto simp: watch_layout_def Let_def)
  qed
qed simp

lemma classify_loop_total:
  "watch_layout W \<Longrightarrow> length b < fuel \<Longrightarrow> \<exists>n'. classify_loop W fuel n b = Some (Inr n')"
proof (induction W fuel n b rule: classify_loop.induct)
  case (2 W fuel n b)
  show ?case
  proof (cases "length b < 8 \<or> unat (le_val (take 4 b) :: u32) < 8 \<or> unat (le_val (take 4 b) :: u32) > length b")
    case True
    then show ?thesis using 2(2) by (auto simp: watch_layout_def go_simps Let_def)
  next
    case False
    let ?n = "unat (le_val (take 4 b) :: u32)"
    obtain g where g: "record_gone W (take ?n b) = Inr g"
      using record_gone_ok [OF 2(2), of "take ?n b"] False by auto
    have h: "bindE (slice_from b (WATCH_EVENT_TOTAL_LEN_OFFSET W)) get_le32 = Inr (le_val (take 4 b))"
      using False 2(2) by (simp add: watch_layout_def go_simps)
    obtain n' where "classify_loop W fuel (n\<lparr>wn_changed := True, wn_gone := wn_gone n \<or> g\<rparr>) (drop ?n b) = Some (Inr n')"
      using 2(1) [OF _ _ h refl _ g] 2(2,3) False advance [of ?n b fuel] by (auto simp: watch_layout_def)
    then show ?thesis using False g h 2(2) by (auto simp: watch_layout_def Let_def)
  qed
qed simp

section \<open>Round trip and agreement\<close>

text \<open>A record as the kernel lays it out: with a subtree path behind the name, or without.\<close>

record watch_record =
  wr_event :: WatchEvent
  wr_subtree :: bool

definition comp_bytes :: "string \<Rightarrow> bytes" where
  "comp_bytes c = le16 (of_nat (length c)) @ bytes_of c"

definition path_bytes :: "string list \<Rightarrow> bytes" where
  "path_bytes ps = le16 (of_nat (length ps)) @ concat (map comp_bytes ps)"

definition record_tail :: "watch_record \<Rightarrow> bytes" where
  "record_tail r = le16 (we_Type (wr_event r)) @ le16 (of_nat (length (we_Name (wr_event r))))
     @ bytes_of (we_Name (wr_event r)) @ (if wr_subtree r then path_bytes (we_Path (wr_event r)) else [])"

definition record_bytes :: "watch_record \<Rightarrow> bytes" where
  "record_bytes r = le32 (of_nat (4 + length (record_tail r))) @ record_tail r"

definition record_ok :: "watch_record \<Rightarrow> bool" where
  "record_ok r \<longleftrightarrow> length (we_Name (wr_event r)) < 2 ^ 16 \<and> length (we_Path (wr_event r)) < 2 ^ 16
     \<and> (\<forall>c \<in> set (we_Path (wr_event r)). length c < 2 ^ 16) \<and> (wr_subtree r \<or> we_Path (wr_event r) = [])
     \<and> 4 + length (record_tail r) < 2 ^ 32"

lemma path_loop_bytes:
  "watch_layout W \<Longrightarrow> \<forall>c \<in> set ps. length c < 2 ^ 16 \<Longrightarrow>
   path_loop W (length ps) (concat (map comp_bytes ps)) = Inr ps"
  by (induction ps) (auto simp: comp_bytes_def watch_layout_def slice_in slice_from_in codec_simps)

lemma record_head:
  assumes "record_ok r"
  shows "8 \<le> length (record_bytes r)" and "length (record_bytes r) < 2 ^ 32"
    and "le_val (take 4 (record_bytes r @ b)) = (of_nat (length (record_bytes r)) :: u32)"
  using assms by (simp_all add: record_bytes_def record_ok_def record_tail_def codec_simps)

lemma parse_record_bytes:
  assumes "watch_layout W" and "record_ok r"
  shows "parse_record W (record_bytes r) = Inr (wr_event r)"
proof -
  let ?e = "wr_event r" and ?n = "length (we_Name (wr_event r))" and ?b = "record_bytes r"
  have 1: "bindE (slice_from ?b 4) get_le16 = Inr (we_Type ?e)" "bindE (slice_from ?b 6) get_le16 = Inr (of_nat ?n)"
    by (simp_all add: record_bytes_def record_tail_def slice_from_in codec_simps)
  have 2: "slice ?b 8 (8 + ?n) = Inr (bytes_of (we_Name ?e))"
    by (simp add: record_bytes_def record_tail_def slice_in)
  have n: "unat (of_nat ?n :: u16) = ?n" using assms(2) by (simp add: record_ok_def)
  show ?thesis
  proof (cases "wr_subtree r")
    case False
    then have "length ?b = 8 + ?n" by (simp add: record_bytes_def record_tail_def)
    then show ?thesis
      using 1 2 n False assms by (simp add: parse_record_def watch_layout_def record_ok_def)
  next
    case True
    let ?p = "we_Path ?e"
    have l: "length ?b = 10 + ?n + length (concat (map comp_bytes ?p))"
      using True by (simp add: record_bytes_def record_tail_def path_bytes_def)
    have 3: "bindE (slice_from ?b (8 + ?n)) get_le16 = Inr (of_nat (length ?p))"
        "slice_from ?b (10 + ?n) = Inr (concat (map comp_bytes ?p))"
      using True by (simp_all add: record_bytes_def record_tail_def path_bytes_def slice_from_in codec_simps)
    have "path_loop W (unat (of_nat (length ?p) :: u16)) (concat (map comp_bytes ?p)) = Inr ?p"
      using path_loop_bytes [OF assms(1), of ?p] assms(2) by (simp add: record_ok_def)
    then show ?thesis
      using 1 2 3 n l assms(1) by (simp add: parse_record_def watch_layout_def)
  qed
qed

lemma of_nat_u16_zero: "n < 2 ^ 16 \<Longrightarrow> (of_nat n :: u16) = 0 \<longleftrightarrow> n = 0"
proof
  assume n: "n < 2 ^ 16" and "(of_nat n :: u16) = 0"
  then have "unat (of_nat n :: u16) = 0" by simp
  then show "n = 0" using n by simp
qed simp

lemma record_gone_bytes:
  assumes "watch_layout W" and "record_ok r"
  shows "record_gone W (record_bytes r) = Inr (we_Type (wr_event r) = EventKeyDeleted W \<and> we_Path (wr_event r) = [])"
proof -
  let ?e = "wr_event r" and ?n = "length (we_Name (wr_event r))" and ?b = "record_bytes r"
  have 1: "bindE (slice_from ?b 4) get_le16 = Inr (we_Type ?e)" "bindE (slice_from ?b 6) get_le16 = Inr (of_nat ?n)"
    by (simp_all add: record_bytes_def record_tail_def slice_from_in codec_simps)
  have n: "unat (of_nat ?n :: u16) = ?n" using assms(2) by (simp add: record_ok_def)
  show ?thesis
  proof (cases "wr_subtree r")
    case False
    then have "length ?b = 8 + ?n" by (simp add: record_bytes_def record_tail_def)
    then show ?thesis
      using 1 n False assms by (simp add: record_gone_def watch_layout_def record_ok_def)
  next
    case True
    have "length ?b \<ge> 10 + ?n" using True by (simp add: record_bytes_def record_tail_def path_bytes_def)
    moreover have "bindE (slice_from ?b (8 + ?n)) get_le16 = Inr (of_nat (length (we_Path ?e)))"
      using True by (simp add: record_bytes_def record_tail_def path_bytes_def slice_from_in codec_simps)
    moreover have "(of_nat (length (we_Path ?e)) :: u16) = 0 \<longleftrightarrow> we_Path ?e = []"
      using assms(2) of_nat_u16_zero [of "length (we_Path ?e)"] by (simp add: record_ok_def)
    ultimately show ?thesis
      using 1 n assms(1) by (simp add: record_gone_def watch_layout_def)
  qed
qed

text \<open>One turn of each loop on a well-formed record.\<close>

lemma events_loop_record:
  assumes "watch_layout W" and "record_ok r"
  shows "events_loop W (Suc fuel) (record_bytes r @ b) =
    map_option (\<lambda>x. bindE x (\<lambda>evs. Inr (wr_event r # evs))) (events_loop W fuel b)"
  using assms record_head [OF assms(2)] parse_record_bytes [OF assms]
  by (simp add: watch_layout_def go_simps Let_def)

lemma classify_loop_record:
  assumes "watch_layout W" and "record_ok r"
  shows "classify_loop W (Suc fuel) n (record_bytes r @ b) =
    classify_loop W fuel (n\<lparr>wn_changed := True, wn_gone := wn_gone n \<or>
      we_Type (wr_event r) = EventKeyDeleted W \<and> we_Path (wr_event r) = []\<rparr>) b"
  using assms record_head [OF assms(2)] record_gone_bytes [OF assms]
  by (auto simp: watch_layout_def go_simps Let_def)

declare events_loop.simps [simp del] classify_loop.simps [simp del]

lemma events_loop_bytes:
  "watch_layout W \<Longrightarrow> list_all record_ok rs \<Longrightarrow> length rs < fuel \<Longrightarrow>
   events_loop W fuel (concat (map record_bytes rs)) = Some (Inr (map wr_event rs))"
proof (induction rs arbitrary: fuel)
  case (Cons r rs)
  then obtain f where "fuel = Suc f" by (cases fuel) auto
  with Cons show ?case by (simp add: events_loop_record)
qed (auto simp: watch_layout_def gr0_conv_Suc events_loop.simps)

definition key_gone :: "watch_abi \<Rightarrow> WatchEvent \<Rightarrow> bool" where
  "key_gone W e \<longleftrightarrow> we_Type e = EventKeyDeleted W \<and> we_Path e = []"

lemma classify_loop_bytes:
  "watch_layout W \<Longrightarrow> list_all record_ok rs \<Longrightarrow> length rs < fuel \<Longrightarrow>
   classify_loop W fuel n (concat (map record_bytes rs)) =
     Some (Inr \<lparr>wn_changed = wn_changed n \<or> rs \<noteq> [],
       wn_gone = wn_gone n \<or> list_ex (\<lambda>r. key_gone W (wr_event r)) rs\<rparr>)"
proof (induction rs arbitrary: fuel n)
  case (Cons r rs)
  then obtain f where "fuel = Suc f" by (cases fuel) auto
  with Cons show ?case
    by (simp add: classify_loop_record key_gone_def disj_assoc)
qed (auto simp: gr0_conv_Suc classify_loop.simps)

lemma records_length: "list_all record_ok rs \<Longrightarrow> length rs \<le> length (concat (map record_bytes rs))"
  by (induction rs) (auto simp: record_bytes_def)

text \<open>C27
  \<open>parseEvents\<close> inverts the record layout: a read buffer of well-formed records, direct and
  subtree ones in any order, is turned into exactly their events, with names and path
  components unchanged.\<close>

theorem parseEvents_roundtrip:
  assumes "watch_layout W" and "list_all record_ok rs"
  shows "parseEvents W (concat (map record_bytes rs)) = Some (Inr (map wr_event rs))"
  unfolding parseEvents_def using events_loop_bytes [OF assms] records_length [OF assms(2)] by simp

text \<open>C28
  The two readers of watch records agree: on every buffer of well-formed records the
  policy's classifier reports a change exactly when \<open>parseEvents\<close> yields an event, and the
  watched key as gone exactly when one of these events deletes the key itself.\<close>

theorem classifyRecords_agrees:
  assumes "watch_layout W" and "list_all record_ok rs"
    and "parseEvents W (concat (map record_bytes rs)) = Some (Inr evs)"
  shows "classifyRecords W (concat (map record_bytes rs)) =
    Some (Inr \<lparr>wn_changed = (evs \<noteq> []), wn_gone = list_ex (key_gone W) evs\<rparr>)"
proof -
  have "evs = map wr_event rs"
    using assms(3) events_loop_bytes [OF assms(1,2)] records_length [OF assms(2)] by (simp add: parseEvents_def)
  then show ?thesis
    using classify_loop_bytes [OF assms(1,2)] records_length [OF assms(2)]
    by (simp add: classifyRecords_def list_ex_iff)
qed


text \<open>The documented layout, for the witnesses.\<close>

definition sample_watch :: watch_abi where
  "sample_watch = \<lparr>WATCH_EVENT_MIN_SIZE = 8, WATCH_EVENT_TOTAL_LEN_OFFSET = 0, WATCH_EVENT_TYPE_OFFSET = 4,
     WATCH_EVENT_NAME_LEN_OFFSET = 6, WATCH_EVENT_NAME_OFFSET = 8, WATCH_SUBTREE_PATH_DEPTH_SIZE = 2,
     WATCH_PATH_COMPONENT_LEN_SIZE = 2, EventValueSet = 1, EventValueDeleted = 2, EventSubkeyCreated = 3,
     EventSubkeyDeleted = 4, EventSDChanged = 5, EventKeyDeleted = 6, EventOverflow = 7\<rparr>"

definition sample_records :: "watch_record list" where
  "sample_records = [\<lparr>wr_event = \<lparr>we_Type = 1, we_Name = ''v'', we_Path = [''a'', ''b'']\<rparr>, wr_subtree = True\<rparr>,
     \<lparr>wr_event = \<lparr>we_Type = 6, we_Name = [], we_Path = []\<rparr>, wr_subtree = False\<rparr>]"

lemma sample_watch_ok: "watch_layout sample_watch" "list_all record_ok sample_records"
  by (simp_all add: watch_layout_def sample_watch_def sample_records_def record_ok_def record_tail_def
      path_bytes_def comp_bytes_def)

theorem parseEvents_roundtrip_witness:
  "parseEvents sample_watch (concat (map record_bytes sample_records)) = Some (Inr (map wr_event sample_records))"
  by (rule parseEvents_roundtrip [OF sample_watch_ok])

theorem classifyRecords_agrees_witness:
  "classifyRecords sample_watch (concat (map record_bytes sample_records))
   = Some (Inr \<lparr>wn_changed = True, wn_gone = True\<rparr>)"
proof -
  have p: "parseEvents sample_watch (concat (map record_bytes sample_records)) = Some (Inr (map wr_event sample_records))"
    using events_loop_bytes [OF sample_watch_ok] records_length [OF sample_watch_ok(2)] by (simp add: parseEvents_def)
  show ?thesis
    using classifyRecords_agrees [OF sample_watch_ok p]
    by (simp add: sample_records_def key_gone_def sample_watch_def)
qed


end
