(* ===== verification/Registry.thy ===== *)
theory Registry
  imports Io RegValue RegWatch KernelSd
begin

text \<open>
  \<^verbatim>\<open>registry/registry.go\<close>, \<^verbatim>\<open>registry/create.go\<close>, \<^verbatim>\<open>registry/write.go\<close>, \<^verbatim>\<open>registry/read.go\<close>, \<^verbatim>\<open>registry/watch.go\<close>
  and \<^verbatim>\<open>registry/syscalls.go\<close>: key handles and the operations on them.

  The kernel is a record of system calls and ioctls on a state \<open>'w\<close>; argument blocks are
  records, and a pointer with its length is the buffer it points to. A handle is a value:
  \<open>Close\<close> returns the spent handle, as the source overwrites the descriptor with -1.
\<close>

section \<open>The kernel's interface\<close>

record create_args =
  ca_Parent_fd :: int
  ca_Path :: bytes
  ca_Desired_access :: u32
  ca_Layer :: bytes
  ca_Flags :: u32
  ca_Txn_fd :: int
  ca_Disposition :: u32

record set_value_args =
  sv_Name :: bytes
  sv_Type :: u32
  sv_Data :: bytes
  sv_Layer :: bytes
  sv_Txn_fd :: int
  sv_Expected_seq :: u64

record query_value_args =
  qv_Name :: bytes
  qv_Txn_fd :: int
  qv_Type :: u32
  qv_Data :: bytes
  qv_Data_len :: u32
  qv_Layer :: bytes
  qv_Layer_len :: u32
  qv_Sequence :: u64

record batch_args =
  ba_Buf :: bytes
  ba_Buf_len :: u32
  ba_Count :: u32
  ba_Txn_fd :: int

record enum_args =
  ea_Index :: u32
  ea_Name :: bytes
  ea_Name_len :: u32
  ea_Txn_fd :: int
  ea_Last_write_time :: u64
  ea_Subkey_count :: u32
  ea_Value_count :: u32

record info_args =
  ia_Name :: bytes
  ia_Name_len :: u32
  ia_Last_write_time :: u64
  ia_Subkey_count :: u32
  ia_Value_count :: u32
  ia_Max_subkey_name_len :: u32
  ia_Max_value_name_len :: u32
  ia_Max_value_data_size :: u32
  ia_Sd_size :: u32
  ia_Volatile_key :: u8
  ia_Symlink :: u8
  ia_Hive_generation :: u64

record security_args =
  sa_Security_info :: u32
  sa_Sd :: bytes
  sa_Sd_len :: u32

record 'w reg_kernel =
  k_open_key :: "int \<Rightarrow> bytes \<Rightarrow> u32 \<Rightarrow> u32 \<Rightarrow> 'w syscall"
  k_create_key :: "(create_args \<times> 'w) syscall"
  k_begin :: "'w syscall"
  k_close :: "int \<Rightarrow> 'w syscall"
  k_set_value :: "int \<Rightarrow> set_value_args \<Rightarrow> 'w syscall"
  k_delete_value :: "int \<Rightarrow> bytes \<Rightarrow> bytes \<Rightarrow> int \<Rightarrow> 'w syscall"
  k_blanket_tombstone :: "int \<Rightarrow> bytes \<Rightarrow> u8 \<Rightarrow> int \<Rightarrow> 'w syscall"
  k_delete_key :: "int \<Rightarrow> bytes \<Rightarrow> int \<Rightarrow> 'w syscall"
  k_hide_key :: "int \<Rightarrow> bytes \<Rightarrow> int \<Rightarrow> 'w syscall"
  k_query_value :: "int \<Rightarrow> (query_value_args \<times> 'w) syscall"
  k_query_batch :: "int \<Rightarrow> (batch_args \<times> 'w) syscall"
  k_enum_subkeys :: "int \<Rightarrow> (enum_args \<times> 'w) syscall"
  k_query_key_info :: "int \<Rightarrow> (info_args \<times> 'w) syscall"
  k_get_security :: "int \<Rightarrow> (security_args \<times> 'w) syscall"
  k_set_security :: "int \<Rightarrow> u32 \<Rightarrow> bytes \<Rightarrow> int \<Rightarrow> 'w syscall"
  k_flush :: "int \<Rightarrow> 'w syscall"
  k_backup :: "int \<Rightarrow> int \<Rightarrow> 'w syscall"
  k_restore :: "int \<Rightarrow> int \<Rightarrow> 'w syscall"
  k_notify :: "int \<Rightarrow> u32 \<Rightarrow> u8 \<Rightarrow> 'w syscall"
  k_read :: "int \<Rightarrow> (bytes \<times> 'w) syscall"
  k_commit :: "int \<Rightarrow> 'w syscall"
  k_txn_status :: "int \<Rightarrow> (u32 \<times> 'w) syscall"

definition parentNone :: int where "parentNone = -1"
definition noTxn :: int where "noTxn = -1"
definition dataCapHint :: nat where "dataCapHint = 256"
definition nameCapHint :: nat where "nameCapHint = 64"
definition sdCapHint :: nat where "sdCapHint = 1024"
definition maxProbeRetries :: nat where "maxProbeRetries = 4"

text \<open>Go's \<open>int32(x)\<close> and \<open>int(r)\<close> on a raw result.\<close>

definition int32 :: "int \<Rightarrow> int" where "int32 x = signed_take_bit 31 x"
definition int_of :: "u64 \<Rightarrow> int" where "int_of r = sint r"

definition layerBytes :: "string \<Rightarrow> bytes" where
  "layerBytes layer = (if layer = [] then [] else bytes_of layer)"

text \<open>What the kernel reads of a pointer with a \<open>uint32(len(b))\<close> beside it.\<close>

definition counted :: "bytes \<Rightarrow> bytes" where
  "counted b = take (unat (of_nat (length b) :: u32)) b"

lemma counted_id [simp]: "length b < 2 ^ 32 \<Longrightarrow> counted b = b"
  by (simp add: counted_def)

definition boolU8 :: "bool \<Rightarrow> u8" where "boolU8 b = (if b then 1 else 0)"

definition discard :: "('w, 'a) io \<Rightarrow> ('w, unit) io" where
  "discard m = bindIO m (\<lambda>_. retIO ())"

section \<open>Handles\<close>

record Key =
  key_fd :: int

definition openAt :: "'w reg_kernel \<Rightarrow> int \<Rightarrow> string \<Rightarrow> u32 \<Rightarrow> u32 \<Rightarrow> ('w, Key) io" where
  "openAt K parentFD path access flags =
     (case BytePtrFromString path of
        Inl e \<Rightarrow> failIO (Wrap ''libp/registry: open: invalid path: '' e)
      | Inr cpath \<Rightarrow>
          bindIO (wrapIO ''libp/registry: open: '' (retried (k_open_key K parentFD cpath access flags))) (\<lambda>r.
          retIO \<lparr>key_fd = int_of r\<rparr>))"

definition Open :: "'w reg_kernel \<Rightarrow> string \<Rightarrow> u32 \<Rightarrow> ('w, Key) io" where
  "Open K path access = openAt K parentNone path access 0"

definition OpenSubkey :: "'w reg_kernel \<Rightarrow> Key \<Rightarrow> string \<Rightarrow> u32 \<Rightarrow> ('w, Key) io" where
  "OpenSubkey K k path access = openAt K (key_fd k) path access 0"

text \<open>\<open>Close\<close> yields the result and the spent handle.\<close>

definition close_fd :: "(int \<Rightarrow> 'w syscall) \<Rightarrow> string \<Rightarrow> int \<Rightarrow> ('w, unit) io" where
  "close_fd close msg fd = (if fd < 0 then retIO () else wrapIO msg (discard (once (close fd))))"

definition Key_Close :: "'w reg_kernel \<Rightarrow> Key \<Rightarrow> ('w, unit) io \<times> Key" where
  "Key_Close K k = (close_fd (k_close K) ''libp/registry: close: '' (key_fd k),
     if key_fd k < 0 then k else k\<lparr>key_fd := -1\<rparr>)"

section \<open>Creating keys\<close>

record CreateOptions =
  co_parentFD :: int
  co_path :: string
  co_access :: u32
  co_layer :: string
  co_flags :: u32
  co_txnFD :: int

definition createAt :: "u32 \<Rightarrow> int \<Rightarrow> string \<Rightarrow> CreateOptions" where
  "createAt MaximumAllowed parentFD path = \<lparr>co_parentFD = parentFD, co_path = path,
     co_access = MaximumAllowed, co_layer = [], co_flags = 0, co_txnFD = noTxn\<rparr>"

definition Create :: "u32 \<Rightarrow> string \<Rightarrow> CreateOptions" where
  "Create MaximumAllowed path = createAt MaximumAllowed parentNone path"

definition CreateSubkey :: "u32 \<Rightarrow> Key \<Rightarrow> string \<Rightarrow> CreateOptions" where
  "CreateSubkey MaximumAllowed k path = createAt MaximumAllowed (key_fd k) path"

definition co_Access :: "u32 \<Rightarrow> CreateOptions \<Rightarrow> CreateOptions" where "co_Access a c = c\<lparr>co_access := a\<rparr>"
definition co_Layer :: "string \<Rightarrow> CreateOptions \<Rightarrow> CreateOptions" where "co_Layer n c = c\<lparr>co_layer := n\<rparr>"
definition co_Volatile :: "u32 \<Rightarrow> CreateOptions \<Rightarrow> CreateOptions" where
  "co_Volatile OPTION_VOLATILE c = c\<lparr>co_flags := co_flags c OR OPTION_VOLATILE\<rparr>"
definition co_CreateLink :: "u32 \<Rightarrow> CreateOptions \<Rightarrow> CreateOptions" where
  "co_CreateLink OPTION_CREATE_LINK c = c\<lparr>co_flags := co_flags c OR OPTION_CREATE_LINK\<rparr>"
definition withTxn :: "int \<Rightarrow> CreateOptions \<Rightarrow> CreateOptions" where "withTxn fd c = c\<lparr>co_txnFD := fd\<rparr>"

definition Disposition_String :: "u32 \<Rightarrow> u32 \<Rightarrow> u32 \<Rightarrow> string" where
  "Disposition_String CreatedNew OpenedExisting d =
     (if d = CreatedNew then ''CreatedNew'' else if d = OpenedExisting then ''OpenedExisting''
      else ''Disposition('' @ FormatUint (unat d) 10 @ '')'')"

definition create_args_of :: "CreateOptions \<Rightarrow> bytes \<Rightarrow> bytes \<Rightarrow> create_args" where
  "create_args_of c cpath clayer = \<lparr>ca_Parent_fd = int32 (co_parentFD c), ca_Path = cpath,
     ca_Desired_access = co_access c, ca_Layer = clayer, ca_Flags = co_flags c,
     ca_Txn_fd = int32 (co_txnFD c), ca_Disposition = 0\<rparr>"

definition Create_Call :: "'w reg_kernel \<Rightarrow> CreateOptions \<Rightarrow> ('w, Key \<times> u32) io" where
  "Create_Call K c =
     (case BytePtrFromString (co_path c) of
        Inl e \<Rightarrow> failIO (Wrap ''libp/registry: create: invalid path: '' e)
      | Inr cpath \<Rightarrow>
          (case (if co_layer c = [] then Inr [] else BytePtrFromString (co_layer c)) of
             Inl e \<Rightarrow> failIO (Wrap ''libp/registry: create: invalid layer: '' e)
           | Inr clayer \<Rightarrow> (\<lambda>w.
               case Retry (k_create_key K) (create_args_of c cpath clayer, w) of None \<Rightarrow> None
               | Some ((_, Some e), (_, w)) \<Rightarrow> Some (Inl (Wrap ''libp/registry: create: '' e), w)
               | Some ((r, None), (a, w)) \<Rightarrow> Some (Inr (\<lparr>key_fd = int_of r\<rparr>, ca_Disposition a), w))))"

section \<open>Writing through a layer\<close>

record LayerWrite =
  lw_key :: Key
  lw_layer :: string
  lw_txnFD :: int

definition newLayerWrite :: "Key \<Rightarrow> string \<Rightarrow> int \<Rightarrow> LayerWrite" where
  "newLayerWrite k layer fd = \<lparr>lw_key = k, lw_layer = layer, lw_txnFD = fd\<rparr>"

definition Key_Base :: "Key \<Rightarrow> LayerWrite" where "Key_Base k = newLayerWrite k [] noTxn"
definition Key_Layer :: "Key \<Rightarrow> string \<Rightarrow> LayerWrite" where "Key_Layer k name = newLayerWrite k name noTxn"

definition writeValue :: "'w reg_kernel \<Rightarrow> LayerWrite \<Rightarrow> string \<Rightarrow> u32 \<Rightarrow> bytes \<Rightarrow> u64 \<Rightarrow> ('w, unit) io" where
  "writeValue K lw name t d expectedSeq =
     wrapIO ''libp/registry: set value: '' (discard (retried (k_set_value K (key_fd (lw_key lw))
       \<lparr>sv_Name = counted (bytes_of name), sv_Type = t, sv_Data = counted d,
        sv_Layer = counted (layerBytes (lw_layer lw)),
        sv_Txn_fd = int32 (lw_txnFD lw), sv_Expected_seq = expectedSeq\<rparr>)))"

definition SetValue :: "'w reg_kernel \<Rightarrow> 'm reg_abi_scheme \<Rightarrow> LayerWrite \<Rightarrow> string \<Rightarrow> Value \<Rightarrow> ('w, unit) io" where
  "SetValue K A lw name v = (case Encode A v of (t, d) \<Rightarrow> writeValue K lw name t d 0)"

definition SetValueIf ::
  "'w reg_kernel \<Rightarrow> 'm reg_abi_scheme \<Rightarrow> LayerWrite \<Rightarrow> string \<Rightarrow> Value \<Rightarrow> u64 \<Rightarrow> ('w, unit) io" where
  "SetValueIf K A lw name v expectedSeq = (case Encode A v of (t, d) \<Rightarrow> writeValue K lw name t d expectedSeq)"

definition TombstoneValue :: "'w reg_kernel \<Rightarrow> u32 \<Rightarrow> LayerWrite \<Rightarrow> string \<Rightarrow> ('w, unit) io" where
  "TombstoneValue K typeTombstone lw name = writeValue K lw name typeTombstone [] 0"

definition DeleteValue :: "'w reg_kernel \<Rightarrow> LayerWrite \<Rightarrow> string \<Rightarrow> ('w, unit) io" where
  "DeleteValue K lw name =
     wrapIO ''libp/registry: delete value: '' (discard (retried (k_delete_value K (key_fd (lw_key lw))
       (counted (bytes_of name)) (counted (layerBytes (lw_layer lw))) (int32 (lw_txnFD lw)))))"

definition BlanketTombstone :: "'w reg_kernel \<Rightarrow> LayerWrite \<Rightarrow> bool \<Rightarrow> ('w, unit) io" where
  "BlanketTombstone K lw on =
     wrapIO ''libp/registry: blanket tombstone: '' (discard (retried (k_blanket_tombstone K (key_fd (lw_key lw))
       (counted (layerBytes (lw_layer lw))) (boolU8 on) (int32 (lw_txnFD lw)))))"

definition DeleteKey :: "'w reg_kernel \<Rightarrow> LayerWrite \<Rightarrow> ('w, unit) io" where
  "DeleteKey K lw =
     wrapIO ''libp/registry: delete key: '' (discard (retried (k_delete_key K (key_fd (lw_key lw))
       (counted (layerBytes (lw_layer lw))) (int32 (lw_txnFD lw)))))"

definition HideKey :: "'w reg_kernel \<Rightarrow> LayerWrite \<Rightarrow> ('w, unit) io" where
  "HideKey K lw =
     wrapIO ''libp/registry: hide key: '' (discard (retried (k_hide_key K (key_fd (lw_key lw))
       (counted (layerBytes (lw_layer lw))) (int32 (lw_txnFD lw)))))"

section \<open>Reading\<close>

record Subkey =
  sk_Name :: string
  sk_LastWriteTime :: u64
  sk_SubkeyCount :: u32
  sk_ValueCount :: u32

record ValueHit =
  vh_Value :: Value
  vh_Layer :: string
  vh_Sequence :: u64

record KeyInfo =
  ki_Name :: string
  ki_LastWriteTime :: u64
  ki_SubkeyCount :: u32
  ki_ValueCount :: u32
  ki_MaxSubkeyNameLen :: u32
  ki_MaxValueNameLen :: u32
  ki_MaxValueDataSize :: u32
  ki_SDSize :: u32
  ki_Volatile :: bool
  ki_Symlink :: bool
  ki_HiveGeneration :: u64

definition err_is :: "gerr option \<Rightarrow> gerr \<Rightarrow> bool" where
  "err_is err target \<longleftrightarrow> (case err of None \<Rightarrow> False | Some e \<Rightarrow> errors_is e target)"

definition zeros :: "u32 \<Rightarrow> bytes" where "zeros n = replicate (unat n) 0"

definition query_args :: "string \<Rightarrow> int \<Rightarrow> bytes \<Rightarrow> bytes \<Rightarrow> query_value_args" where
  "query_args name txnFD d l = \<lparr>qv_Name = counted (bytes_of name), qv_Txn_fd = int32 txnFD, qv_Type = 0, qv_Data = d,
     qv_Data_len = of_nat (length d), qv_Layer = l, qv_Layer_len = 0, qv_Sequence = 0\<rparr>"

definition query_hit :: "'m reg_abi_scheme \<Rightarrow> query_value_args \<Rightarrow> ValueHit result" where
  "query_hit A a =
     bindE (slice (qv_Data a) 0 (unat (qv_Data_len a))) (\<lambda>d.
     bindE (Decode A (qv_Type a) d) (\<lambda>v.
     bindE (slice (qv_Layer a) 0 (unat (qv_Layer_len a))) (\<lambda>l.
     Inr \<lparr>vh_Value = v, vh_Layer = string_of l, vh_Sequence = qv_Sequence a\<rparr>)))"

definition query_step :: "'w reg_kernel \<Rightarrow> 'm reg_abi_scheme \<Rightarrow> Key \<Rightarrow> string \<Rightarrow> int \<Rightarrow>
    bytes \<times> bytes \<Rightarrow> 'w \<Rightarrow> ((bytes \<times> bytes, ValueHit) attempt \<times> 'w) option" where
  "query_step K A k name txnFD = (\<lambda>(d, l) w.
     case ioctl_rw (k_query_value K (key_fd k)) (query_args name txnFD d l) w of None \<Rightarrow> None
     | Some (err, a, w) \<Rightarrow>
         Some (if err_is err ERANGE then Again (zeros (qv_Data_len a), zeros (qv_Layer_len a))
               else case err of
                      Some e \<Rightarrow> Stop (Inl (Wrap ''libp/registry: query value: '' e))
                    | None \<Rightarrow> Stop (query_hit A a), w))"

definition queryValueIn :: "'w reg_kernel \<Rightarrow> 'm reg_abi_scheme \<Rightarrow> Key \<Rightarrow> string \<Rightarrow> int \<Rightarrow> ('w, ValueHit) io" where
  "queryValueIn K A k name txnFD =
     probe (query_step K A k name txnFD) (Wrap ''libp/registry: query value: '' ERANGE) maxProbeRetries
       (replicate dataCapHint 0, replicate nameCapHint 0)"

definition QueryValue :: "'w reg_kernel \<Rightarrow> 'm reg_abi_scheme \<Rightarrow> Key \<Rightarrow> string \<Rightarrow> ('w, Value) io" where
  "QueryValue K A k name = bindIO (queryValueIn K A k name noTxn) (\<lambda>h. retIO (vh_Value h))"

definition QueryValueFull :: "'w reg_kernel \<Rightarrow> 'm reg_abi_scheme \<Rightarrow> Key \<Rightarrow> string \<Rightarrow> ('w, ValueHit) io" where
  "QueryValueFull K A k name = queryValueIn K A k name noTxn"

definition try_query :: "('w, ValueHit) io \<Rightarrow> ('w, Value option) io" where
  "try_query m w =
     (case m w of None \<Rightarrow> None
      | Some (Inl e, w) \<Rightarrow> Some (if errors_is e ENOENT then Inr None else Inl e, w)
      | Some (Inr h, w) \<Rightarrow> Some (Inr (Some (vh_Value h)), w))"

definition TryQueryValue :: "'w reg_kernel \<Rightarrow> 'm reg_abi_scheme \<Rightarrow> Key \<Rightarrow> string \<Rightarrow> ('w, Value option) io" where
  "TryQueryValue K A k name = try_query (queryValueIn K A k name noTxn)"

definition values_step :: "'w reg_kernel \<Rightarrow> 'm reg_abi_scheme \<Rightarrow> Key \<Rightarrow> int \<Rightarrow>
    bytes \<Rightarrow> 'w \<Rightarrow> ((bytes, NamedValue list) attempt \<times> 'w) option" where
  "values_step K A k txnFD b w =
     (case ioctl_rw (k_query_batch K (key_fd k)) \<lparr>ba_Buf = b, ba_Buf_len = of_nat (length b), ba_Count = 0,
         ba_Txn_fd = int32 txnFD\<rparr> w of None \<Rightarrow> None
      | Some (err, a, w) \<Rightarrow>
          Some (if err_is err ERANGE then Again (zeros (ba_Buf_len a))
                else case err of
                       Some e \<Rightarrow> Stop (Inl (Wrap ''libp/registry: query values: '' e))
                     | None \<Rightarrow> Stop (bindE (slice (ba_Buf a) 0 (unat (ba_Buf_len a))) (\<lambda>b.
                         parseBatch A b (unat (ba_Count a)))), w))"

definition valuesIn :: "'w reg_kernel \<Rightarrow> 'm reg_abi_scheme \<Rightarrow> Key \<Rightarrow> int \<Rightarrow> ('w, NamedValue list) io" where
  "valuesIn K A k txnFD =
     probe (values_step K A k txnFD) (Wrap ''libp/registry: query values: '' ERANGE) maxProbeRetries
       (replicate (dataCapHint * 4) 0)"

definition Values :: "'w reg_kernel \<Rightarrow> 'm reg_abi_scheme \<Rightarrow> Key \<Rightarrow> ('w, NamedValue list) io" where
  "Values K A k = valuesIn K A k noTxn"

definition enum_step :: "'w reg_kernel \<Rightarrow> Key \<Rightarrow> u32 \<Rightarrow> int \<Rightarrow>
    bytes \<Rightarrow> 'w \<Rightarrow> ((bytes, Subkey option) attempt \<times> 'w) option" where
  "enum_step K k index txnFD b w =
     (case ioctl_rw (k_enum_subkeys K (key_fd k)) \<lparr>ea_Index = index, ea_Name = b, ea_Name_len = of_nat (length b),
         ea_Txn_fd = int32 txnFD, ea_Last_write_time = 0, ea_Subkey_count = 0, ea_Value_count = 0\<rparr> w of
        None \<Rightarrow> None
      | Some (err, a, w) \<Rightarrow>
          Some (if err_is err ENOENT then Stop (Inr None)
                else if err_is err ERANGE then Again (zeros (ea_Name_len a))
                else case err of
                       Some e \<Rightarrow> Stop (Inl (Wrap ''libp/registry: enum subkey: '' e))
                     | None \<Rightarrow> Stop (bindE (slice (ea_Name a) 0 (unat (ea_Name_len a))) (\<lambda>n.
                         Inr (Some \<lparr>sk_Name = string_of n, sk_LastWriteTime = ea_Last_write_time a,
                           sk_SubkeyCount = ea_Subkey_count a, sk_ValueCount = ea_Value_count a\<rparr>))), w))"

definition enumSubkeyAt :: "'w reg_kernel \<Rightarrow> Key \<Rightarrow> u32 \<Rightarrow> int \<Rightarrow> ('w, Subkey option) io" where
  "enumSubkeyAt K k index txnFD =
     probe (enum_step K k index txnFD) (Wrap ''libp/registry: enum subkey: '' ERANGE) maxProbeRetries
       (replicate nameCapHint 0)"

text \<open>The enumeration has no bound of its own (its 32-bit index wraps), so not ending is \<open>None\<close>.\<close>

partial_function (option) subkeys_from ::
  "'w reg_kernel \<Rightarrow> Key \<Rightarrow> int \<Rightarrow> u32 \<Rightarrow> Subkey list \<Rightarrow> 'w \<Rightarrow> (Subkey list result \<times> 'w) option" where
  "subkeys_from K k txnFD index out w =
     (case enumSubkeyAt K k index txnFD w of None \<Rightarrow> None
      | Some (r, w) \<Rightarrow>
          (case r of Inl e \<Rightarrow> Some (Inl e, w)
           | Inr None \<Rightarrow> Some (Inr out, w)
           | Inr (Some sk) \<Rightarrow> subkeys_from K k txnFD (index + 1) (out @ [sk]) w))"

definition subkeysIn :: "'w reg_kernel \<Rightarrow> Key \<Rightarrow> int \<Rightarrow> ('w, Subkey list) io" where
  "subkeysIn K k txnFD = subkeys_from K k txnFD 0 []"

definition Subkeys :: "'w reg_kernel \<Rightarrow> Key \<Rightarrow> ('w, Subkey list) io" where
  "Subkeys K k = subkeysIn K k noTxn"

definition info_step :: "'w reg_kernel \<Rightarrow> Key \<Rightarrow> bytes \<Rightarrow> 'w \<Rightarrow> ((bytes, KeyInfo) attempt \<times> 'w) option" where
  "info_step K k b w =
     (case ioctl_rw (k_query_key_info K (key_fd k)) \<lparr>ia_Name = b, ia_Name_len = of_nat (length b),
         ia_Last_write_time = 0, ia_Subkey_count = 0, ia_Value_count = 0, ia_Max_subkey_name_len = 0,
         ia_Max_value_name_len = 0, ia_Max_value_data_size = 0, ia_Sd_size = 0, ia_Volatile_key = 0,
         ia_Symlink = 0, ia_Hive_generation = 0\<rparr> w of
        None \<Rightarrow> None
      | Some (err, a, w) \<Rightarrow>
          Some (if err_is err ERANGE then Again (zeros (ia_Name_len a))
                else case err of
                       Some e \<Rightarrow> Stop (Inl (Wrap ''libp/registry: key info: '' e))
                     | None \<Rightarrow> Stop (bindE (slice (ia_Name a) 0 (unat (ia_Name_len a))) (\<lambda>n.
                         Inr \<lparr>ki_Name = string_of n, ki_LastWriteTime = ia_Last_write_time a,
                           ki_SubkeyCount = ia_Subkey_count a, ki_ValueCount = ia_Value_count a,
                           ki_MaxSubkeyNameLen = ia_Max_subkey_name_len a,
                           ki_MaxValueNameLen = ia_Max_value_name_len a,
                           ki_MaxValueDataSize = ia_Max_value_data_size a, ki_SDSize = ia_Sd_size a,
                           ki_Volatile = (ia_Volatile_key a \<noteq> 0), ki_Symlink = (ia_Symlink a \<noteq> 0),
                           ki_HiveGeneration = ia_Hive_generation a\<rparr>)), w))"

definition Key_Info :: "'w reg_kernel \<Rightarrow> Key \<Rightarrow> ('w, KeyInfo) io" where
  "Key_Info K k =
     probe (info_step K k) (Wrap ''libp/registry: key info: '' ERANGE) maxProbeRetries (replicate nameCapHint 0)"

definition security_step :: "'w reg_kernel \<Rightarrow> Key \<Rightarrow> u32 \<Rightarrow> bytes \<Rightarrow> 'w \<Rightarrow> ((bytes, bytes) attempt \<times> 'w) option" where
  "security_step K k info b w =
     (case ioctl_rw (k_get_security K (key_fd k)) \<lparr>sa_Security_info = info, sa_Sd = b, sa_Sd_len = of_nat (length b)\<rparr> w of
        None \<Rightarrow> None
      | Some (err, a, w) \<Rightarrow>
          Some (if err_is err ERANGE then Again (zeros (sa_Sd_len a))
                else case err of
                       Some e \<Rightarrow> Stop (Inl (Wrap ''libp/registry: get security: '' e))
                     | None \<Rightarrow> Stop (slice (sa_Sd a) 0 (unat (sa_Sd_len a))), w))"

definition Security :: "'w reg_kernel \<Rightarrow> Key \<Rightarrow> u32 \<Rightarrow> ('w, bytes) io" where
  "Security K k info =
     probe (security_step K k info) (Wrap ''libp/registry: get security: '' ERANGE) maxProbeRetries
       (replicate sdCapHint 0)"

definition setSecurityIn :: "'w reg_kernel \<Rightarrow> Key \<Rightarrow> u32 \<Rightarrow> bytes \<Rightarrow> int \<Rightarrow> ('w, unit) io" where
  "setSecurityIn K k info sdBytes txnFD =
     wrapIO ''libp/registry: set security: '' (discard (retried (k_set_security K (key_fd k) info (counted sdBytes) (int32 txnFD))))"

definition SetSecurity :: "'w reg_kernel \<Rightarrow> Key \<Rightarrow> u32 \<Rightarrow> bytes \<Rightarrow> ('w, unit) io" where
  "SetSecurity K k info sdBytes = setSecurityIn K k info sdBytes noTxn"

definition Flush :: "'w reg_kernel \<Rightarrow> Key \<Rightarrow> ('w, unit) io" where
  "Flush K k = wrapIO ''libp/registry: flush: '' (discard (retried (k_flush K (key_fd k))))"

definition Backup :: "'w reg_kernel \<Rightarrow> Key \<Rightarrow> int \<Rightarrow> ('w, unit) io" where
  "Backup K k fd = wrapIO ''libp/registry: backup: '' (discard (retried (k_backup K (key_fd k) (int32 fd))))"

definition Restore :: "'w reg_kernel \<Rightarrow> Key \<Rightarrow> int \<Rightarrow> ('w, unit) io" where
  "Restore K k fd = wrapIO ''libp/registry: restore: '' (discard (retried (k_restore K (key_fd k) (int32 fd))))"

section \<open>Watching\<close>

definition watchReadBuf :: nat where "watchReadBuf = 64 * 1024"

definition Watch :: "'w reg_kernel \<Rightarrow> Key \<Rightarrow> u32 \<Rightarrow> bool \<Rightarrow> ('w, unit) io" where
  "Watch K k flt subtree =
     wrapIO ''libp/registry: watch: '' (discard (retried (k_notify K (key_fd k) flt (boolU8 subtree))))"

definition Disarm :: "'w reg_kernel \<Rightarrow> Key \<Rightarrow> ('w, unit) io" where
  "Disarm K k = Watch K k 0 False"

text \<open>One read without retry: an interruption surfaces as an error.\<close>

definition ReadEvents :: "'w reg_kernel \<Rightarrow> watch_abi \<Rightarrow> Key \<Rightarrow> ('w, WatchEvent list) io" where
  "ReadEvents K W k w =
     (case k_read K (key_fd k) (replicate watchReadBuf 0, w) of ((r, e), (b, w)) \<Rightarrow>
        if e \<noteq> 0 then Some (Inl (Wrap ''libp/registry: read events: '' (Errno (ucast e))), w)
        else case slice b 0 (unat r) of
               Inl e \<Rightarrow> Some (Inl e, w)
             | Inr b \<Rightarrow> map_option (\<lambda>evs. (evs, w)) (parseEvents W b))"

section \<open>Reads against the kernel's two-pass protocol\<close>

text \<open>
  What the kernel promises of a variable-length read: a buffer that is large enough is
  filled and its used length reported; otherwise the call fails with \<open>ERANGE\<close> and reports
  the length it needs. \<open>holds_value\<close> says that in state \<open>w\<close> the kernel answers so for one
  name, with the given type, data, winning layer and sequence number.
\<close>

definition fill :: "bytes \<Rightarrow> bytes \<Rightarrow> bytes" where
  "fill d b = d @ drop (length d) b"

definition stored_value :: "u32 \<Rightarrow> bytes \<Rightarrow> bytes \<Rightarrow> u64 \<Rightarrow> (query_value_args \<times> 'w) syscall" where
  "stored_value t d l sq = (\<lambda>(a, w).
     if length d \<le> length (qv_Data a) \<and> length l \<le> length (qv_Layer a)
     then ((0, 0), (a\<lparr>qv_Type := t, qv_Data := fill d (qv_Data a), qv_Data_len := of_nat (length d),
            qv_Layer := fill l (qv_Layer a), qv_Layer_len := of_nat (length l), qv_Sequence := sq\<rparr>, w))
     else ((0, 34), (a\<lparr>qv_Data_len := of_nat (length d), qv_Layer_len := of_nat (length l)\<rparr>, w)))"

type_synonym stored = "u32 \<times> bytes \<times> bytes \<times> u64"

definition holds_value :: "'w reg_kernel \<Rightarrow> Key \<Rightarrow> string \<Rightarrow> int \<Rightarrow> stored \<Rightarrow> 'w \<Rightarrow> bool" where
  "holds_value K k name txnFD = (\<lambda>(t, d, l, sq) w. length d < 2 ^ 32 \<and> length l < 2 ^ 32 \<and>
     (\<forall>b b'. k_query_value K (key_fd k) (query_args name txnFD b b', w)
        = stored_value t d l sq (query_args name txnFD b b', w)))"

definition value_answer :: "'m reg_abi_scheme \<Rightarrow> stored \<Rightarrow> ValueHit result" where
  "value_answer A = (\<lambda>(t, d, l, sq).
     bindE (Decode A t d) (\<lambda>v. Inr \<lparr>vh_Value = v, vh_Layer = string_of l, vh_Sequence = sq\<rparr>))"

lemma ioctl_rw_final:
  "k (a, w) = ((r, e), (a', w')) \<Longrightarrow> e \<noteq> syscall_EINTR \<Longrightarrow>
   ioctl_rw k a w = Some (if e = 0 then None else Some (Errno (ucast e)), a', w')"
  by (simp add: ioctl_rw_def Retry_final)

lemma err_is_simps [simp]: "\<not> err_is None t" "err_is (Some (Errno 34)) ERANGE"
  by (simp_all add: err_is_def ERANGE_def)

lemma slice_fill:
  "slice (fill d b) 0 (length d) = Inr d"
  "length d < 2 ^ 32 \<Longrightarrow> slice (fill d b) 0 (unat (of_nat (length d) :: u32)) = Inr d"
  by (simp_all add: fill_def slice_in)

lemma length_zeros: "n < 2 ^ 32 \<Longrightarrow> length (zeros (of_nat n)) = n"
  by (simp add: zeros_def)

text \<open>The lengths a kernel reports fit its 32-bit fields.\<close>

lemma holds_value_len:
  "holds_value K k name txnFD (t, d, l, sq) w \<Longrightarrow> length d < 2 ^ 32 \<and> length l < 2 ^ 32"
  by (simp add: holds_value_def)

lemma query_step_holds:
  assumes "holds_value K k name txnFD (t, d, l, sq) w"
  shows "query_step K A k name txnFD (b, b') w =
    Some (if length d \<le> length b \<and> length l \<le> length b' then Stop (value_answer A (t, d, l, sq))
          else Again (zeros (of_nat (length d)), zeros (of_nat (length l))), w)"
proof -
  have n: "length d < 2 ^ 32" "length l < 2 ^ 32"
    and c: "k_query_value K (key_fd k) (query_args name txnFD b b', w)
      = stored_value t d l sq (query_args name txnFD b b', w)"
    using assms by (simp_all add: holds_value_def)
  show ?thesis
  proof (cases "length d \<le> length b \<and> length l \<le> length b'")
    case True
    with c have "k_query_value K (key_fd k) (query_args name txnFD b b', w) = ((0, 0),
        ((query_args name txnFD b b')\<lparr>qv_Type := t, qv_Data := fill d b, qv_Data_len := of_nat (length d),
          qv_Layer := fill l b', qv_Layer_len := of_nat (length l), qv_Sequence := sq\<rparr>, w))"
      by (simp add: stored_value_def query_args_def)
    from ioctl_rw_final [of "k_query_value K (key_fd k)", OF this] True show ?thesis
      by (simp add: query_step_def query_hit_def slice_fill(2) [OF n(1)] slice_fill(2) [OF n(2)] value_answer_def)
  next
    case False
    with c have "k_query_value K (key_fd k) (query_args name txnFD b b', w) = ((0, 34),
        ((query_args name txnFD b b')\<lparr>qv_Data_len := of_nat (length d), qv_Layer_len := of_nat (length l)\<rparr>, w))"
      by (simp add: stored_value_def query_args_def)
    from ioctl_rw_final [of "k_query_value K (key_fd k)", OF this] False show ?thesis
      by (auto simp: query_step_def syscall_EINTR_def)
  qed
qed

interpretation query_probe: two_pass "query_step K A k name txnFD" "holds_value K k name txnFD"
  "\<lambda>(t, d, l, sq) (b, b'). length d \<le> length b \<and> length l \<le> length b'" "value_answer A"
  "\<lambda>(t, d, l, sq). (zeros (of_nat (length d)), zeros (of_nat (length l)))"
  for K A k name txnFD
  by unfold_locales (auto simp: query_step_holds length_zeros dest: holds_value_len split: if_splits)

text \<open>The same for security descriptors and for the batch of all values.\<close>

definition holds_security :: "'w reg_kernel \<Rightarrow> Key \<Rightarrow> u32 \<Rightarrow> bytes \<Rightarrow> 'w \<Rightarrow> bool" where
  "holds_security K k info d w \<longleftrightarrow> length d < 2 ^ 32 \<and>
     (\<forall>a. k_get_security K (key_fd k) (a, w) =
        (if length d \<le> length (sa_Sd a)
         then ((0, 0), (a\<lparr>sa_Sd := fill d (sa_Sd a), sa_Sd_len := of_nat (length d)\<rparr>, w))
         else ((0, 34), (a\<lparr>sa_Sd_len := of_nat (length d)\<rparr>, w))))"

lemma holds_security_len: "holds_security K k info d w \<Longrightarrow> length d < 2 ^ 32"
  by (simp add: holds_security_def)

lemma security_step_holds:
  assumes "holds_security K k info d w"
  shows "security_step K k info b w =
    Some (if length d \<le> length b then Stop (Inr d) else Again (zeros (of_nat (length d))), w)"
proof -
  let ?a = "\<lparr>sa_Security_info = info, sa_Sd = b, sa_Sd_len = of_nat (length b)\<rparr>"
  have "k_get_security K (key_fd k) (?a, w) = ((0, if length d \<le> length b then 0 else 34),
      (if length d \<le> length b then ?a\<lparr>sa_Sd := fill d b, sa_Sd_len := of_nat (length d)\<rparr>
       else ?a\<lparr>sa_Sd_len := of_nat (length d)\<rparr>, w))"
    using assms by (simp add: holds_security_def)
  from ioctl_rw_final [of "k_get_security K (key_fd k)", OF this] show ?thesis
    using assms by (auto simp: security_step_def syscall_EINTR_def slice_fill holds_security_def)
qed

interpretation security_probe: two_pass "security_step K k info" "holds_security K k info"
  "\<lambda>d b. length d \<le> length b" Inr "\<lambda>d. zeros (of_nat (length d))"
  for K k info
  by unfold_locales (auto simp: security_step_holds length_zeros dest: holds_security_len)

definition holds_batch :: "'w reg_kernel \<Rightarrow> Key \<Rightarrow> nat \<times> bytes \<Rightarrow> 'w \<Rightarrow> bool" where
  "holds_batch K k = (\<lambda>(n, d) w. n < 2 ^ 32 \<and> length d < 2 ^ 32 \<and>
     (\<forall>a. k_query_batch K (key_fd k) (a, w) =
        (if length d \<le> length (ba_Buf a)
         then ((0, 0), (a\<lparr>ba_Buf := fill d (ba_Buf a), ba_Buf_len := of_nat (length d), ba_Count := of_nat n\<rparr>, w))
         else ((0, 34), (a\<lparr>ba_Buf_len := of_nat (length d)\<rparr>, w)))))"

lemma holds_batch_len: "holds_batch K k (n, d) w \<Longrightarrow> length d < 2 ^ 32"
  by (simp add: holds_batch_def)

lemma values_step_holds:
  assumes "holds_batch K k (n, d) w"
  shows "values_step K A k txnFD b w =
    Some (if length d \<le> length b then Stop (parseBatch A d n) else Again (zeros (of_nat (length d))), w)"
proof -
  let ?a = "\<lparr>ba_Buf = b, ba_Buf_len = of_nat (length b), ba_Count = 0, ba_Txn_fd = int32 txnFD\<rparr>"
  have "k_query_batch K (key_fd k) (?a, w) = ((0, if length d \<le> length b then 0 else 34),
      (if length d \<le> length b then ?a\<lparr>ba_Buf := fill d b, ba_Buf_len := of_nat (length d), ba_Count := of_nat n\<rparr>
       else ?a\<lparr>ba_Buf_len := of_nat (length d)\<rparr>, w))"
    using assms by (simp add: holds_batch_def)
  from ioctl_rw_final [of "k_query_batch K (key_fd k)", OF this] show ?thesis
    using assms by (auto simp: values_step_def syscall_EINTR_def slice_fill holds_batch_def)
qed

interpretation values_probe: two_pass "values_step K A k txnFD" "holds_batch K k"
  "\<lambda>(n, d) b. length d \<le> length b" "\<lambda>(n, d). parseBatch A d n" "\<lambda>(n, d). zeros (of_nat (length d))"
  for K A k txnFD
  by unfold_locales (auto simp: values_step_holds length_zeros dest: holds_batch_len)

section \<open>What the reads return\<close>

lemma probes: "maxProbeRetries = Suc (Suc 2)"
  by (simp add: maxProbeRetries_def)

lemma queryValueIn_holds:
  "holds_value K k name txnFD x w \<Longrightarrow> queryValueIn K A k name txnFD w = Some (value_answer A x, w)"
  unfolding queryValueIn_def probes by (rule query_probe.two_attempts)



text \<open>A kernel in which every call succeeds and does nothing, and one that keeps one value.\<close>

definition idle_kernel :: "'w reg_kernel" where
  "idle_kernel = \<lparr>k_open_key = \<lambda>_ _ _ _ w. ((3, 0), w), k_create_key = \<lambda>s. ((3, 0), s), k_begin = \<lambda>w. ((4, 0), w),
     k_close = \<lambda>_ w. ((0, 0), w), k_set_value = \<lambda>_ _ w. ((0, 0), w), k_delete_value = \<lambda>_ _ _ _ w. ((0, 0), w),
     k_blanket_tombstone = \<lambda>_ _ _ _ w. ((0, 0), w), k_delete_key = \<lambda>_ _ _ w. ((0, 0), w),
     k_hide_key = \<lambda>_ _ _ w. ((0, 0), w), k_query_value = \<lambda>_ s. ((0, 0), s), k_query_batch = \<lambda>_ s. ((0, 0), s),
     k_enum_subkeys = \<lambda>_ s. ((0, 2), s), k_query_key_info = \<lambda>_ (a, w). ((0, 0), (a\<lparr>ia_Name_len := 0\<rparr>, w)), k_get_security = \<lambda>_ s. ((0, 0), s),
     k_set_security = \<lambda>_ _ _ _ w. ((0, 0), w), k_flush = \<lambda>_ w. ((0, 0), w), k_backup = \<lambda>_ _ w. ((0, 0), w),
     k_restore = \<lambda>_ _ w. ((0, 0), w), k_notify = \<lambda>_ _ _ w. ((0, 0), w), k_read = \<lambda>_ s. ((0, 0), s),
     k_commit = \<lambda>_ w. ((0, 0), w), k_txn_status = \<lambda>_ s. ((0, 0), s)\<rparr>"

definition one_value_kernel :: "(u32 \<times> bytes) reg_kernel" where
  "one_value_kernel = idle_kernel\<lparr>
     k_set_value := \<lambda>_ a w. if length (sv_Data a) < 2 ^ 32 then ((0, 0), (sv_Type a, sv_Data a)) else ((0, 22), w),
     k_query_value := \<lambda>_ (a, w). stored_value (fst w) (snd w) [] 1 (a, w)\<rparr>"

definition sample_key :: Key where "sample_key = \<lparr>key_fd = 3\<rparr>"

lemma win_reg_ok: "reg_abi_ok win_reg"
  by code_simp


definition full_kernel :: "nat reg_kernel" where
  "full_kernel = idle_kernel\<lparr>k_query_value := \<lambda>_. stored_value 4 (le32 7) [] 1,
     k_get_security := \<lambda>_ (a, w). if 2 \<le> length (sa_Sd a)
         then ((0, 0), (a\<lparr>sa_Sd := fill [1, 2] (sa_Sd a), sa_Sd_len := 2\<rparr>, w))
         else ((0, 34), (a\<lparr>sa_Sd_len := 2\<rparr>, w)),
     k_query_batch := \<lambda>_ (a, w). ((0, 0), (a\<lparr>ba_Buf := ba_Buf a, ba_Buf_len := 0, ba_Count := 0\<rparr>, w))\<rparr>"


section \<open>Safety of the reads\<close>

text \<open>The part of the protocol the slices rely on: the lengths the kernel reports on success
  do not exceed the buffers it was given.\<close>

definition honest :: "'w reg_kernel \<Rightarrow> bool" where
  "honest K \<longleftrightarrow>
     (\<forall>fd a w r a' w'. k_query_value K fd (a, w) = ((r, 0), (a', w')) \<longrightarrow>
        unat (qv_Data_len a') \<le> length (qv_Data a') \<and> unat (qv_Layer_len a') \<le> length (qv_Layer a'))
     \<and> (\<forall>fd a w r a' w'. k_query_batch K fd (a, w) = ((r, 0), (a', w')) \<longrightarrow>
        unat (ba_Buf_len a') \<le> length (ba_Buf a'))
     \<and> (\<forall>fd a w r a' w'. k_enum_subkeys K fd (a, w) = ((r, 0), (a', w')) \<longrightarrow>
        unat (ea_Name_len a') \<le> length (ea_Name a'))
     \<and> (\<forall>fd a w r a' w'. k_query_key_info K fd (a, w) = ((r, 0), (a', w')) \<longrightarrow>
        unat (ia_Name_len a') \<le> length (ia_Name a'))
     \<and> (\<forall>fd a w r a' w'. k_get_security K fd (a, w) = ((r, 0), (a', w')) \<longrightarrow>
        unat (sa_Sd_len a') \<le> length (sa_Sd a'))"

lemma ioctl_rw_okD:
  assumes "ioctl_rw k a w = Some (None, a', w')"
  shows "\<exists>u v r. k (u, v) = ((r, 0), (a', w'))"
  using assms by (auto simp: ioctl_rw_def split: option.splits if_splits dest!: Retry_SomeD) (metis surj_pair)

lemma slice_no_panic: "n \<le> length b \<Longrightarrow> slice b 0 n = Inr (take n b)"
  by (simp add: slice_in)

lemma honestD:
  assumes "honest K"
  shows "k_query_value K fd (a1, w) = ((r, 0), (b1, w')) \<Longrightarrow>
      slice (qv_Data b1) 0 (unat (qv_Data_len b1)) = Inr (take (unat (qv_Data_len b1)) (qv_Data b1)) \<and>
      slice (qv_Layer b1) 0 (unat (qv_Layer_len b1)) = Inr (take (unat (qv_Layer_len b1)) (qv_Layer b1))"
    and "k_query_batch K fd (a2, w) = ((r, 0), (b2, w')) \<Longrightarrow>
      slice (ba_Buf b2) 0 (unat (ba_Buf_len b2)) = Inr (take (unat (ba_Buf_len b2)) (ba_Buf b2))"
    and "k_query_key_info K fd (a3, w) = ((r, 0), (b3, w')) \<Longrightarrow>
      slice (ia_Name b3) 0 (unat (ia_Name_len b3)) = Inr (take (unat (ia_Name_len b3)) (ia_Name b3))"
    and "k_get_security K fd (a4, w) = ((r, 0), (b4, w')) \<Longrightarrow>
      slice (sa_Sd b4) 0 (unat (sa_Sd_len b4)) = Inr (take (unat (sa_Sd_len b4)) (sa_Sd b4))"
  using assms unfolding honest_def by (metis slice_no_panic)+

text \<open>The shape all five steps share: regrow, report the error, or use the filled block.\<close>

lemma attempt_no_panic:
  assumes "(case ioctl_rw k a w of None \<Rightarrow> None
      | Some (err, a, w) \<Rightarrow> Some (if err_is err ERANGE then Again (g a)
          else case err of Some e \<Rightarrow> Stop (Inl (Wrap m e)) | None \<Rightarrow> Stop (f a), w)) = Some (Stop r, w')"
    and "\<And>u v x a' w'. k (u, v) = ((x, 0), (a', w')) \<Longrightarrow> no_panic (f a')"
  shows "r \<noteq> Inl Panic"
proof -
  obtain err a' where i: "ioctl_rw k a w = Some (err, a', w')"
    using assms(1) by (auto split: option.splits)
  show ?thesis
  proof (cases err)
    case None
    with i obtain u v x where "k (u, v) = ((x, 0), (a', w'))" using ioctl_rw_okD [of k a w a' w'] by blast
    from assms(2) [OF this] show ?thesis using assms(1) i None by (simp add: no_panic_def)
  next
    case (Some e)
    then show ?thesis using assms(1) i by (auto split: if_splits)
  qed
qed

lemma query_step_no_panic:
  assumes "honest K" and "query_step K A k name txnFD b w = Some (Stop r, w')"
  shows "r \<noteq> Inl Panic"
proof -
  obtain d l where b: "b = (d, l)" by fastforce
  show ?thesis
    by (rule attempt_no_panic [OF assms(2) [unfolded b query_step_def split_conv]])
      (auto simp: query_hit_def intro!: no_panic_bindE Decode_no_panic dest!: honestD(1) [OF assms(1)])
qed

lemma values_step_no_panic:
  assumes "honest K" and "values_step K A k txnFD b w = Some (Stop r, w')"
  shows "r \<noteq> Inl Panic"
  by (rule attempt_no_panic [OF assms(2) [unfolded values_step_def]])
    (auto simp: parseBatch_no_panic dest!: honestD(2) [OF assms(1)])

lemma security_step_no_panic:
  assumes "honest K" and "security_step K k info b w = Some (Stop r, w')"
  shows "r \<noteq> Inl Panic"
  by (rule attempt_no_panic [OF assms(2) [unfolded security_step_def]])
    (auto dest!: honestD(4) [OF assms(1)])

lemma info_step_no_panic:
  assumes "honest K" and "info_step K k b w = Some (Stop r, w')"
  shows "r \<noteq> Inl Panic"
  by (rule attempt_no_panic [OF assms(2) [unfolded info_step_def]])
    (auto dest!: honestD(3) [OF assms(1)])

text \<open>
  No variable-length read of a key crashes as long as the kernel keeps its side of the
  protocol, that a length reported on success does not exceed the buffer passed: neither
  the slices of the fetched buffers nor the parsers behind them leave their bounds, for
  any sequence of regrowths and any stored bytes.\<close>

theorem registry_reads_safe:
  assumes "honest K"
  shows "queryValueIn K A k name txnFD w \<noteq> Some (Inl Panic, w') \<and> valuesIn K A k txnFD w \<noteq> Some (Inl Panic, w')
    \<and> Security K k info w \<noteq> Some (Inl Panic, w') \<and> Key_Info K k w \<noteq> Some (Inl Panic, w')"
  unfolding queryValueIn_def valuesIn_def Security_def Key_Info_def
  by (intro conjI probe_no_panic; (simp; fail)?)
    (erule query_step_no_panic [OF assms] values_step_no_panic [OF assms] security_step_no_panic [OF assms]
      info_step_no_panic [OF assms])+

theorem registry_reads_safe_witness:
  "honest full_kernel \<and> queryValueIn full_kernel win_reg sample_key ''n'' noTxn (0 :: nat) \<noteq> Some (Inl Panic, 0)"
proof -
  have "honest full_kernel"
    by (auto simp: honest_def full_kernel_def idle_kernel_def stored_value_def fill_def split: if_splits)
  then show ?thesis using registry_reads_safe [of full_kernel win_reg sample_key "''n''" noTxn 0 0] by blast
qed

section \<open>Enumeration\<close>

definition stored_subkey :: "Subkey option \<Rightarrow> (enum_args \<times> 'w) syscall" where
  "stored_subkey s = (\<lambda>(a, w).
     case s of None \<Rightarrow> ((0, 2), (a, w))
     | Some sk \<Rightarrow>
         if length (sk_Name sk) \<le> length (ea_Name a)
         then ((0, 0), (a\<lparr>ea_Name := fill (bytes_of (sk_Name sk)) (ea_Name a), ea_Name_len := of_nat (length (sk_Name sk)),
                ea_Last_write_time := sk_LastWriteTime sk, ea_Subkey_count := sk_SubkeyCount sk,
                ea_Value_count := sk_ValueCount sk\<rparr>, w))
         else ((0, 34), (a\<lparr>ea_Name_len := of_nat (length (sk_Name sk))\<rparr>, w)))"

definition nth_opt :: "'a list \<Rightarrow> nat \<Rightarrow> 'a option" where
  "nth_opt xs i = (if i < length xs then Some (xs ! i) else None)"

definition holds_subkeys :: "'w reg_kernel \<Rightarrow> Key \<Rightarrow> Subkey list \<Rightarrow> 'w \<Rightarrow> bool" where
  "holds_subkeys K k sks w \<longleftrightarrow> length sks < 2 ^ 32 \<and> list_all (\<lambda>sk. length (sk_Name sk) < 2 ^ 32) sks \<and>
     (\<forall>a. k_enum_subkeys K (key_fd k) (a, w) = stored_subkey (nth_opt sks (unat (ea_Index a))) (a, w))"

lemma err_is_ENOENT [simp]: "err_is (Some (Errno 2)) ENOENT" "\<not> err_is (Some (Errno 34)) ENOENT"
  by (simp_all add: err_is_def ENOENT_def)

definition holds_subkey :: "'w reg_kernel \<Rightarrow> Key \<Rightarrow> u32 \<Rightarrow> Subkey option \<Rightarrow> 'w \<Rightarrow> bool" where
  "holds_subkey K k i s w \<longleftrightarrow> (\<forall>sk. s = Some sk \<longrightarrow> length (sk_Name sk) < 2 ^ 32) \<and>
     (\<forall>a. ea_Index a = i \<longrightarrow> k_enum_subkeys K (key_fd k) (a, w) = stored_subkey s (a, w))"

lemma holds_subkeys_at: "holds_subkeys K k sks w \<Longrightarrow> holds_subkey K k i (nth_opt sks (unat i)) w"
  by (auto simp: holds_subkeys_def holds_subkey_def nth_opt_def list_all_length split: if_splits)

definition enum_fits :: "Subkey option \<Rightarrow> bytes \<Rightarrow> bool" where
  "enum_fits s b \<longleftrightarrow> (case s of None \<Rightarrow> True | Some sk \<Rightarrow> length (sk_Name sk) \<le> length b)"

definition enum_regrown :: "Subkey option \<Rightarrow> bytes" where
  "enum_regrown s = (case s of None \<Rightarrow> [] | Some sk \<Rightarrow> zeros (of_nat (length (sk_Name sk))))"

lemma enum_step_holds:
  assumes "holds_subkey K k i s w"
  shows "enum_step K k i txnFD b w = Some (if enum_fits s b then Stop (Inr s) else Again (enum_regrown s), w)"
proof -
  let ?a = "\<lparr>ea_Index = i, ea_Name = b, ea_Name_len = of_nat (length b), ea_Txn_fd = int32 txnFD,
    ea_Last_write_time = 0, ea_Subkey_count = 0, ea_Value_count = 0\<rparr>"
  have c: "k_enum_subkeys K (key_fd k) (?a, w) = stored_subkey s (?a, w)"
    using assms by (simp add: holds_subkey_def)
  show ?thesis
  proof (cases s)
    case None
    with c have "k_enum_subkeys K (key_fd k) (?a, w) = ((0, 2), (?a, w))" by (simp add: stored_subkey_def)
    from ioctl_rw_final [of "k_enum_subkeys K (key_fd k)", OF this] None show ?thesis
      by (simp add: enum_step_def syscall_EINTR_def enum_fits_def)
  next
    case (Some sk)
    let ?n = "length (sk_Name sk)" and ?d = "bytes_of (sk_Name sk)"
    have n: "?n < 2 ^ 32" using assms Some by (simp add: holds_subkey_def)
    have "k_enum_subkeys K (key_fd k) (?a, w) = ((0, if ?n \<le> length b then 0 else 34),
        (if ?n \<le> length b then ?a\<lparr>ea_Name := fill ?d b, ea_Name_len := of_nat ?n,
           ea_Last_write_time := sk_LastWriteTime sk, ea_Subkey_count := sk_SubkeyCount sk,
           ea_Value_count := sk_ValueCount sk\<rparr> else ?a\<lparr>ea_Name_len := of_nat ?n\<rparr>, w))"
      using c Some by (simp add: stored_subkey_def)
    from ioctl_rw_final [of "k_enum_subkeys K (key_fd k)", OF this] show ?thesis
      using n slice_fill(1) [of ?d b]
      by (auto simp: Some enum_step_def syscall_EINTR_def enum_fits_def enum_regrown_def)
  qed
qed

lemma enum_regrown_fits: "holds_subkey K k i s w \<Longrightarrow> enum_fits s (enum_regrown s)"
  by (cases s) (simp_all add: enum_fits_def enum_regrown_def length_zeros holds_subkey_def)

interpretation enum_probe: two_pass "enum_step K k i txnFD" "holds_subkey K k i" enum_fits Inr enum_regrown
  for K k i txnFD
  by unfold_locales (simp_all add: enum_step_holds enum_regrown_fits)

lemma enumSubkeyAt_holds:
  "holds_subkeys K k sks w \<Longrightarrow> enumSubkeyAt K k i txnFD w = Some (Inr (nth_opt sks (unat i)), w)"
  unfolding enumSubkeyAt_def probes by (rule enum_probe.two_attempts [OF holds_subkeys_at])

lemma subkeys_from_holds:
  assumes "holds_subkeys K k sks w" and "i \<le> length sks"
  shows "subkeys_from K k txnFD (of_nat i) (take i sks) w = Some (Inr sks, w)"
  using assms(2)
proof (induction "length sks - i" arbitrary: i)
  case 0
  then have "unat (of_nat i :: u32) = i" "i = length sks" using assms(1) by (simp_all add: holds_subkeys_def)
  then show ?case
    by (subst subkeys_from.simps) (simp add: enumSubkeyAt_holds [OF assms(1)] nth_opt_def)
next
  case (Suc n)
  then have i: "i < length sks" "unat (of_nat i :: u32) = i" using assms(1) by (simp_all add: holds_subkeys_def)
  have "subkeys_from K k txnFD (of_nat (Suc i)) (take (Suc i) sks) w = Some (Inr sks, w)"
    using Suc i(1) by (intro Suc.hyps(1)) auto
  then show ?case
    using i by (subst subkeys_from.simps)
      (simp add: enumSubkeyAt_holds [OF assms(1)] nth_opt_def take_Suc_conv_app_nth add.commute)
qed

text \<open>C29
  The enumeration of subkeys ends and is complete: against a kernel that answers index by
  index and reports \<open>ENOENT\<close> behind the last, \<open>Subkeys\<close> returns every child key once, in
  order, with names of any length and its metadata.\<close>

theorem Subkeys_complete:
  assumes "holds_subkeys K k sks w"
  shows "Subkeys K k w = Some (Inr sks, w)"
  using subkeys_from_holds [OF assms, of 0] by (simp add: Subkeys_def subkeysIn_def)

definition sample_subkeys :: "Subkey list" where
  "sample_subkeys = [\<lparr>sk_Name = ''a'', sk_LastWriteTime = 1, sk_SubkeyCount = 0, sk_ValueCount = 2\<rparr>]"

definition enum_kernel :: "nat reg_kernel" where
  "enum_kernel = idle_kernel\<lparr>k_enum_subkeys := \<lambda>_ (a, w). stored_subkey (nth_opt sample_subkeys (unat (ea_Index a))) (a, w)\<rparr>"

theorem Subkeys_complete_witness: "Subkeys enum_kernel sample_key 0 = Some (Inr sample_subkeys, 0)"
  by (rule Subkeys_complete) (simp add: holds_subkeys_def enum_kernel_def, simp add: sample_subkeys_def)

end
