(* ===== verification/RegTxn.thy ===== *)
theory RegTxn
  imports Registry
begin

text \<open>
  \<^verbatim>\<open>registry/transaction.go\<close> and \<^verbatim>\<open>registry/layers/layers.go\<close>: transactions and the management of
  layers on top of them.

  A body of \<open>Transact\<close> is an operation on the transaction it is handed; the deferred
  \<open>Close\<close> runs on every way out. The commit loop counts its retries down, so it is total.
  The lemmas say exactly when a commit succeeds, that a transaction that fails leaves no
  visible trace, and that the reserved base layer is never touched.
\<close>

section \<open>Transactions\<close>

definition commitRetries :: nat where "commitRetries = 8"

record Transaction =
  tx_fd :: int

definition Begin :: "'w reg_kernel \<Rightarrow> ('w, Transaction) io" where
  "Begin K = bindIO (wrapIO ''libp/registry: begin transaction: '' (retried (k_begin K))) (\<lambda>r.
     retIO \<lparr>tx_fd = int_of r\<rparr>)"

definition Tx_Commit :: "'w reg_kernel \<Rightarrow> Transaction \<Rightarrow> ('w, unit) io" where
  "Tx_Commit K t = wrapIO ''libp/registry: commit: '' (discard (retried (k_commit K (tx_fd t))))"

fun commit_loop :: "'w reg_kernel \<Rightarrow> int \<Rightarrow> nat \<Rightarrow> ('w, unit) io" where
  "commit_loop K fd left w =
     (case retried (k_commit K fd) w of None \<Rightarrow> None
      | Some (Inr _, w) \<Rightarrow> Some (Inr (), w)
      | Some (Inl e, w) \<Rightarrow>
          (case left of
             Suc n \<Rightarrow> if errors_is e EBUSY \<or> errors_is e EIO then commit_loop K fd n w
                     else Some (Inl (Wrap ''libp/registry: commit: '' e), w)
           | 0 \<Rightarrow> Some (Inl (Wrap ''libp/registry: commit: '' e), w)))"

declare commit_loop.simps [simp del]

definition commitWithRetry :: "'w reg_kernel \<Rightarrow> Transaction \<Rightarrow> ('w, unit) io" where
  "commitWithRetry K t = commit_loop K (tx_fd t) commitRetries"

definition Tx_Close :: "'w reg_kernel \<Rightarrow> Transaction \<Rightarrow> ('w, unit) io \<times> Transaction" where
  "Tx_Close K t = (close_fd (k_close K) ''libp/registry: close transaction: '' (tx_fd t),
     if tx_fd t < 0 then t else t\<lparr>tx_fd := -1\<rparr>)"

definition Abort :: "'w reg_kernel \<Rightarrow> Transaction \<Rightarrow> ('w, unit) io \<times> Transaction" where
  "Abort K t = Tx_Close K t"

definition Status :: "'w reg_kernel \<Rightarrow> Transaction \<Rightarrow> ('w, u32) io" where
  "Status K t w =
     (case ioctl_rw (k_txn_status K (tx_fd t)) 0 w of None \<Rightarrow> None
      | Some (Some e, _, w) \<Rightarrow> Some (Inl (Wrap ''libp/registry: transaction status: '' e), w)
      | Some (None, st, w) \<Rightarrow> Some (Inr st, w))"

record txn_abi =
  TxnActiveUnbound :: u32
  TxnActiveBound :: u32
  TxnCommitted :: u32
  TxnAborted :: u32
  TxnTimedOut :: u32
  TxnSourceDown :: u32

definition TxnState_String :: "txn_abi \<Rightarrow> u32 \<Rightarrow> string" where
  "TxnState_String T s =
     (if s = TxnActiveUnbound T then ''ActiveUnbound''
      else if s = TxnActiveBound T then ''ActiveBound''
      else if s = TxnCommitted T then ''Committed''
      else if s = TxnAborted T then ''Aborted''
      else if s = TxnTimedOut T then ''TimedOut''
      else if s = TxnSourceDown T then ''SourceDown''
      else ''TxnState('' @ FormatUint (unat s) 10 @ '')'')"

text \<open>The view a body is handed cannot commit, abort or close.\<close>

record Txn =
  txn_t :: Transaction

definition Transact :: "'w reg_kernel \<Rightarrow> (Txn \<Rightarrow> ('w, unit) io) \<Rightarrow> ('w, unit) io" where
  "Transact K body =
     bindIO (Begin K) (\<lambda>t.
       deferred (fst (Tx_Close K t)) (bindIO (body \<lparr>txn_t = t\<rparr>) (\<lambda>_. commitWithRetry K t)))"

definition Tx_Create :: "u32 \<Rightarrow> Transaction \<Rightarrow> string \<Rightarrow> CreateOptions" where
  "Tx_Create MaximumAllowed t path = withTxn (tx_fd t) (Create MaximumAllowed path)"

record TxnKey =
  tk_key :: Key
  tk_txnFD :: int

definition At :: "Transaction \<Rightarrow> Key \<Rightarrow> TxnKey" where
  "At t k = \<lparr>tk_key = k, tk_txnFD = tx_fd t\<rparr>"

definition Tx_Open :: "'w reg_kernel \<Rightarrow> Transaction \<Rightarrow> string \<Rightarrow> u32 \<Rightarrow> ('w, Key) io" where
  "Tx_Open K t path access = Open K path access"

definition Txn_At :: "Txn \<Rightarrow> Key \<Rightarrow> TxnKey" where
  "Txn_At x k = At (txn_t x) k"

definition Txn_Create :: "u32 \<Rightarrow> Txn \<Rightarrow> string \<Rightarrow> CreateOptions" where
  "Txn_Create MaximumAllowed x path = Tx_Create MaximumAllowed (txn_t x) path"

definition Txn_Open :: "'w reg_kernel \<Rightarrow> Txn \<Rightarrow> string \<Rightarrow> u32 \<Rightarrow> ('w, Key) io" where
  "Txn_Open K x path access = Tx_Open K (txn_t x) path access"

definition TxnKey_Base :: "TxnKey \<Rightarrow> LayerWrite" where
  "TxnKey_Base tk = newLayerWrite (tk_key tk) [] (tk_txnFD tk)"

definition TxnKey_Layer :: "TxnKey \<Rightarrow> string \<Rightarrow> LayerWrite" where
  "TxnKey_Layer tk name = newLayerWrite (tk_key tk) name (tk_txnFD tk)"

definition TxnKey_QueryValue :: "'w reg_kernel \<Rightarrow> 'm reg_abi_scheme \<Rightarrow> TxnKey \<Rightarrow> string \<Rightarrow> ('w, Value) io" where
  "TxnKey_QueryValue K A tk name =
     bindIO (queryValueIn K A (tk_key tk) name (tk_txnFD tk)) (\<lambda>h. retIO (vh_Value h))"

definition TxnKey_QueryValueFull :: "'w reg_kernel \<Rightarrow> 'm reg_abi_scheme \<Rightarrow> TxnKey \<Rightarrow> string \<Rightarrow> ('w, ValueHit) io" where
  "TxnKey_QueryValueFull K A tk name = queryValueIn K A (tk_key tk) name (tk_txnFD tk)"

definition TxnKey_TryQueryValue :: "'w reg_kernel \<Rightarrow> 'm reg_abi_scheme \<Rightarrow> TxnKey \<Rightarrow> string \<Rightarrow> ('w, Value option) io" where
  "TxnKey_TryQueryValue K A tk name = try_query (queryValueIn K A (tk_key tk) name (tk_txnFD tk))"

definition TxnKey_Values :: "'w reg_kernel \<Rightarrow> 'm reg_abi_scheme \<Rightarrow> TxnKey \<Rightarrow> ('w, NamedValue list) io" where
  "TxnKey_Values K A tk = valuesIn K A (tk_key tk) (tk_txnFD tk)"

definition TxnKey_Subkeys :: "'w reg_kernel \<Rightarrow> TxnKey \<Rightarrow> ('w, Subkey list) io" where
  "TxnKey_Subkeys K tk = subkeysIn K (tk_key tk) (tk_txnFD tk)"

definition TxnKey_SetSecurity :: "'w reg_kernel \<Rightarrow> TxnKey \<Rightarrow> u32 \<Rightarrow> bytes \<Rightarrow> ('w, unit) io" where
  "TxnKey_SetSecurity K tk info sdBytes = setSecurityIn K (tk_key tk) info sdBytes (tk_txnFD tk)"

section \<open>Layers\<close>

record access_abi =
  acc_QueryValue :: u32
  acc_SetValue :: u32
  acc_EnumerateSubKeys :: u32
  acc_ReadControl :: u32
  acc_Delete :: u32
  acc_AllAccess :: u32
  acc_MaximumAllowed :: u32

definition layersRoot :: string where
  "layersRoot = ''Machine'' @ [CHR 0x5C] @ ''System'' @ [CHR 0x5C] @ ''Registry'' @ [CHR 0x5C] @ ''Layers''"

definition baseLayer :: string where "baseLayer = ''base''"

definition layerPath :: "string \<Rightarrow> string" where
  "layerPath name = layersRoot @ [CHR 0x5C] @ name"

text \<open>\<open>strings.EqualFold(name, "base")\<close>: rune by rune under simple case folding, under which
  the long s (U+017F) folds to \<open>s\<close>.\<close>

definition folds_to :: "nat \<Rightarrow> char \<Rightarrow> bool" where
  "folds_to r c \<longleftrightarrow> r = of_char c \<or> r + 32 = of_char c \<or> c = CHR ''s'' \<and> r = 0x17F"

definition EqualFold_base :: "string \<Rightarrow> bool" where
  "EqualFold_base name \<longleftrightarrow> list_all2 folds_to (runes (bytes_of name)) baseLayer"

definition guardReserved :: "string \<Rightarrow> string \<Rightarrow> unit result" where
  "guardReserved name verb =
     (if EqualFold_base name
      then Inl (Wrap (''libp/registry/layers: the base layer cannot be '' @ verb @ '': '') ErrReservedLayer)
      else Inr ())"

definition guarded :: "string \<Rightarrow> string \<Rightarrow> ('w, 'a) io \<Rightarrow> ('w, 'a) io" where
  "guarded name verb m = (case guardReserved name verb of Inl e \<Rightarrow> failIO e | Inr _ \<Rightarrow> m)"

record LayerInfo =
  li_Name :: string
  li_Precedence :: u32
  li_Enabled :: bool
  li_Owner :: SID

record Builder =
  b_name :: string
  b_precedence :: u32
  b_enabled :: bool

definition layer_Create :: "string \<Rightarrow> Builder" where
  "layer_Create name = \<lparr>b_name = name, b_precedence = 0, b_enabled = True\<rparr>"

definition Builder_Precedence :: "u32 \<Rightarrow> Builder \<Rightarrow> Builder" where
  "Builder_Precedence p b = b\<lparr>b_precedence := p\<rparr>"
definition Builder_Enabled :: "bool \<Rightarrow> Builder \<Rightarrow> Builder" where "Builder_Enabled e b = b\<lparr>b_enabled := e\<rparr>"
definition Builder_Disabled :: "Builder \<Rightarrow> Builder" where "Builder_Disabled b = b\<lparr>b_enabled := False\<rparr>"

definition boolUint32 :: "bool \<Rightarrow> u32" where "boolUint32 b = (if b then 1 else 0)"

definition close_key :: "'w reg_kernel \<Rightarrow> Key \<Rightarrow> ('w, unit) io" where
  "close_key K k = fst (Key_Close K k)"

definition create_layer :: "'w reg_kernel \<Rightarrow> 'm reg_abi_scheme \<Rightarrow> access_abi \<Rightarrow> Builder \<Rightarrow> Txn \<Rightarrow> ('w, unit) io" where
  "create_layer K A X b tx =
     bindIO (Create_Call K (co_Access (acc_AllAccess X) (Txn_Create (acc_MaximumAllowed X) tx (layerPath (b_name b)))))
       (\<lambda>(k, _). deferred (close_key K k)
         (bindIO (SetValue K A (TxnKey_Base (Txn_At tx k)) ''Precedence'' (DWORD A (b_precedence b))) (\<lambda>_.
          SetValue K A (TxnKey_Base (Txn_At tx k)) ''Enabled'' (DWORD A (boolUint32 (b_enabled b))))))"

definition Builder_Call :: "'w reg_kernel \<Rightarrow> 'm reg_abi_scheme \<Rightarrow> access_abi \<Rightarrow> Builder \<Rightarrow> ('w, LayerInfo) io" where
  "Builder_Call K A X b =
     guarded (b_name b) ''created''
       (bindIO (Transact K (create_layer K A X b)) (\<lambda>_.
         retIO \<lparr>li_Name = b_name b, li_Precedence = b_precedence b, li_Enabled = b_enabled b, li_Owner = zero_SID\<rparr>))"

text \<open>The three reads of \<open>Get\<close>, each of which may leave the default.\<close>

definition info_precedence :: "'m reg_abi_scheme \<Rightarrow> Value option \<Rightarrow> u32" where
  "info_precedence A v = (case Option.bind v (Uint32 A) of None \<Rightarrow> 0 | Some n \<Rightarrow> n)"

definition info_enabled :: "'m reg_abi_scheme \<Rightarrow> Value option \<Rightarrow> bool" where
  "info_enabled A v = (case Option.bind v (Uint32 A) of None \<Rightarrow> True | Some n \<Rightarrow> n \<noteq> 0)"

definition info_owner :: "'m reg_abi_scheme \<Rightarrow> Value option \<Rightarrow> SID" where
  "info_owner A v = (case Option.bind v (BytesOf A) of None \<Rightarrow> zero_SID
     | Some b \<Rightarrow> (case ParseSID b of Inl _ \<Rightarrow> zero_SID | Inr sid \<Rightarrow> sid))"

definition layer_Get :: "'w reg_kernel \<Rightarrow> 'm reg_abi_scheme \<Rightarrow> access_abi \<Rightarrow> string \<Rightarrow> ('w, LayerInfo) io" where
  "layer_Get K A X name =
     bindIO (Open K (layerPath name) (acc_QueryValue X OR acc_ReadControl X)) (\<lambda>k.
     deferred (close_key K k)
       (bindIO (TryQueryValue K A k ''Precedence'') (\<lambda>p.
        bindIO (TryQueryValue K A k ''Enabled'') (\<lambda>e.
        bindIO (TryQueryValue K A k ''Owner'') (\<lambda>ow.
        retIO \<lparr>li_Name = name, li_Precedence = info_precedence A p, li_Enabled = info_enabled A e,
          li_Owner = info_owner A ow\<rparr>)))))"

fun get_all :: "'w reg_kernel \<Rightarrow> 'm reg_abi_scheme \<Rightarrow> access_abi \<Rightarrow> Subkey list \<Rightarrow> ('w, LayerInfo list) io" where
  "get_all K A X [] = retIO []"
| "get_all K A X (sk # sks) =
     bindIO (layer_Get K A X (sk_Name sk)) (\<lambda>i. bindIO (get_all K A X sks) (\<lambda>is. retIO (i # is)))"

definition layer_List :: "'w reg_kernel \<Rightarrow> 'm reg_abi_scheme \<Rightarrow> access_abi \<Rightarrow> ('w, LayerInfo list) io" where
  "layer_List K A X =
     bindIO (Open K layersRoot (acc_EnumerateSubKeys X)) (\<lambda>k.
     deferred (close_key K k) (bindIO (Subkeys K k) (get_all K A X)))"

definition SetPrecedence :: "'w reg_kernel \<Rightarrow> 'm reg_abi_scheme \<Rightarrow> access_abi \<Rightarrow> string \<Rightarrow> u32 \<Rightarrow> ('w, unit) io" where
  "SetPrecedence K A X name p = guarded name ''re-precedenced''
     (bindIO (Open K (layerPath name) (acc_SetValue X)) (\<lambda>k.
      deferred (close_key K k) (SetValue K A (Key_Base k) ''Precedence'' (DWORD A p))))"

definition SetEnabled :: "'w reg_kernel \<Rightarrow> 'm reg_abi_scheme \<Rightarrow> access_abi \<Rightarrow> string \<Rightarrow> bool \<Rightarrow> ('w, unit) io" where
  "SetEnabled K A X name e = guarded name ''enabled or disabled''
     (bindIO (Open K (layerPath name) (acc_SetValue X)) (\<lambda>k.
      deferred (close_key K k) (SetValue K A (Key_Base k) ''Enabled'' (DWORD A (boolUint32 e)))))"

definition layer_Delete :: "'w reg_kernel \<Rightarrow> access_abi \<Rightarrow> string \<Rightarrow> ('w, unit) io" where
  "layer_Delete K X name = guarded name ''deleted''
     (bindIO (Open K (layerPath name) (acc_Delete X)) (\<lambda>k.
      deferred (close_key K k) (DeleteKey K (Key_Base k))))"

section \<open>When a commit succeeds\<close>

text \<open>\<open>refused K fd n w w'\<close>: \<open>n\<close> commits in a row fail with a retryable error.\<close>

inductive refused :: "'w reg_kernel \<Rightarrow> int \<Rightarrow> nat \<Rightarrow> 'w \<Rightarrow> 'w \<Rightarrow> bool" for K fd where
  refused_0: "refused K fd 0 w w"
| refused_Suc: "retried (k_commit K fd) w = Some (Inl e, w1) \<Longrightarrow> errors_is e EBUSY \<or> errors_is e EIO \<Longrightarrow>
    refused K fd n w1 w2 \<Longrightarrow> refused K fd (Suc n) w w2"

inductive_cases refused_SucE: "refused K fd (Suc n) w w'"
inductive_cases refused_0E: "refused K fd 0 w w'"

lemma commit_loop_success:
  "commit_loop K fd left w = Some (Inr (), w') \<longleftrightarrow>
   (\<exists>n \<le> left. \<exists>w1 r. refused K fd n w w1 \<and> retried (k_commit K fd) w1 = Some (Inr r, w'))"
proof (induction left arbitrary: w)
  case 0
  show ?case
    by (subst commit_loop.simps) (auto split: option.splits sum.splits elim: refused_0E intro: refused_0)
next
  case (Suc n)
  show ?case
  proof
    assume "commit_loop K fd (Suc n) w = Some (Inr (), w')"
    then consider r where "retried (k_commit K fd) w = Some (Inr r, w')"
      | e w1 where "retried (k_commit K fd) w = Some (Inl e, w1)" "errors_is e EBUSY \<or> errors_is e EIO"
          "commit_loop K fd n w1 = Some (Inr (), w')"
      by (subst (asm) commit_loop.simps) (auto split: option.splits sum.splits if_splits)
    then show "\<exists>m \<le> Suc n. \<exists>w1 r. refused K fd m w w1 \<and> retried (k_commit K fd) w1 = Some (Inr r, w')"
    proof cases
      case 1
      then show ?thesis using refused_0 [of K fd w] by blast
    next
      case 2
      with Suc.IH obtain m w2 r where "m \<le> n" "refused K fd m w1 w2" "retried (k_commit K fd) w2 = Some (Inr r, w')"
        by blast
      with 2 show ?thesis using refused_Suc [of K fd w e w1 m w2] Suc_le_mono by blast
    qed
  next
    assume "\<exists>m \<le> Suc n. \<exists>w1 r. refused K fd m w w1 \<and> retried (k_commit K fd) w1 = Some (Inr r, w')"
    then obtain m w1 r where m: "m \<le> Suc n" "refused K fd m w w1" "retried (k_commit K fd) w1 = Some (Inr r, w')"
      by blast
    show "commit_loop K fd (Suc n) w = Some (Inr (), w')"
    proof (cases m)
      case 0
      with m show ?thesis by (subst commit_loop.simps) (auto elim: refused_0E)
    next
      case (Suc i)
      with m(2) obtain e w2 where "retried (k_commit K fd) w = Some (Inl e, w2)" "errors_is e EBUSY \<or> errors_is e EIO"
          "refused K fd i w2 w1" by (auto elim: refused_SucE)
      moreover have "commit_loop K fd n w2 = Some (Inr (), w')"
        using Suc.IH [of w2] m Suc calculation(3) by auto
      ultimately show ?thesis by (subst commit_loop.simps) auto
    qed
  qed
qed

text \<open>C24
  The commit of \<open>Transact\<close> succeeds exactly when one of at most nine attempts does and every
  attempt before it failed with the retryable \<open>EBUSY\<close> or \<open>EIO\<close>; any other error ends the
  loop at once, and the loop never runs longer.\<close>

theorem commitWithRetry_success:
  "commitWithRetry K t w = Some (Inr (), w') \<longleftrightarrow>
   (\<exists>n w1 r. n < 9 \<and> refused K (tx_fd t) n w w1 \<and> retried (k_commit K (tx_fd t)) w1 = Some (Inr r, w'))"
  unfolding commitWithRetry_def commitRetries_def commit_loop_success by (auto simp: less_Suc_eq_le numeral_eq_Suc)

section \<open>Transactions are atomic\<close>

text \<open>What the documentation promises of the kernel, for a view \<open>vis\<close> of the state other
  processes have: \<open>begin\<close>, \<open>close\<close>, a commit that fails and every write that carries a
  transaction's descriptor leave it alone, and a transaction's descriptor is a descriptor.\<close>

definition transactional :: "'w reg_kernel \<Rightarrow> ('w \<Rightarrow> 'v) \<Rightarrow> bool" where
  "transactional K vis \<longleftrightarrow>
     (\<forall>w. vis (snd (k_begin K w)) = vis w) \<and>
     (\<forall>w r w'. k_begin K w = ((r, 0), w') \<longrightarrow> 0 \<le> int_of r \<and> int_of r < 2 ^ 31) \<and>
     (\<forall>fd w. vis (snd (k_close K fd w)) = vis w) \<and>
     (\<forall>fd w r e w'. k_commit K fd w = ((r, e), w') \<longrightarrow> e \<noteq> 0 \<longrightarrow> vis w' = vis w) \<and>
     (\<forall>a w. ca_Txn_fd a \<noteq> noTxn \<longrightarrow> vis (snd (snd (k_create_key K (a, w)))) = vis w \<and>
        ca_Txn_fd (fst (snd (k_create_key K (a, w)))) = ca_Txn_fd a) \<and>
     (\<forall>fd a w. sv_Txn_fd a \<noteq> noTxn \<longrightarrow> vis (snd (k_set_value K fd a w)) = vis w)"

lemma transactionalD:
  assumes "transactional K vis"
  shows "vis (snd (k_begin K w)) = vis w"
    and "k_begin K w = ((r, 0), w') \<Longrightarrow> 0 \<le> int_of r \<and> int_of r < 2 ^ 31"
    and "vis (snd (k_close K fd w)) = vis w"
    and "k_commit K fd w = ((r, e), w') \<Longrightarrow> e \<noteq> 0 \<Longrightarrow> vis w' = vis w"
    and "ca_Txn_fd a \<noteq> noTxn \<Longrightarrow> vis (snd (snd (k_create_key K (a, w)))) = vis w"
    and "ca_Txn_fd a \<noteq> noTxn \<Longrightarrow> ca_Txn_fd (fst (snd (k_create_key K (a, w)))) = ca_Txn_fd a"
    and "sv_Txn_fd sa \<noteq> noTxn \<Longrightarrow> vis (snd (k_set_value K fd sa w)) = vis w"
  using assms unfolding transactional_def by blast+

abbreviation same :: "('w \<Rightarrow> 'v) \<Rightarrow> 'w \<Rightarrow> 'w \<Rightarrow> bool" where
  "same vis w w' \<equiv> vis w' = vis w"

lemma same_order: "reflp (same vis)" "transp (same vis)"
  by (auto intro: reflpI transpI)

lemma keeps_discard: "keeps (same vis) m \<Longrightarrow> keeps (same vis) (discard m)"
  unfolding discard_def by (rule keeps_bind [OF same_order(2)]) auto

lemma keepsD: "keeps P m \<Longrightarrow> m w = Some (r, w') \<Longrightarrow> P w w'"
  by (simp add: keeps_def)

lemma int32_fd: "0 \<le> x \<Longrightarrow> x < 2 ^ 31 \<Longrightarrow> int32 x = x"
  unfolding int32_def by (rule signed_take_bit_int_eq_self) auto

lemma keeps_close_fd: "transactional K vis \<Longrightarrow> keeps (same vis) (close_fd (k_close K) msg fd)"
  unfolding close_fd_def by (auto intro!: keeps_wrap keeps_discard keeps_once dest: transactionalD(3))

lemma keeps_SetValue:
  assumes "transactional K vis" and "int32 (lw_txnFD lw) \<noteq> noTxn"
  shows "keeps (same vis) (SetValue K A lw name v)"
  unfolding SetValue_def writeValue_def case_prod_beta
  by (intro keeps_wrap keeps_discard keeps_retried same_order transactionalD(7) [OF assms(1)]) (simp add: assms(2))

lemma keeps_Create_Call:
  assumes "transactional K vis" and "int32 (co_txnFD c) \<noteq> noTxn"
  shows "keeps (same vis) (Create_Call K c)"
  unfolding keeps_def
proof (intro allI impI)
  fix w r w'
  assume run: "Create_Call K c w = Some (r, w')"
  let ?P = "\<lambda>(a, w) (a', w'). ca_Txn_fd a \<noteq> noTxn \<longrightarrow> ca_Txn_fd a' \<noteq> noTxn \<and> vis w' = vis w"
  show "same vis w w'"
  proof (cases "BytePtrFromString (co_path c)")
    case (Inl e)
    with run show ?thesis by (simp add: Create_Call_def)
  next
    case (Inr cpath)
    show ?thesis
    proof (cases "if co_layer c = [] then Inr [] else BytePtrFromString (co_layer c)")
      case (Inl e)
      with run \<open>BytePtrFromString _ = _\<close> show ?thesis by (simp add: Create_Call_def)
    next
      case (Inr cl)
      with run \<open>BytePtrFromString _ = _\<close> obtain x err a'
        where "Retry (k_create_key K) (create_args_of c cpath cl, w) = Some ((x, err), (a', w'))"
        by (auto simp: Create_Call_def split: option.splits)
      then have "\<exists>r. retried (k_create_key K) (create_args_of c cpath cl, w) = Some (r, (a', w'))"
        by (auto simp: retried_def split: option.splits)
      moreover have "keeps ?P (retried (k_create_key K))"
      proof (rule keeps_retried)
        show "reflp ?P" by (auto intro: reflpI)
        show "transp ?P" by (auto intro!: transpI)
        fix s
        show "?P s (snd (k_create_key K s))"
          using transactionalD(5,6) [OF assms(1), of "fst s" "snd s"] by (simp add: case_prod_beta)
      qed
      ultimately have "?P (create_args_of c cpath cl, w) (a', w')"
        unfolding keeps_def by blast
      then show ?thesis using assms(2) by (simp add: create_args_of_def)
    qed
  qed
qed

lemma interrupted_commit:
  assumes "transactional K vis"
  shows "interrupted (k_commit K fd) n w w' \<Longrightarrow> same vis w w'"
proof (induction rule: interrupted.induct)
  case (interrupted_Suc s r s1 n s2)
  with transactionalD(4) [OF assms interrupted_Suc(1)] show ?case by simp
qed simp

lemma commit_attempt:
  assumes "transactional K vis" and "retried (k_commit K fd) w = Some (r, w')"
  shows "case r of Inl e \<Rightarrow> same vis w w' | Inr x \<Rightarrow> \<exists>w1. same vis w w1 \<and> k_commit K fd w1 = ((x, 0), w')"
proof -
  obtain x err where "Retry (k_commit K fd) w = Some ((x, err), w')" "r = (case err of None \<Rightarrow> Inr x | Some e \<Rightarrow> Inl e)"
    using assms(2) by (auto simp: retried_def split: option.splits)
  then obtain n t e where "interrupted (k_commit K fd) n w t" "k_commit K fd t = ((x, e), w')"
      "r = (if e = 0 then Inr x else Inl (Errno (ucast e)))"
    by (auto dest!: Retry_SomeD split: if_splits)
  then show ?thesis
    using interrupted_commit [OF assms(1)] transactionalD(4) [OF assms(1)] by (cases "e = 0") (auto, metis)
qed

lemma commit_loop_atomic:
  assumes "transactional K vis"
  shows "commit_loop K fd left w = Some (r, w') \<Longrightarrow>
    (case r of Inl e \<Rightarrow> same vis w w' | Inr _ \<Rightarrow> \<exists>w1 x. same vis w w1 \<and> k_commit K fd w1 = ((x, 0), w'))"
proof (induction left arbitrary: w)
  case 0
  then show ?case
    by (subst (asm) commit_loop.simps)
      (auto split: option.splits sum.splits dest!: commit_attempt [OF assms], blast)
next
  case (Suc n)
  from Suc.prems consider x where "retried (k_commit K fd) w = Some (Inr x, w')" "r = Inr ()"
    | e where "retried (k_commit K fd) w = Some (Inl e, w')" "\<exists>e. r = Inl e"
    | e w1 where "retried (k_commit K fd) w = Some (Inl e, w1)" "commit_loop K fd n w1 = Some (r, w')"
    by (subst (asm) commit_loop.simps) (auto split: option.splits sum.splits if_splits)
  then show ?case
  proof cases
    case 1
    then show ?thesis using commit_attempt [OF assms 1(1)] by auto
  next
    case 2
    then show ?thesis using commit_attempt [OF assms 2(1)] by auto
  next
    case 3
    then show ?thesis using commit_attempt [OF assms 3(1)] Suc.IH [OF 3(2)] by (auto split: sum.splits)
  qed
qed

lemma keeps_Begin: "transactional K vis \<Longrightarrow> keeps (same vis) (Begin K)"
  unfolding Begin_def
  by (rule keeps_bind [OF same_order(2)])
    (auto intro!: keeps_wrap keeps_retried same_order dest: transactionalD(1))

lemma Begin_fd:
  assumes "transactional K vis" and "Begin K w = Some (Inr t, w')"
  shows "0 \<le> tx_fd t" and "tx_fd t < 2 ^ 31"
proof -
  obtain r where r: "retried (k_begin K) w = Some (Inr r, w')" "t = \<lparr>tx_fd = int_of r\<rparr>"
    using assms(2) by (auto simp: Begin_def bindIO_def wrapIO_def split: option.splits sum.splits)
  then obtain w1 where "k_begin K w1 = ((r, 0), w')"
    by (auto simp: retried_def split: option.splits dest!: Retry_SomeD split: if_splits)
  then show "0 \<le> tx_fd t" "tx_fd t < 2 ^ 31" using transactionalD(2) [OF assms(1)] r by auto
qed

text \<open>The promise of \<open>Transact\<close>, for every body whose own calls stay inside the transaction.\<close>

definition all_or_nothing :: "'w reg_kernel \<Rightarrow> ('w \<Rightarrow> 'v) \<Rightarrow> 'w \<Rightarrow> 'a result \<Rightarrow> 'w \<Rightarrow> bool" where
  "all_or_nothing K vis w r w' \<longleftrightarrow>
     (case r of Inl e \<Rightarrow> vis w' = vis w
      | Inr _ \<Rightarrow> \<exists>fd w1 x w2. vis w1 = vis w \<and> k_commit K fd w1 = ((x, 0), w2) \<and> vis w' = vis w2)"

lemma Transact_atomic:
  assumes "transactional K vis"
    and "\<And>t. 0 \<le> tx_fd t \<Longrightarrow> tx_fd t < 2 ^ 31 \<Longrightarrow> keeps (same vis) (body \<lparr>txn_t = t\<rparr>)"
    and "Transact K body w = Some (r, w')"
  shows "all_or_nothing K vis w r w'"
  using assms(3) unfolding Transact_def
proof (cases rule: bindIO_SomeD)
  case (1 e)
  then show ?thesis
    using keepsD [OF keeps_Begin [OF assms(1)]] by (simp add: all_or_nothing_def)
next
  case (2 t w1)
  note t = Begin_fd [OF assms(1) 2(1)]
  have w1: "same vis w w1" using keepsD [OF keeps_Begin [OF assms(1)] 2(1)] .
  obtain w2 where run: "bindIO (body \<lparr>txn_t = t\<rparr>) (\<lambda>_. commitWithRetry K t) w1 = Some (r, w2)" and w2: "same vis w2 w'"
    using 2(2) keepsD [OF keeps_close_fd [OF assms(1)]]
    by (auto simp: deferred_def Tx_Close_def split: option.splits)
  from run show ?thesis
  proof (cases rule: bindIO_SomeD)
    case (1 e)
    then show ?thesis using keepsD [OF assms(2) [OF t]] w1 w2 by (simp add: all_or_nothing_def)
  next
    case (2 u w3)
    have "same vis w1 w3" using keepsD [OF assms(2) [OF t] 2(1)] .
    then show ?thesis
      using commit_loop_atomic [OF assms(1) 2(2) [unfolded commitWithRetry_def]] w1 w2
      unfolding all_or_nothing_def by (cases r) (simp, force)
  qed
qed


lemma keeps_create_layer:
  assumes "transactional K vis" and "0 \<le> tx_fd t" and "tx_fd t < 2 ^ 31"
  shows "keeps (same vis) (create_layer K A X b \<lparr>txn_t = t\<rparr>)"
proof -
  have "int32 (tx_fd t) \<noteq> noTxn" using assms(2,3) by (simp add: int32_fd noTxn_def)
  then show ?thesis
    unfolding create_layer_def close_key_def Key_Close_def fst_conv
    by (intro keeps_bind same_order keeps_Create_Call [OF assms(1)])
      (auto simp: co_Access_def Txn_Create_def Txn_At_def Tx_Create_def withTxn_def TxnKey_Base_def At_def newLayerWrite_def
        intro!: keeps_deferred same_order keeps_bind keeps_close_fd keeps_SetValue assms(1))
qed


text \<open>A kernel with one visible flag that a commit sets.\<close>

definition commit_kernel :: "bool reg_kernel" where
  "commit_kernel = idle_kernel\<lparr>k_commit := \<lambda>_ w. if w then ((0, 16), w) else ((0, 0), True)\<rparr>"

definition sample_access :: access_abi where
  "sample_access = \<lparr>acc_QueryValue = 1, acc_SetValue = 2, acc_EnumerateSubKeys = 8, acc_ReadControl = 0x20000,
     acc_Delete = 0x10000, acc_AllAccess = 0xF003F, acc_MaximumAllowed = 0x2000000\<rparr>"

lemma commit_kernel_ok: "transactional commit_kernel id"
  by (auto simp: transactional_def commit_kernel_def idle_kernel_def int_of_def split: if_splits)


text \<open>C33
  The reserved layer is out of reach: for every spelling of its name that case folding
  identifies with \<open>base\<close>, creating, re-precedencing, enabling, disabling and deleting
  it fail with \<open>ErrReservedLayer\<close> before any call to the kernel.\<close>

theorem base_layer_reserved:
  assumes "EqualFold_base name"
  shows "(\<exists>e. Builder_Call K A X (Builder_Enabled en (Builder_Precedence p (layer_Create name))) w = Some (Inl e, w)
        \<and> errors_is e ErrReservedLayer)
    \<and> (\<exists>e. SetPrecedence K A X name p w = Some (Inl e, w) \<and> errors_is e ErrReservedLayer)
    \<and> (\<exists>e. SetEnabled K A X name en w = Some (Inl e, w) \<and> errors_is e ErrReservedLayer)
    \<and> (\<exists>e. layer_Delete K X name w = Some (Inl e, w) \<and> errors_is e ErrReservedLayer)"
  using assms
  by (simp add: Builder_Call_def SetPrecedence_def SetEnabled_def layer_Delete_def guarded_def guardReserved_def
      Builder_Enabled_def Builder_Precedence_def layer_Create_def)

theorem base_layer_reserved_witness:
  "EqualFold_base ''BaSe'' \<and> \<not> EqualFold_base ''bass'' \<and>
   (\<exists>e. layer_Delete (idle_kernel :: unit reg_kernel) sample_access ''BaSe'' () = Some (Inl e, ()) \<and> errors_is e ErrReservedLayer)"
proof -
  have "EqualFold_base ''BaSe''" "\<not> EqualFold_base ''bass''" by code_simp+
  then show ?thesis using base_layer_reserved [of "''BaSe''" "idle_kernel :: unit reg_kernel" win_reg sample_access _ _ "()"] by blast
qed

end
