(* ===== verification/Quote.thy ===== *)
theory Quote
  imports Strconv Utf
begin

text \<open>
  Go string literals: \<open>strconv.Unquote\<close> with all its escapes, and \<open>strconv.Quote\<close>, the verb \<open>%q\<close>.

  Which runes beyond Latin-1 are printed as they are comes from the Unicode tables the Go
  distribution generates; they are a parameter, and the theorems hold for every choice.
  The lemmas show that reading a literal on the fast path agrees with the loop over its escapes,
  and that \<open>Unquote\<close> reads back what \<open>Quote\<close> writes, for every byte string, valid UTF-8 or not.
\<close>

section \<open>\<open>strconv.Unquote\<close>\<close>

text \<open>The value of a hexadecimal digit; \<open>n\<close> of them in a row.\<close>

definition unhex :: "char \<Rightarrow> nat option" where
  "unhex c = (let x = of_char c :: nat in
     if 48 \<le> x \<and> x \<le> 57 then Some (x - 48)
     else if 97 \<le> x \<and> x \<le> 102 then Some (x - 97 + 10)
     else if 65 \<le> x \<and> x \<le> 70 then Some (x - 65 + 10) else None)"

fun unhex_run :: "nat \<Rightarrow> nat \<Rightarrow> string \<Rightarrow> (nat \<times> string) option" where
  "unhex_run 0 v s = Some (v, s)"
| "unhex_run (Suc n) v [] = None"
| "unhex_run (Suc n) v (c # s) = (case unhex c of None \<Rightarrow> None | Some x \<Rightarrow> unhex_run n (v * 16 + x) s)"

definition octal :: "char \<Rightarrow> nat option" where
  "octal c = (let x = of_char c :: nat in if 48 \<le> x \<and> x \<le> 55 then Some (x - 48) else None)"

text \<open>What follows a backslash: the rune, whether it is written as UTF-8, and the rest.\<close>

definition simple_escape :: "char \<Rightarrow> nat option" where
  "simple_escape c =
     map_of [(CHR ''a'', 7), (CHR ''b'', 8), (CHR ''f'', 12), (CHR ''n'', 10), (CHR ''r'', 13), (CHR ''t'', 9),
       (CHR ''v'', 11), (CHR 0x5C, 0x5C)] c"

definition unquote_escape :: "char \<Rightarrow> string \<Rightarrow> (nat \<times> bool \<times> string) option" where
  "unquote_escape quote s =
     (case s of
        [] \<Rightarrow> None
      | c # s \<Rightarrow>
          if simple_escape c \<noteq> None then Some (the (simple_escape c), False, s)
          else if c = CHR ''x'' then map_option (\<lambda>(v, s). (v, False, s)) (unhex_run 2 0 s)
          else if c = CHR ''u'' \<or> c = CHR ''U'' then
            (case unhex_run (if c = CHR ''u'' then 4 else 8) 0 s of
               None \<Rightarrow> None
             | Some (v, s) \<Rightarrow> if scalar v then Some (v, True, s) else None)
          else if octal c \<noteq> None then
            (case s of
               d # e # s \<Rightarrow>
                 (case (octal d, octal e) of
                    (Some y, Some z) \<Rightarrow>
                      let v = the (octal c) * 64 + y * 8 + z in if v > 255 then None else Some (v, False, s)
                  | _ \<Rightarrow> None)
             | _ \<Rightarrow> None)
          else if c = CHR 0x27 \<or> c = CHR 0x22 then (if c = quote then Some (of_char c, False, s) else None)
          else None)"

definition UnquoteChar :: "string \<Rightarrow> char \<Rightarrow> (nat \<times> bool \<times> string) option" where
  "UnquoteChar s quote =
     (case s of
        [] \<Rightarrow> None
      | c # t \<Rightarrow>
          if c = quote \<and> (quote = CHR 0x27 \<or> quote = CHR 0x22) then None
          else if of_char c \<ge> (0x80 :: nat) then
            (case decode_rune (bytes_of s) of (r, n, _) \<Rightarrow> Some (r, True, drop n s))
          else if c \<noteq> CHR 0x5C then Some (of_char c, False, t)
          else unquote_escape quote t)"

lemma unhex_run_length: "unhex_run n v s = Some (x, t) \<Longrightarrow> length t + n = length s"
  by (induction n v s rule: unhex_run.induct) (auto split: option.splits)

lemma unquote_escape_length: "unquote_escape q s = Some (r, m, t) \<Longrightarrow> length t < length s"
  by (auto simp: unquote_escape_def Let_def dest!: unhex_run_length split: list.splits if_splits option.splits)

lemma decode_rune_width: "decode_rune (x # b) = (r, n, ok) \<Longrightarrow> 0 < n"
  by (auto simp: decode_rune_def split: list.splits if_splits)

lemma UnquoteChar_length: "UnquoteChar s q = Some (r, m, t) \<Longrightarrow> length t < length s"
  by (auto simp: UnquoteChar_def bytes_of_def dest!: unquote_escape_length decode_rune_width split: list.splits if_splits prod.splits)

definition rune_out :: "nat \<Rightarrow> bool \<Rightarrow> string" where
  "rune_out r multibyte = (if r < 0x80 \<or> \<not> multibyte then [char_of (r mod 256)] else string_of (encode_rune r))"

text \<open>The loop over an interpreted literal, after its opening quote; the rest starts at the
  closing quote.\<close>

function unquote_loop :: "char \<Rightarrow> string \<Rightarrow> (string \<times> string) option" where
  "unquote_loop quote s =
     (case s of
        [] \<Rightarrow> Some ([], [])
      | c # _ \<Rightarrow>
          if c = quote then Some ([], s)
          else
            (case UnquoteChar s quote of
               None \<Rightarrow> None
             | Some (r, multibyte, t) \<Rightarrow>
                 if c = CHR 0x0A then None
                 else if quote = CHR 0x27 then Some (rune_out r multibyte, t)
                 else map_option (\<lambda>(out, rest). (rune_out r multibyte @ out, rest)) (unquote_loop quote t)))"
  by pat_completeness auto
termination
  by (relation "measure (length \<circ> snd)") (auto dest: UnquoteChar_length)

declare unquote_loop.simps [simp del]

text \<open>Literals without escapes are taken as they are.\<close>

definition plain_literal :: "char \<Rightarrow> string \<Rightarrow> bool" where
  "plain_literal quote body \<longleftrightarrow> CHR 0x5C \<notin> set body \<and> CHR 0x0A \<notin> set body \<and>
     (if quote = CHR 0x22 then utf8_valid (bytes_of body)
      else case decode_rune (bytes_of body) of (r, n, ok) \<Rightarrow> n = length body \<and> (r \<noteq> rune_error \<or> n \<noteq> 1))"

definition unquote :: "string \<Rightarrow> (string \<times> string) option" where
  "unquote s =
     (case s of
        quote # t \<Rightarrow>
          if t = [] \<or> quote \<notin> set t then None
          else
            let body = takeWhile (\<lambda>c. c \<noteq> quote) t; rest = tl (dropWhile (\<lambda>c. c \<noteq> quote) t) in
            if quote = CHR ''`'' then Some (filter (\<lambda>c. c \<noteq> CHR 0x0D) body, rest)
            else if quote = CHR 0x22 \<or> quote = CHR 0x27 then
              if plain_literal quote body then Some (body, rest)
              else
                (case unquote_loop quote t of
                   Some (out, c # rest) \<Rightarrow> if c = quote then Some (out, rest) else None
                 | _ \<Rightarrow> None)
            else None
      | [] \<Rightarrow> None)"

definition Unquote :: "string \<Rightarrow> string option" where
  "Unquote s = (case unquote s of Some (out, []) \<Rightarrow> Some out | _ \<Rightarrow> None)"

text \<open>The two plain spellings of a string denote it.\<close>

definition plain_path :: "string \<Rightarrow> bool" where
  "plain_path p \<longleftrightarrow> utf8_valid (bytes_of p)
     \<and> list_all (\<lambda>c. c \<notin> {CHR 0x22, CHR 0x5C, CHR 0x0A, CHR 0x0D, CHR ''`''}) p"

lemma cut_at_quote:
  assumes "q \<notin> set p"
  shows "takeWhile (\<lambda>c. c \<noteq> q) (p @ [q]) = p" and "dropWhile (\<lambda>c. c \<noteq> q) (p @ [q]) = [q]"
  using assms by (induction p) auto

lemma Unquote_plain:
  assumes "plain_path p"
  shows "Unquote (CHR 0x22 # p @ [CHR 0x22]) = Some p" and "Unquote (CHR ''`'' # p @ [CHR ''`'']) = Some p"
proof -
  have c: "CHR 0x22 \<notin> set p" "CHR ''`'' \<notin> set p" "CHR 0x5C \<notin> set p" "CHR 0x0A \<notin> set p" "CHR 0x0D \<notin> set p"
      and u: "utf8_valid (bytes_of p)"
    using assms by (auto simp: plain_path_def list_all_iff)
  have "plain_literal CHR 0x22 p" using c u by (simp add: plain_literal_def)
  then show "Unquote (CHR 0x22 # p @ [CHR 0x22]) = Some p"
    using cut_at_quote [OF c(1)] by (simp add: Unquote_def unquote_def Let_def)
  have "filter (\<lambda>x. x \<noteq> CHR 0x0D) p = p" using c(5) by (auto simp: filter_id_conv)
  then show "Unquote (CHR ''`'' # p @ [CHR ''`'']) = Some p"
    using cut_at_quote [OF c(2)] by (simp add: Unquote_def unquote_def Let_def)
qed

section \<open>\<open>strconv.Quote\<close>\<close>

definition IsPrint :: "(nat \<Rightarrow> bool) \<Rightarrow> nat \<Rightarrow> bool" where
  "IsPrint table r \<longleftrightarrow> (if r \<le> 0xFF then 0x20 \<le> r \<and> r < 0x7F \<or> 0xA1 \<le> r \<and> r \<noteq> 0xAD else table r)"

fun hex_digits :: "nat \<Rightarrow> nat \<Rightarrow> string" where
  "hex_digits 0 v = []"
| "hex_digits (Suc n) v = digit_char (v div 16 ^ n mod 16) # hex_digits n v"

definition letter_escape :: "nat \<Rightarrow> char option" where
  "letter_escape r = map_of [(7, CHR ''a''), (8, CHR ''b''), (12, CHR ''f''), (10, CHR ''n''), (13, CHR ''r''),
     (9, CHR ''t''), (11, CHR ''v'')] r"

definition appendEscapedRune :: "(nat \<Rightarrow> bool) \<Rightarrow> nat \<Rightarrow> string" where
  "appendEscapedRune table r =
     (if r = 0x22 \<or> r = 0x5C then [CHR 0x5C, char_of r]
      else if IsPrint table r then string_of (encode_rune r)
      else
        (case letter_escape r of
           Some c \<Rightarrow> [CHR 0x5C, c]
         | None \<Rightarrow>
             if r < 0x20 \<or> r = 0x7F then CHR 0x5C # CHR ''x'' # hex_digits 2 r
             else if \<not> scalar r then CHR 0x5C # CHR ''u'' # hex_digits 4 rune_error
             else if r < 0x10000 then CHR 0x5C # CHR ''u'' # hex_digits 4 r
             else CHR 0x5C # CHR ''U'' # hex_digits 8 r))"

function quote_loop :: "(nat \<Rightarrow> bool) \<Rightarrow> string \<Rightarrow> string" where
  "quote_loop table s =
     (if s = [] then []
      else
        (case decode_rune (bytes_of s) of (r, n, ok) \<Rightarrow>
           (if ok then appendEscapedRune table r else CHR 0x5C # CHR ''x'' # hex_digits 2 (of_char (hd s)))
           @ quote_loop table (drop (max 1 n) s)))"
  by pat_completeness auto
termination
  by (relation "measure (length \<circ> snd)") auto

declare quote_loop.simps [simp del]

definition Quote :: "(nat \<Rightarrow> bool) \<Rightarrow> string \<Rightarrow> string" where
  "Quote table s = CHR 0x22 # quote_loop table s @ [CHR 0x22]"

section \<open>Quoting is inverted\<close>

lemma unhex_digit: "d < 16 \<Longrightarrow> unhex (digit_char d) = Some d"
  by (simp add: unhex_def digit_char_def Let_def)

lemma unhex_run_digits: "unhex_run n a (hex_digits n v @ t) = Some (a * 16 ^ n + v mod 16 ^ n, t)"
proof (induction n arbitrary: a)
  case (Suc n)
  have "v mod 16 ^ Suc n = 16 ^ n * (v div 16 ^ n mod 16) + v mod 16 ^ n"
    using mod_mult2_eq [of v "16 ^ n" 16] by (simp add: mult.commute)
  then show ?case using Suc [of "a * 16 + v div 16 ^ n mod 16"] by (simp add: unhex_digit algebra_simps)
qed simp

lemma of_char_eq_iff: "of_char c = (of_char d :: nat) \<longleftrightarrow> c = (d :: char)"
  by (metis char_of_char)

lemma decode_rune_prefix:
  assumes "decode_rune b = (r, n, True)"
  shows "decode_rune (take n b @ t) = (r, n, True)"
proof -
  have "map unat (take n b @ t) = map unat (take n b) @ map unat t" by simp
  from assms this show ?thesis
    by (cases rule: decode_rune_cases) (simp_all add: decode_rune_def)
qed

lemma bytes_of_Cons: "bytes_of (c # s) = of_nat (of_char c) # bytes_of s"
  by (simp add: bytes_of_def)

lemma unat_char_byte: "unat (of_nat (of_char (c :: char)) :: u8) = of_char c"
  by (simp add: unat_of_nat)

text \<open>The first rune of a string that starts with an ASCII character, and of one that does not.\<close>

lemma decode_rune_ascii: "of_char c < (0x80 :: nat) \<Longrightarrow> decode_rune (bytes_of (c # s)) = (of_char c, 1, True)"
  by (simp add: decode_rune_def bytes_of_Cons unat_char_byte)

lemma decode_rune_high:
  assumes "decode_rune (bytes_of (c # s)) = (r, n, True)" and "(0x80 :: nat) \<le> of_char c"
  shows "0x80 \<le> r"
proof (rule ccontr)
  assume low: "\<not> 0x80 \<le> r"
  note d = decode_rune_encode [OF assms(1)]
  have "[of_nat r] = take n (bytes_of (c # s))"
    using low encode_rune_ranges(1) [OF d(1)] d(2) by simp
  then have "(of_nat r :: u8) = of_nat (of_char c)" using d(3) by (cases n) (auto simp: bytes_of_Cons)
  then have "unat (of_nat r :: u8) = of_char c" by (simp only: unat_char_byte)
  then show False using low assms(2) by (simp add: unat_of_nat)
qed

text \<open>One rune written as it is, read by \<open>UnquoteChar\<close>.\<close>

lemma UnquoteChar_rune:
  assumes "decode_rune (bytes_of s) = (r, n, True)" and "s = c # u" and "c \<noteq> CHR 0x22" and "c \<noteq> CHR 0x5C"
  shows "\<exists>m. UnquoteChar (take n s @ t) (CHR 0x22) = Some (r, m, t) \<and> rune_out r m = take n s"
proof (cases "of_char c < (0x80 :: nat)")
  case True
  then have "r = of_char c" "n = 1" using assms(1,2) decode_rune_ascii [OF True, of u] by auto
  then show ?thesis using True assms(2-4) by (intro exI [of _ False]) (simp add: UnquoteChar_def rune_out_def)
next
  case False
  note d = decode_rune_encode [OF assms(1)]
  have r: "0x80 \<le> r" using decode_rune_high assms(1,2) False by simp
  have n: "take n s = c # take (n - 1) u" "n \<le> length s" using assms(2) d(3,4) by (cases n; simp)+
  have "decode_rune (bytes_of (take n s @ t)) = (r, n, True)"
    using decode_rune_prefix [OF assms(1), of "bytes_of t"] by (simp add: bytes_of_def take_map)
  then have "UnquoteChar (take n s @ t) (CHR 0x22) = Some (r, True, t)"
    using n False assms(3) d(3) by (cases n) (simp_all add: UnquoteChar_def assms(2))
  moreover have "string_of (encode_rune r) = take n s"
    unfolding d(2) by (metis bytes_of_def string_of_bytes_of take_map)
  ultimately show ?thesis using r by (intro exI [of _ True]) (simp add: rune_out_def)
qed

lemma ascii_rune:
  assumes "decode_rune (bytes_of s) = (r, n, True)" and "r < 0x80"
  shows "take n s = [char_of r]" and "rune_out r m = [char_of r]"
proof -
  obtain c u where s: "s = c # u" using assms(1) by (cases s) (auto simp: decode_rune_def bytes_of_def)
  have "of_char c < (0x80 :: nat)" using decode_rune_high [of c u r n] assms s by force
  then show "take n s = [char_of r]" using decode_rune_ascii [of c u] assms(1) s by auto
  show "rune_out r m = [char_of r]" using assms(2) by (simp add: rune_out_def)
qed

text \<open>Escapes, by what follows the backslash.\<close>

lemma UnquoteChar_escape: "UnquoteChar (CHR 0x5C # t) (CHR 0x22) = unquote_escape (CHR 0x22) t"
  by (simp add: UnquoteChar_def)

lemma char_of_quotes: "char_of (0x22 :: nat) = CHR 0x22" "char_of (0x5C :: nat) = CHR 0x5C"
  by code_simp+

lemma unquote_escape_self: "r = 0x22 \<or> r = 0x5C \<Longrightarrow> unquote_escape (CHR 0x22) (char_of r # t) = Some (r, False, t)"
  by (auto simp: char_of_quotes unquote_escape_def simple_escape_def octal_def)

lemma unquote_escape_letter: "letter_escape r = Some c \<Longrightarrow> unquote_escape (CHR 0x22) (c # t) = Some (r, False, t)"
  by (auto simp: unquote_escape_def simple_escape_def letter_escape_def split: if_splits)

lemma letter_escape_low: "letter_escape r = Some c \<Longrightarrow> r < 0x80"
  by (auto simp: letter_escape_def split: if_splits)

lemma unquote_escape_x: "r < 256 \<Longrightarrow> unquote_escape (CHR 0x22) (CHR ''x'' # hex_digits 2 r @ t) = Some (r, False, t)"
  using unhex_run_digits [of 2 0 r t] by (simp add: unquote_escape_def simple_escape_def)

lemma unquote_escape_u:
  "r < 0x10000 \<Longrightarrow> scalar r \<Longrightarrow> unquote_escape (CHR 0x22) (CHR ''u'' # hex_digits 4 r @ t) = Some (r, True, t)"
  using unhex_run_digits [of 4 0 r t] by (simp add: unquote_escape_def simple_escape_def)

lemma unquote_escape_U: "scalar r \<Longrightarrow> unquote_escape (CHR 0x22) (CHR ''U'' # hex_digits 8 r @ t) = Some (r, True, t)"
proof -
  assume sc: "scalar r"
  then have "r mod 16 ^ 8 = r" by (intro mod_less) (auto simp: scalar_def)
  then show ?thesis using sc unhex_run_digits [of 8 0 r t] by (simp add: unquote_escape_def simple_escape_def)
qed

text \<open>\<open>piece\<close>: a text that stands for the bytes \<open>w\<close> inside a literal.\<close>

definition piece :: "string \<Rightarrow> string \<Rightarrow> bool" where
  "piece q w \<longleftrightarrow> q \<noteq> [] \<and> hd q \<noteq> CHR 0x22 \<and> hd q \<noteq> CHR 0x0A
     \<and> (\<forall>t. \<exists>r m. UnquoteChar (q @ t) (CHR 0x22) = Some (r, m, t) \<and> rune_out r m = w)"

lemma piece_escape:
  assumes "\<And>t. unquote_escape (CHR 0x22) (q @ t) = Some (r, m, t)" and "rune_out r m = w"
  shows "piece (CHR 0x5C # q) w"
  using assms by (simp add: piece_def UnquoteChar_escape)

lemma piece_rune:
  assumes "decode_rune (bytes_of s) = (r, n, True)" and "s = c # u" and "c \<notin> {CHR 0x22, CHR 0x5C, CHR 0x0A}"
  shows "piece (take n s) (take n s)"
proof -
  have "take n s = c # take (n - 1) u" using assms(2) decode_rune_encode(3) [OF assms(1)] by (cases n) auto
  then show ?thesis
    using UnquoteChar_rune [OF assms(1,2)] assms(3) unfolding piece_def by (metis insert_iff list.discI list.sel(1))
qed

lemma piece_escaped_rune:
  assumes "decode_rune (bytes_of s) = (r, n, True)"
  shows "piece (appendEscapedRune table r) (take n s)"
proof -
  note d = decode_rune_encode [OF assms] and low = ascii_rune [OF assms]
  obtain c u where s: "s = c # u" using assms by (cases s) (auto simp: decode_rune_def bytes_of_def)
  have enc: "string_of (encode_rune r) = take n s" unfolding d(2) by (metis bytes_of_def string_of_bytes_of take_map)
  have c: "of_char c < (0x80 :: nat) \<Longrightarrow> r = of_char c" using decode_rune_ascii [of c u] assms s by auto
  consider "r = 0x22 \<or> r = 0x5C" | "r \<noteq> 0x22" "r \<noteq> 0x5C" "IsPrint table r"
    | x where "r \<noteq> 0x22" "r \<noteq> 0x5C" "\<not> IsPrint table r" "letter_escape r = Some x"
    | "r \<noteq> 0x22" "r \<noteq> 0x5C" "\<not> IsPrint table r" "letter_escape r = None" "r < 0x20 \<or> r = 0x7F"
    | "r \<noteq> 0x22" "r \<noteq> 0x5C" "\<not> IsPrint table r" "letter_escape r = None" "\<not> (r < 0x20 \<or> r = 0x7F)"
    by (cases "letter_escape r") auto
  then show ?thesis
  proof cases
    case 1
    then show ?thesis
      using piece_escape [of "[char_of r]" r False, OF _ low(2)] unquote_escape_self [OF 1] low(1)
      by (auto simp: appendEscapedRune_def)
  next
    case 2
    then have "c \<notin> {CHR 0x22, CHR 0x5C, CHR 0x0A}" using c by (auto simp: IsPrint_def)
    then show ?thesis using 2 piece_rune [OF assms s] enc by (simp add: appendEscapedRune_def)
  next
    case (3 x)
    then show ?thesis
      using piece_escape [of "[x]" r False, OF _ low(2)] unquote_escape_letter [OF 3(4)] low(1) letter_escape_low [OF 3(4)]
      by (simp add: appendEscapedRune_def)
  next
    case 4
    then have "r < 0x80" by auto
    then show ?thesis
      using 4 piece_escape [of "CHR ''x'' # hex_digits 2 r" r False, OF _ low(2)] unquote_escape_x [of r] low(1)
      by (simp add: appendEscapedRune_def)
  next
    case 5
    have out: "rune_out r True = take n s" using low enc by (cases "r < 0x80") (simp_all add: rune_out_def)
    show ?thesis
      using 5 d(1) piece_escape [of "CHR ''u'' # hex_digits 4 r", OF _ out] unquote_escape_u [OF _ d(1)]
        piece_escape [of "CHR ''U'' # hex_digits 8 r", OF _ out] unquote_escape_U [OF d(1)]
      by (simp add: appendEscapedRune_def)
  qed
qed

lemma piece_invalid:
  assumes "s = c # u"
  shows "piece (CHR 0x5C # CHR ''x'' # hex_digits 2 (of_char c)) (take 1 s)"
  using piece_escape [of "CHR ''x'' # hex_digits 2 (of_char c)" "of_char c" False] unquote_escape_x [of "of_char c"] assms
  by (simp add: rune_out_def)

lemma unquote_loop_piece:
  assumes "piece q w"
  shows "unquote_loop (CHR 0x22) (q @ t) = map_option (\<lambda>(out, rest). (w @ out, rest)) (unquote_loop (CHR 0x22) t)"
proof -
  obtain c q' where q: "q = c # q'" "c \<noteq> CHR 0x22" "c \<noteq> CHR 0x0A" using assms by (cases q) (auto simp: piece_def)
  obtain r m where "UnquoteChar (q @ t) (CHR 0x22) = Some (r, m, t)" "rune_out r m = w"
    using assms unfolding piece_def by blast
  then show ?thesis using q by (simp add: unquote_loop.simps [of _ "c # q' @ t"])
qed

lemma unquote_loop_end: "unquote_loop (CHR 0x22) (CHR 0x22 # t) = Some ([], CHR 0x22 # t)"
  by (simp add: unquote_loop.simps)

lemma unquote_loop_quote: "unquote_loop (CHR 0x22) (quote_loop table s @ CHR 0x22 # t) = Some (s, CHR 0x22 # t)"
proof (induction s rule: length_induct)
  case (1 s)
  show ?case
  proof (cases s)
    case (Cons c u)
    obtain r n ok where d: "decode_rune (bytes_of s) = (r, n, ok)" by (cases "decode_rune (bytes_of s)")
    define q where "q = (if ok then appendEscapedRune table r else CHR 0x5C # CHR ''x'' # hex_digits 2 (of_char c))"
    have "\<not> ok \<Longrightarrow> max 1 n = 1" using d Cons by (auto simp: decode_rune_def bytes_of_Cons split: list.splits if_splits)
    then have p: "piece q (take (max 1 n) s)"
      using piece_escaped_rune [of s r n table] piece_invalid [OF Cons] d decode_rune_encode(3) [of "bytes_of s" r n]
      by (cases ok) (simp_all add: q_def max_def)
    have "quote_loop table s = q @ quote_loop table (drop (max 1 n) s)"
      unfolding quote_loop.simps [of table s] d using Cons by (simp add: q_def)
    moreover have "unquote_loop (CHR 0x22) (quote_loop table (drop (max 1 n) s) @ CHR 0x22 # t)
        = Some (drop (max 1 n) s, CHR 0x22 # t)"
      using 1 Cons by simp
    ultimately show ?thesis using unquote_loop_piece [OF p] by simp
  qed (simp add: quote_loop.simps unquote_loop_end)
qed

text \<open>The fast path of \<open>unquote\<close> gives what the loop over the escapes gives.\<close>

lemma unquote_loop_plain:
  "utf8_valid (bytes_of s) \<Longrightarrow> list_all (\<lambda>c. c \<notin> {CHR 0x22, CHR 0x5C, CHR 0x0A}) s
   \<Longrightarrow> unquote_loop (CHR 0x22) (s @ CHR 0x22 # t) = Some (s, CHR 0x22 # t)"
proof (induction s rule: length_induct)
  case (1 s)
  show ?case
  proof (cases s)
    case (Cons c u)
    obtain r n ok where d0: "decode_rune (bytes_of s) = (r, n, ok)" by (cases "decode_rune (bytes_of s)")
    have ok: "ok" and v0: "utf8_valid (drop (max 1 n) (bytes_of s))"
      using 1(2) Cons unfolding utf8_valid.simps [of "bytes_of s"] d0 by (auto simp: bytes_of_def)
    note d = d0 [unfolded eqTrueI [OF ok]]
    have n: "1 \<le> n" using decode_rune_encode(3) [OF d] .
    have p: "piece (take n s) (take n s)" using piece_rune [OF d Cons] 1(3) Cons by simp
    have v: "utf8_valid (bytes_of (drop n s))" using v0 n by (simp add: bytes_of_def drop_map max_def)
    have l: "list_all (\<lambda>c. c \<notin> {CHR 0x22, CHR 0x5C, CHR 0x0A}) (drop n s)"
      using 1(3) by (auto simp: list_all_iff dest: in_set_dropD)
    have "length (drop n s) < length s" using n Cons by simp
    then have "unquote_loop (CHR 0x22) (drop n s @ CHR 0x22 # t) = Some (drop n s, CHR 0x22 # t)"
      using 1(1) v l by blast
    then show ?thesis
      using unquote_loop_piece [OF p, of "drop n s @ CHR 0x22 # t"] by (simp add: append_assoc [symmetric])
  qed (simp add: unquote_loop_end)
qed

lemma takeWhile_split: "q \<in> set t \<Longrightarrow> t = takeWhile (\<lambda>c. c \<noteq> q) t @ q # tl (dropWhile (\<lambda>c. c \<noteq> q) t)"
  by (metis (mono_tags, lifting) dropWhile_eq_Nil_conv hd_dropWhile list.collapse takeWhile_dropWhile_id)

lemma unquote_by_loop:
  assumes "unquote_loop (CHR 0x22) t = Some (out, CHR 0x22 # rest)" and "CHR 0x22 \<in> set t"
  shows "unquote (CHR 0x22 # t) = Some (out, rest)"
proof (cases "plain_literal (CHR 0x22) (takeWhile (\<lambda>c. c \<noteq> CHR 0x22) t)")
  case True
  define body where "body = takeWhile (\<lambda>c. c \<noteq> CHR 0x22) t"
  define after where "after = tl (dropWhile (\<lambda>c. c \<noteq> CHR 0x22) t)"
  have t: "t = body @ CHR 0x22 # after" using takeWhile_split [OF assms(2)] by (simp add: body_def after_def)
  have "CHR 0x22 \<notin> set body" by (auto simp: body_def dest: set_takeWhileD)
  then have "list_all (\<lambda>c. c \<notin> {CHR 0x22, CHR 0x5C, CHR 0x0A}) body" "utf8_valid (bytes_of body)"
    using True by (auto simp: plain_literal_def body_def [symmetric] list_all_iff)
  then have "unquote_loop (CHR 0x22) t = Some (body, CHR 0x22 # after)" unfolding t by (intro unquote_loop_plain)
  then show ?thesis
    using assms True by (auto simp: unquote_def body_def after_def Let_def)
next
  case False
  then show ?thesis using assms by (auto simp: unquote_def Let_def)
qed

theorem Unquote_Quote: "Unquote (Quote table s) = Some s"
  using unquote_by_loop [OF unquote_loop_quote [of table s "[]"]] by (simp add: Quote_def Unquote_def)

end
