(* ===== verification/RegDebug.thy ===== *)
theory RegDebug
  imports RegValue Quote
begin

text \<open>
  \<open>Value.String\<close> of \<^verbatim>\<open>registry/value.go\<close>: the rendering of a value for debugging, with the
  quoting of \<open>%q\<close> for strings. The theorem says how much of a value the rendering shows.
\<close>

definition Value_String :: "(nat \<Rightarrow> bool) \<Rightarrow> 'm reg_abi_scheme \<Rightarrow> Value \<Rightarrow> string" where
  "Value_String table A v =
     (let t = Type_String A (v_typ v) in
      if is_str_type A (v_typ v) then t @ ''('' @ Quote table (v_s v) @ '')''
      else if v_typ v = TypeDWORD A \<or> v_typ v = TypeDWORDBigEndian A
        then t @ ''('' @ FormatUint (unat (ucast (v_num v) :: u32)) 10 @ '')''
      else if v_typ v = TypeQWORD A then t @ ''('' @ FormatUint (unat (v_num v)) 10 @ '')''
      else if v_typ v = TypeMultiSZ A then t @ ''['' @ join_with (CHR '','') (v_list v) @ '']''
      else if v_typ v = TypeNone A then ''REG_NONE''
      else t @ ''('' @ FormatUint (length (v_b v)) 10 @ '' bytes)'')"

text \<open>The types whose payload is shown in full.\<close>

definition shown :: "'m reg_abi_scheme \<Rightarrow> Value \<Rightarrow> bool" where
  "shown A v \<longleftrightarrow> is_str_type A (v_typ v) \<or> v_typ v = TypeDWORD A \<or> v_typ v = TypeDWORDBigEndian A \<or> v_typ v = TypeQWORD A"

definition payload :: "(nat \<Rightarrow> bool) \<Rightarrow> 'm reg_abi_scheme \<Rightarrow> Value \<Rightarrow> string" where
  "payload table A v =
     (if is_str_type A (v_typ v) then Quote table (v_s v)
      else if v_typ v = TypeQWORD A then FormatUint (unat (v_num v)) 10
      else FormatUint (unat (ucast (v_num v) :: u32)) 10)"

lemma Quote_inject: "Quote table s = Quote table s' \<longleftrightarrow> s = s'"
  by (metis Unquote_Quote option.inject)

lemma ParseUint_wide: "ParseUint (FormatUint n 10) 10 (n + k) = Some n"
proof (rule ParseUint_FormatUint)
  show "n < 2 ^ (n + k)" using le_less_trans [OF le_add1 less_exp] .
qed simp_all

lemma FormatUint_inject: "FormatUint m 10 = FormatUint n 10 \<longleftrightarrow> m = n"
  using ParseUint_wide [of m n] ParseUint_wide [of n m] by (metis add.commute option.inject)

lemma Value_String_shown:
  assumes "reg_abi_ok A" and "shown A v"
  shows "Value_String table A v = Type_String A (v_typ v) @ ''('' @ payload table A v @ '')''"
  using assms
  by (auto simp: Value_String_def payload_def shown_def Let_def reg_abi_ok_def reg_types_def is_str_type_def)

text \<open>Their names, which are distinct and hold no parenthesis.\<close>

definition shown_names :: "'m reg_abi_scheme \<Rightarrow> (u32 \<times> string) list" where
  "shown_names A = [(TypeSZ A, ''REG_SZ''), (TypeExpandSZ A, ''REG_EXPAND_SZ''), (TypeDWORD A, ''REG_DWORD''),
     (TypeDWORDBigEndian A, ''REG_DWORD_BIG_ENDIAN''), (TypeLink A, ''REG_LINK''), (TypeQWORD A, ''REG_QWORD'')]"

lemma shown_name:
  assumes "reg_abi_ok A" and "shown A v"
  shows "(v_typ v, Type_String A (v_typ v)) \<in> set (shown_names A)"
proof -
  have d: "distinct (reg_types A)" "distinct (rev (reg_types A))" using assms(1) by (simp_all add: reg_abi_ok_def)
  consider "v_typ v = TypeSZ A" | "v_typ v = TypeExpandSZ A" | "v_typ v = TypeLink A" | "v_typ v = TypeDWORD A"
    | "v_typ v = TypeDWORDBigEndian A" | "v_typ v = TypeQWORD A"
    using assms(2) by (auto simp: shown_def is_str_type_def)
  then show ?thesis
    using d by cases (simp_all add: Type_String_def shown_names_def reg_types_def)
qed

lemma shown_names_ok: "distinct (map snd (shown_names A)) \<and> list_all (\<lambda>n. CHR ''('' \<notin> set n) (map snd (shown_names A))"
  by (simp add: shown_names_def)

lemma cut_at: "c \<notin> set a \<Longrightarrow> c \<notin> set b \<Longrightarrow> a @ c # p = b @ c # p' \<Longrightarrow> a = b \<and> p = p'"
  by (induction a arbitrary: b) (auto simp: Cons_eq_append_conv append_eq_Cons_conv)

lemma shown_type_prefix:
  assumes "reg_abi_ok A" and "shown A v" and "shown A v'"
    and "Type_String A (v_typ v) @ CHR ''('' # p = Type_String A (v_typ v') @ CHR ''('' # p'"
  shows "v_typ v = v_typ v' \<and> p = p'"
proof -
  note v = shown_name [OF assms(1,2)] and v' = shown_name [OF assms(1,3)]
  have np: "CHR ''('' \<notin> set n" if "(t, n) \<in> set (shown_names A)" for t n
    using that shown_names_ok [of A] by (force simp: list_all_iff)
  have eq: "Type_String A (v_typ v) = Type_String A (v_typ v')" "p = p'"
    using cut_at [OF np [OF v] np [OF v'] assms(4)] by auto
  have "inj_on snd (set (shown_names A))" using shown_names_ok [of A] by (simp add: distinct_map)
  then have "v_typ v = v_typ v'" using inj_onD [OF _ _ v v', of snd] eq(1) by simp
  with eq show ?thesis by simp
qed

lemma payload_inject:
  assumes "reg_abi_ok A" and "shown A v" and "v_typ v = v_typ v'"
  shows "payload table A v = payload table A v' \<longleftrightarrow>
    Str A v = Str A v' \<and> Uint32 A v = Uint32 A v' \<and> Uint64 A v = Uint64 A v'"
proof -
  have d: "TypeQWORD A \<noteq> TypeDWORD A" "TypeQWORD A \<noteq> TypeDWORDBigEndian A" "\<not> is_str_type A (TypeQWORD A)"
      "\<not> is_str_type A (TypeDWORD A)" "\<not> is_str_type A (TypeDWORDBigEndian A)"
    using assms(1) by (auto simp: reg_abi_ok_def reg_types_def is_str_type_def)
  consider "is_str_type A (v_typ v)" | "v_typ v = TypeQWORD A" | "v_typ v = TypeDWORD A \<or> v_typ v = TypeDWORDBigEndian A"
    using assms(2) by (auto simp: shown_def)
  then show ?thesis
  proof cases
    case 1
    then have "v_typ v \<noteq> TypeQWORD A" "v_typ v \<noteq> TypeDWORD A" "v_typ v \<noteq> TypeDWORDBigEndian A" using d by auto
    then show ?thesis using 1 assms(3) by (simp add: payload_def Str_def Uint32_def Uint64_def Quote_inject)
  next
    case 2
    then show ?thesis using d assms(3) [symmetric]
      by (simp add: payload_def Str_def Uint32_def Uint64_def FormatUint_inject word_unat_eq_iff [of "v_num v"])
  next
    case 3
    then have "\<not> is_str_type A (v_typ v)" "v_typ v \<noteq> TypeQWORD A" using d by auto
    then show ?thesis using 3 assms(3)
      by (auto simp: payload_def Str_def Uint32_def Uint64_def FormatUint_inject
          word_unat_eq_iff [of "ucast (v_num v) :: u32"])
  qed
qed

text \<open>
  The rendering is faithful: two strings, links or numbers are rendered alike exactly when they
  have the same type and the same payload, whatever runes the strings hold and whatever bytes.\<close>

theorem Value_String_faithful:
  assumes "reg_abi_ok A" and "shown A v" and "shown A v'"
  shows "Value_String table A v = Value_String table A v' \<longleftrightarrow>
    Kind v = Kind v' \<and> Str A v = Str A v' \<and> Uint32 A v = Uint32 A v' \<and> Uint64 A v = Uint64 A v'"
proof -
  have "Value_String table A v = Value_String table A v' \<longleftrightarrow>
      v_typ v = v_typ v' \<and> payload table A v = payload table A v'"
    using Value_String_shown [OF assms(1,2)] Value_String_shown [OF assms(1,3)]
      shown_type_prefix [OF assms, of "payload table A v @ '')''" "payload table A v' @ '')''"] by auto
  also have "\<dots> \<longleftrightarrow> Kind v = Kind v' \<and> Str A v = Str A v' \<and> Uint32 A v = Uint32 A v' \<and> Uint64 A v = Uint64 A v'"
    using payload_inject [OF assms(1,2)] unfolding Kind_def by blast
  finally show ?thesis .
qed

theorem Value_String_faithful_witness:
  "Value_String (\<lambda>_. False) win_reg (SZ win_reg ''a'') \<noteq> Value_String (\<lambda>_. False) win_reg (SZ win_reg ''b'')"
proof -
  have "reg_abi_ok win_reg" by code_simp
  moreover have "shown win_reg (SZ win_reg c)" for c by (simp add: shown_def SZ_def typed_def win_reg_def is_str_type_def)
  ultimately show ?thesis
    using Value_String_faithful [of win_reg "SZ win_reg ''a''" "SZ win_reg ''b''" "\<lambda>_. False"]
    by (simp add: Str_def SZ_def typed_def win_reg_def is_str_type_def)
qed

end
