(* ===== verification/EventWire.thy ===== *)
theory EventWire
  imports Io
begin

text \<open>
  \<^verbatim>\<open>wire/event.go\<close>, \<^verbatim>\<open>event/event.go\<close> and \<^verbatim>\<open>event/emit.go\<close>: the header of a KMES event, its owned
  copy, and the two calls that emit events.

  The offsets of the header are constants of the generated binding and are parameters;
  \<open>event_abi_ok\<close> says that every field lies inside the fixed part of the header, as the
  comment in \<open>ParseEvent\<close> claims. The lemmas show that the parser accepts exactly the
  encodings of events, that it depends on nothing behind the event, and that a batch is
  checked as a whole before anything is emitted.
\<close>

record event_abi =
  evSizeOff :: nat
  evHeaderOff :: nat
  evTimestampOff :: nat
  evSequenceOff :: nat
  evCPUIDOff :: nat
  evOriginOff :: nat
  evEffectiveTokenGUIDOff :: nat
  evTrueTokenGUIDOff :: nat
  evProcessGUIDOff :: nat
  evGUIDSize :: nat
  evTypeLenOff :: nat
  evHeaderBase :: nat
  OriginUserspace :: u8
  OriginKMES :: u8
  OriginKACS :: u8
  OriginLCS :: u8

definition event_abi_ok :: "'m event_abi_scheme \<Rightarrow> bool" where
  "event_abi_ok E \<longleftrightarrow>
     evSizeOff E + 4 \<le> evHeaderBase E \<and> evHeaderOff E + 4 \<le> evHeaderBase E
     \<and> evTimestampOff E + 8 \<le> evHeaderBase E \<and> evSequenceOff E + 8 \<le> evHeaderBase E
     \<and> evCPUIDOff E + 2 \<le> evHeaderBase E \<and> evOriginOff E + 1 \<le> evHeaderBase E
     \<and> evEffectiveTokenGUIDOff E + evGUIDSize E \<le> evHeaderBase E
     \<and> evTrueTokenGUIDOff E + evGUIDSize E \<le> evHeaderBase E
     \<and> evProcessGUIDOff E + evGUIDSize E \<le> evHeaderBase E \<and> evTypeLenOff E + 2 \<le> evHeaderBase E"

lemma event_abi_okD:
  assumes "event_abi_ok E"
  shows "evSizeOff E + 4 \<le> evHeaderBase E" "evHeaderOff E + 4 \<le> evHeaderBase E"
    "evTimestampOff E + 8 \<le> evHeaderBase E" "evSequenceOff E + 8 \<le> evHeaderBase E"
    "evCPUIDOff E + 2 \<le> evHeaderBase E" "evOriginOff E + 1 \<le> evHeaderBase E"
    "evEffectiveTokenGUIDOff E + evGUIDSize E \<le> evHeaderBase E"
    "evTrueTokenGUIDOff E + evGUIDSize E \<le> evHeaderBase E"
    "evProcessGUIDOff E + evGUIDSize E \<le> evHeaderBase E" "evTypeLenOff E + 2 \<le> evHeaderBase E"
  using assms unfolding event_abi_ok_def by blast+

section \<open>Events\<close>

record Event =
  ev_EventSize :: u32
  ev_HeaderSize :: u32
  ev_TimestampNS :: u64
  ev_Sequence :: u64
  ev_CPUID :: u16
  ev_Origin :: u8
  ev_EffectiveTokenGUID :: bytes
  ev_TrueTokenGUID :: bytes
  ev_ProcessGUID :: bytes
  ev_EventType :: bytes
  ev_Payload :: bytes

definition ParseEvent :: "'m event_abi_scheme \<Rightarrow> bytes \<Rightarrow> Event result" where
  "ParseEvent E buf =
     (if length buf < evHeaderBase E then Inl ErrBadEvent
      else
        bindE (bindE (slice_from buf (evSizeOff E)) get_le32) (\<lambda>eventSize.
        bindE (bindE (slice_from buf (evHeaderOff E)) get_le32) (\<lambda>headerSize.
        bindE (bindE (slice_from buf (evTypeLenOff E)) get_le16) (\<lambda>etlen.
        let total = unat eventSize; hdr = unat headerSize; typeEnd = evHeaderBase E + unat etlen in
        if total < evHeaderBase E \<or> total > length buf \<or> hdr < evHeaderBase E \<or> hdr > total \<or> typeEnd > hdr
        then Inl ErrBadEvent
        else
          bindE (bindE (slice_from buf (evTimestampOff E)) get_le64) (\<lambda>ts.
          bindE (bindE (slice_from buf (evSequenceOff E)) get_le64) (\<lambda>sq.
          bindE (bindE (slice_from buf (evCPUIDOff E)) get_le16) (\<lambda>cpu.
          bindE (index_at buf (evOriginOff E)) (\<lambda>org.
          bindE (slice buf (evEffectiveTokenGUIDOff E) (evEffectiveTokenGUIDOff E + evGUIDSize E)) (\<lambda>eg.
          bindE (slice buf (evTrueTokenGUIDOff E) (evTrueTokenGUIDOff E + evGUIDSize E)) (\<lambda>tg.
          bindE (slice buf (evProcessGUIDOff E) (evProcessGUIDOff E + evGUIDSize E)) (\<lambda>pg.
          bindE (slice buf (evHeaderBase E) typeEnd) (\<lambda>ty.
          bindE (slice buf hdr total) (\<lambda>pl.
          Inr \<lparr>ev_EventSize = eventSize, ev_HeaderSize = headerSize, ev_TimestampNS = ts, ev_Sequence = sq,
            ev_CPUID = cpu, ev_Origin = org, ev_EffectiveTokenGUID = eg, ev_TrueTokenGUID = tg,
            ev_ProcessGUID = pg, ev_EventType = ty, ev_Payload = pl\<rparr>)))))))))))))"

definition Origin_String :: "'m event_abi_scheme \<Rightarrow> u8 \<Rightarrow> string" where
  "Origin_String E org =
     (if org = OriginUserspace E then ''USER''
      else if org = OriginKMES E then ''KMES''
      else if org = OriginKACS E then ''KACS''
      else if org = OriginLCS E then ''LCS''
      else ''????'')"

text \<open>An owned event holds copies of the slices of a borrowed one: as values they are equal.\<close>

record OwnedEvent =
  oe_EventSize :: u32
  oe_HeaderSize :: u32
  oe_TimestampNS :: u64
  oe_Sequence :: u64
  oe_CPUID :: u16
  oe_Origin :: u8
  oe_EffectiveTokenGUID :: bytes
  oe_TrueTokenGUID :: bytes
  oe_ProcessGUID :: bytes
  oe_EventType :: bytes
  oe_Payload :: bytes

definition EventTypeString :: "OwnedEvent \<Rightarrow> string" where
  "EventTypeString e = string_of (oe_EventType e)"

definition ownedFrom :: "Event \<Rightarrow> OwnedEvent" where
  "ownedFrom e = \<lparr>oe_EventSize = ev_EventSize e, oe_HeaderSize = ev_HeaderSize e,
     oe_TimestampNS = ev_TimestampNS e, oe_Sequence = ev_Sequence e, oe_CPUID = ev_CPUID e,
     oe_Origin = ev_Origin e, oe_EffectiveTokenGUID = ev_EffectiveTokenGUID e,
     oe_TrueTokenGUID = ev_TrueTokenGUID e, oe_ProcessGUID = ev_ProcessGUID e,
     oe_EventType = ev_EventType e, oe_Payload = ev_Payload e\<rparr>"

section \<open>Emitting\<close>

text \<open>The two calls of the kernel: one event, and a batch, which also reports how many entries
  it accepted.\<close>

record 'w emit_kernel =
  k_emit :: "bytes \<Rightarrow> bytes \<Rightarrow> 'w syscall"
  k_emit_batch :: "(bytes \<times> bytes) list \<Rightarrow> (u32 \<times> 'w) syscall"

definition Emit :: "'w emit_kernel \<Rightarrow> string \<Rightarrow> bytes \<Rightarrow> ('w, unit) io" where
  "Emit K eventType payload =
     (if length eventType > 0xFFFF then failIO (Errorf ''libp/event: emit: event type too long for the KMES ABI'')
      else if length payload > 0xFFFFFFFF then failIO (Errorf ''libp/event: emit: payload too long for the KMES ABI'')
      else wrapIO ''libp/event: emit: '' (bindIO (retried (k_emit K (bytes_of eventType) payload)) (\<lambda>_. retIO ())))"

record EmitEntry =
  ee_EventType :: string
  ee_Payload :: bytes

text \<open>The loop that checks the entries and lays them out for the kernel.\<close>

fun batch_raw :: "EmitEntry list \<Rightarrow> (bytes \<times> bytes) list result" where
  "batch_raw [] = Inr []"
| "batch_raw (e # es) =
     (if length (ee_EventType e) > 0xFFFF then Inl (Errorf ''libp/event: emit batch: event type too long'')
      else if length (ee_Payload e) > 0xFFFFFFFF then Inl (Errorf ''libp/event: emit batch: payload too long'')
      else bindE (batch_raw es) (\<lambda>rs. Inr ((bytes_of (ee_EventType e), ee_Payload e) # rs)))"

definition batch_error :: "u32 \<Rightarrow> gerr \<Rightarrow> gerr" where
  "batch_error emitted e =
     (if emitted > 0
      then Wrap (''libp/event: emit batch: emitted '' @ FormatUint (unat emitted) 10 @ '' event(s) then failed: '') e
      else Wrap ''libp/event: emit batch: '' e)"

definition EmitBatch :: "nat \<Rightarrow> 'w emit_kernel \<Rightarrow> EmitEntry list \<Rightarrow> ('w, unit) io" where
  "EmitBatch BATCH_MAX_ENTRIES K entries =
     (if entries = [] \<or> length entries > BATCH_MAX_ENTRIES
      then failIO (Errorf ''libp/event: emit batch: bad number of entries'')
      else case batch_raw entries of
             Inl e \<Rightarrow> failIO e
           | Inr rs \<Rightarrow> (\<lambda>w.
               case ioctl_rw (k_emit_batch K rs) 0 w of None \<Rightarrow> None
               | Some (Some e, emitted, w) \<Rightarrow> Some (Inl (batch_error emitted e), w)
               | Some (None, _, w) \<Rightarrow> Some (Inr (), w)))"

section \<open>What the parser accepts\<close>

text \<open>\<open>encodes E ev b\<close>: the bytes \<open>b\<close> are an event with the fields \<open>ev\<close>, complete and with
  nothing behind it. Between the type and the payload there may be reserved bytes.\<close>

definition bytes_at :: "bytes \<Rightarrow> nat \<Rightarrow> bytes \<Rightarrow> bool" where
  "bytes_at b off x \<longleftrightarrow> take (length x) (drop off b) = x"

definition encodes :: "'m event_abi_scheme \<Rightarrow> Event \<Rightarrow> bytes \<Rightarrow> bool" where
  "encodes E ev b \<longleftrightarrow>
     length b = unat (ev_EventSize ev) \<and> evHeaderBase E + length (ev_EventType ev) \<le> unat (ev_HeaderSize ev)
     \<and> unat (ev_HeaderSize ev) + length (ev_Payload ev) = length b \<and> length (ev_EventType ev) < 2 ^ 16
     \<and> length (ev_EffectiveTokenGUID ev) = evGUIDSize E \<and> length (ev_TrueTokenGUID ev) = evGUIDSize E
     \<and> length (ev_ProcessGUID ev) = evGUIDSize E
     \<and> bytes_at b (evSizeOff E) (le32 (ev_EventSize ev)) \<and> bytes_at b (evHeaderOff E) (le32 (ev_HeaderSize ev))
     \<and> bytes_at b (evTypeLenOff E) (le16 (of_nat (length (ev_EventType ev))))
     \<and> bytes_at b (evTimestampOff E) (le64 (ev_TimestampNS ev)) \<and> bytes_at b (evSequenceOff E) (le64 (ev_Sequence ev))
     \<and> bytes_at b (evCPUIDOff E) (le16 (ev_CPUID ev)) \<and> bytes_at b (evOriginOff E) [ev_Origin ev]
     \<and> bytes_at b (evEffectiveTokenGUIDOff E) (ev_EffectiveTokenGUID ev)
     \<and> bytes_at b (evTrueTokenGUIDOff E) (ev_TrueTokenGUID ev) \<and> bytes_at b (evProcessGUIDOff E) (ev_ProcessGUID ev)
     \<and> bytes_at b (evHeaderBase E) (ev_EventType ev) \<and> bytes_at b (unat (ev_HeaderSize ev)) (ev_Payload ev)"

lemma bytes_at_take [simp]:
  "off + length x \<le> n \<Longrightarrow> n \<le> length b \<Longrightarrow> bytes_at (take n b) off x \<longleftrightarrow> bytes_at b off x"
  by (simp add: bytes_at_def drop_take min_absorb1)

lemma get_at_iff:
  "o4 + 4 \<le> length b \<Longrightarrow> bindE (slice_from b o4) get_le32 = Inr v4 \<longleftrightarrow> bytes_at b o4 (le32 v4)"
  "o2 + 2 \<le> length b \<Longrightarrow> bindE (slice_from b o2) get_le16 = Inr v2 \<longleftrightarrow> bytes_at b o2 (le16 v2)"
  "o8 + 8 \<le> length b \<Longrightarrow> bindE (slice_from b o8) get_le64 = Inr v8 \<longleftrightarrow> bytes_at b o8 (le64 v8)"
proof -
  show "bindE (slice_from b o4) get_le32 = Inr v4 \<longleftrightarrow> bytes_at b o4 (le32 v4)" if "o4 + 4 \<le> length b"
    using that le_bytes_le_val_take [of 4 "drop o4 b", where 'a = 32]
    by (auto simp: go_simps bytes_at_def) (metis le_round(2))
  show "bindE (slice_from b o2) get_le16 = Inr v2 \<longleftrightarrow> bytes_at b o2 (le16 v2)" if "o2 + 2 \<le> length b"
    using that le_bytes_le_val_take [of 2 "drop o2 b", where 'a = 16]
    by (auto simp: go_simps bytes_at_def) (metis le_round(1))
  show "bindE (slice_from b o8) get_le64 = Inr v8 \<longleftrightarrow> bytes_at b o8 (le64 v8)" if "o8 + 8 \<le> length b"
    using that le_bytes_le_val_take [of 8 "drop o8 b", where 'a = 64]
    by (auto simp: go_simps bytes_at_def) (metis le_round(3))
qed

lemma index_at_iff: "index_at b i = Inr x \<longleftrightarrow> i < length b \<and> bytes_at b i [x]"
  by (auto simp: index_at_def bytes_at_def take_Suc_conv_app_nth hd_drop_conv_nth take_Suc)

lemma slice_iff:
  "slice b i j = Inr x \<longleftrightarrow> i \<le> j \<and> j \<le> length b \<and> length x = j - i \<and> bytes_at b i x"
  by (auto simp: slice_def bytes_at_def)

text \<open>Reads in sequence, as conditions on the buffer.\<close>

lemma read_iff:
  "o4 + 4 \<le> length b \<Longrightarrow> bindE (bindE (slice_from b o4) get_le32) f4 = Inr y \<longleftrightarrow>
    (\<exists>v. bytes_at b o4 (le32 v) \<and> f4 v = Inr y)"
  "o2 + 2 \<le> length b \<Longrightarrow> bindE (bindE (slice_from b o2) get_le16) f2 = Inr y \<longleftrightarrow>
    (\<exists>v. bytes_at b o2 (le16 v) \<and> f2 v = Inr y)"
  "o8 + 8 \<le> length b \<Longrightarrow> bindE (bindE (slice_from b o8) get_le64) f8 = Inr y \<longleftrightarrow>
    (\<exists>v. bytes_at b o8 (le64 v) \<and> f8 v = Inr y)"
  "o1 + 1 \<le> length b \<Longrightarrow> bindE (index_at b o1) f1 = Inr y \<longleftrightarrow> (\<exists>v. bytes_at b o1 [v] \<and> f1 v = Inr y)"
  "i \<le> j \<Longrightarrow> j \<le> length b \<Longrightarrow> bindE (slice b i j) f = Inr y \<longleftrightarrow>
    (\<exists>x. length x = j - i \<and> bytes_at b i x \<and> f x = Inr y)"
  by (subst bindE_eq_Inr, simp add: get_at_iff index_at_iff slice_iff)+

lemma unat_u16_bound: "unat (x :: u16) < 65536"
  using unsigned_less [of x] by simp

lemma ParseEvent_accepts:
  assumes "event_abi_ok E"
  shows "ParseEvent E buf = Inr ev \<longleftrightarrow>
    unat (ev_EventSize ev) \<le> length buf \<and> encodes E ev (take (unat (ev_EventSize ev)) buf)"
proof (cases "length buf < evHeaderBase E")
  case True
  then have "ParseEvent E buf \<noteq> Inr ev" by (simp add: ParseEvent_def)
  moreover have "\<not> encodes E ev (take (unat (ev_EventSize ev)) buf)"
    using True by (auto simp: encodes_def)
  ultimately show ?thesis by simp
next
  case False
  let ?n = "unat (ev_EventSize ev)" and ?h = "unat (ev_HeaderSize ev)" and ?t = "length (ev_EventType ev)"
  note F = assms [unfolded event_abi_ok_def]
  show ?thesis
  proof
    assume "ParseEvent E buf = Inr ev"
    with False F show "?n \<le> length buf \<and> encodes E ev (take ?n buf)"
      by (auto simp: ParseEvent_def read_iff slice_iff Let_def encodes_def unat_u16_bound split: if_splits)
  next
    assume "?n \<le> length buf \<and> encodes E ev (take ?n buf)"
    then have n: "?n \<le> length buf" and e: "encodes E ev (take ?n buf)" by auto
    have l: "evHeaderBase E + ?t \<le> ?h" "?h + length (ev_Payload ev) = ?n" "?t < 65536"
        "length (ev_EffectiveTokenGUID ev) = evGUIDSize E" "length (ev_TrueTokenGUID ev) = evGUIDSize E"
        "length (ev_ProcessGUID ev) = evGUIDSize E"
      using n e by (simp_all add: encodes_def)
    have "bindE (slice_from buf (evSizeOff E)) get_le32 = Inr (ev_EventSize ev)"
        "bindE (slice_from buf (evHeaderOff E)) get_le32 = Inr (ev_HeaderSize ev)"
        "bindE (slice_from buf (evTypeLenOff E)) get_le16 = Inr (of_nat ?t)"
        "bindE (slice_from buf (evTimestampOff E)) get_le64 = Inr (ev_TimestampNS ev)"
        "bindE (slice_from buf (evSequenceOff E)) get_le64 = Inr (ev_Sequence ev)"
        "bindE (slice_from buf (evCPUIDOff E)) get_le16 = Inr (ev_CPUID ev)"
        "index_at buf (evOriginOff E) = Inr (ev_Origin ev)"
        "slice buf (evEffectiveTokenGUIDOff E) (evEffectiveTokenGUIDOff E + evGUIDSize E) = Inr (ev_EffectiveTokenGUID ev)"
        "slice buf (evTrueTokenGUIDOff E) (evTrueTokenGUIDOff E + evGUIDSize E) = Inr (ev_TrueTokenGUID ev)"
        "slice buf (evProcessGUIDOff E) (evProcessGUIDOff E + evGUIDSize E) = Inr (ev_ProcessGUID ev)"
        "slice buf (evHeaderBase E) (evHeaderBase E + ?t) = Inr (ev_EventType ev)"
        "slice buf ?h ?n = Inr (ev_Payload ev)"
      using n e F l by (simp_all add: get_at_iff index_at_iff slice_iff encodes_def)
    then show "ParseEvent E buf = Inr ev"
      using False n l by (simp add: ParseEvent_def)
  qed
qed

text \<open>C25
  The event parser accepts exactly the encodings of events: it returns \<open>ev\<close> for a buffer if
  and only if the buffer begins with an encoding of \<open>ev\<close>. So it reads every field from its
  place, depends on nothing behind the event, and skips reserved header bytes.\<close>

theorem ParseEvent_iff:
  assumes "event_abi_ok E"
  shows "ParseEvent E buf = Inr ev \<longleftrightarrow>
    unat (ev_EventSize ev) \<le> length buf \<and> encodes E ev (take (unat (ev_EventSize ev)) buf)"
  by (rule ParseEvent_accepts [OF assms])

definition sample_event_abi :: event_abi where
  "sample_event_abi = \<lparr>evSizeOff = 0, evHeaderOff = 4, evTimestampOff = 8, evSequenceOff = 16, evCPUIDOff = 24,
     evOriginOff = 26, evEffectiveTokenGUIDOff = 28, evTrueTokenGUIDOff = 44, evProcessGUIDOff = 60,
     evGUIDSize = 16, evTypeLenOff = 76, evHeaderBase = 78, OriginUserspace = 0, OriginKMES = 1, OriginKACS = 2,
     OriginLCS = 3\<rparr>"

definition sample_event :: Event where
  "sample_event = \<lparr>ev_EventSize = 82, ev_HeaderSize = 80, ev_TimestampNS = 5, ev_Sequence = 9, ev_CPUID = 0,
     ev_Origin = 0, ev_EffectiveTokenGUID = replicate 16 1, ev_TrueTokenGUID = replicate 16 2,
     ev_ProcessGUID = replicate 16 3, ev_EventType = [97], ev_Payload = [0x93, 0xC0]\<rparr>"

definition sample_event_bytes :: bytes where
  "sample_event_bytes = le32 82 @ le32 80 @ le64 5 @ le64 9 @ le16 0 @ [0, 0] @ replicate 16 1 @ replicate 16 2
     @ replicate 16 3 @ le16 1 @ [97, 0, 0x93, 0xC0]"

lemma sample_event_abi_ok: "event_abi_ok sample_event_abi"
  by code_simp

theorem ParseEvent_iff_witness:
  "event_abi_ok sample_event_abi \<and> ParseEvent sample_event_abi (sample_event_bytes @ [9, 9]) = Inr sample_event \<and>
   encodes sample_event_abi sample_event (take 82 (sample_event_bytes @ [9, 9]))"
proof -
  have p: "ParseEvent sample_event_abi (sample_event_bytes @ [9, 9]) = Inr sample_event" by code_simp
  have n: "unat (ev_EventSize sample_event) = 82" by (simp add: sample_event_def)
  show ?thesis
    using ParseEvent_iff [OF sample_event_abi_ok, of "sample_event_bytes @ [9, 9]" sample_event]
      sample_event_abi_ok p unfolding n by blast
qed

lemma ParseEvent_total:
  assumes "event_abi_ok E"
  shows "ParseEvent E buf = Inl ErrBadEvent \<or> (\<exists>ev. ParseEvent E buf = Inr ev)"
proof (cases "length buf < evHeaderBase E")
  case True
  then show ?thesis by (simp add: ParseEvent_def)
next
  case False
  let ?T = "le_val (take 4 (drop (evSizeOff E) buf)) :: u32" and ?H = "le_val (take 4 (drop (evHeaderOff E) buf)) :: u32"
  let ?t = "evHeaderBase E + unat (le_val (take 2 (drop (evTypeLenOff E) buf)) :: u16)"
  note F = event_abi_okD [OF assms]
  have r: "bindE (slice_from buf (evSizeOff E)) get_le32 = Inr ?T" "bindE (slice_from buf (evHeaderOff E)) get_le32 = Inr ?H"
      "bindE (slice_from buf (evTypeLenOff E)) get_le16 = Inr (le_val (take 2 (drop (evTypeLenOff E) buf)))"
    using False F by (simp_all add: go_simps)
  show ?thesis
  proof (cases "unat ?T < evHeaderBase E \<or> unat ?T > length buf \<or> unat ?H < evHeaderBase E \<or> unat ?H > unat ?T \<or> ?t > unat ?H")
    case True
    then show ?thesis using False by (simp add: ParseEvent_def r Let_def)
  next
    case ok: False
    then have n: "?t \<le> length buf" "unat ?H \<le> unat ?T" "unat ?T \<le> length buf" by auto
    obtain ts sq cpu org eg tg pg ty pl where
        "bindE (slice_from buf (evTimestampOff E)) get_le64 = Inr ts" "bindE (slice_from buf (evSequenceOff E)) get_le64 = Inr sq"
        "bindE (slice_from buf (evCPUIDOff E)) get_le16 = Inr cpu" "index_at buf (evOriginOff E) = Inr org"
        "slice buf (evEffectiveTokenGUIDOff E) (evEffectiveTokenGUIDOff E + evGUIDSize E) = Inr eg"
        "slice buf (evTrueTokenGUIDOff E) (evTrueTokenGUIDOff E + evGUIDSize E) = Inr tg"
        "slice buf (evProcessGUIDOff E) (evProcessGUIDOff E + evGUIDSize E) = Inr pg"
        "slice buf (evHeaderBase E) ?t = Inr ty" "slice buf (unat ?H) (unat ?T) = Inr pl"
      using False F n by (simp add: go_simps)
    then show ?thesis using ok False by (simp add: ParseEvent_def r)
  qed
qed

text \<open>
  \<open>ParseEvent\<close> never panics, whatever sizes the header claims: it returns an event or
  \<open>ErrBadEvent\<close>.\<close>

theorem ParseEvent_safe:
  assumes "event_abi_ok E"
  shows "ParseEvent E buf = Inl ErrBadEvent \<or> (\<exists>ev. ParseEvent E buf = Inr ev)"
  by (rule ParseEvent_total [OF assms])

theorem ParseEvent_safe_witness:
  "event_abi_ok sample_event_abi \<and> (ParseEvent sample_event_abi [1] = Inl ErrBadEvent \<or>
   (\<exists>ev. ParseEvent sample_event_abi [1] = Inr ev))"
  using ParseEvent_safe [OF sample_event_abi_ok, of "[1]"] sample_event_abi_ok by blast

section \<open>Batches\<close>

definition entry_fits :: "EmitEntry \<Rightarrow> bool" where
  "entry_fits e \<longleftrightarrow> length (ee_EventType e) < 2 ^ 16 \<and> length (ee_Payload e) < 2 ^ 32"

lemma batch_raw_iff:
  "(case batch_raw es of
      Inr rs \<Rightarrow> list_all entry_fits es \<and> rs = map (\<lambda>e. (bytes_of (ee_EventType e), ee_Payload e)) es
    | Inl e \<Rightarrow> \<not> list_all entry_fits es \<and> (\<exists>s. e = Errorf s))"
proof (induction es)
  case (Cons e es)
  have "entry_fits e \<longleftrightarrow> \<not> length (ee_EventType e) > 0xFFFF \<and> \<not> length (ee_Payload e) > 0xFFFFFFFF"
    by (auto simp: entry_fits_def)
  with Cons show ?case by (auto split: sum.splits)
qed simp

text \<open>
  \<open>EmitBatch\<close> checks the whole batch first: a batch that is empty, too large or has an entry
  whose type or payload exceeds its length field is refused without a call to the kernel;
  otherwise the kernel gets all entries in order and unchanged, and its error is returned
  with the number of entries it accepted before it.\<close>

theorem EmitBatch_spec:
  "if es \<noteq> [] \<and> length es \<le> most \<and> list_all entry_fits es
   then EmitBatch most K es w =
     map_option (\<lambda>(err, n, w'). (case err of None \<Rightarrow> Inr () | Some e \<Rightarrow> Inl (batch_error n e), w'))
       (ioctl_rw (k_emit_batch K (map (\<lambda>e. (bytes_of (ee_EventType e), ee_Payload e)) es)) 0 w)
   else (\<exists>s. EmitBatch most K es w = Some (Inl (Errorf s), w))"
  using batch_raw_iff [of es]
  by (cases "batch_raw es") (auto simp: EmitBatch_def split: option.splits)

end
