(* ===== verification/Ring.thy ===== *)
theory Ring
  imports EventWire "HOL-Library.Multiset"
begin

text \<open>
  \<^verbatim>\<open>event/ring.go\<close>: the consumer of one per-CPU ring buffer.

  The buffer is memory shared with the kernel. Its loads, stores and the snapshot of bytes
  one parse sees are parameters on a state \<open>'w\<close>, so between any two of them the producer may
  have moved; a ring's own cursor is the record \<open>Ring\<close>, and an operation acts on the pair of
  both. The loop of \<open>Next\<close> has no bound (a producer may lap the reader for ever), so it is
  a \<open>partial_function\<close> whose \<open>None\<close> is not returning.

  The lemmas show that the reader never leaves its mapping whatever the producer does, that
  a quiet buffer is drained completely and in order, that the loss counter accounts for
  every missing sequence number, and that attaching leaks nothing on any error path.
\<close>

record ring_abi = event_abi +
  metaTotal :: nat
  metaPage :: nat
  pVersion :: nat
  pCPUID :: nat
  pGeneration :: nat
  pWritePos :: nat
  pTailPos :: nat
  pFutex :: nat
  ringVersion :: u32
  RING_MAGIC :: bytes

text \<open>The kernel and the shared memory. A mapping is named by its address; \<open>m_bytes\<close> gives the
  bytes that one pass over the mapping reads.\<close>

record 'w ring_kernel =
  m_load64 :: "u64 \<Rightarrow> nat \<Rightarrow> 'w \<Rightarrow> u64 \<times> 'w"
  m_load32 :: "u64 \<Rightarrow> nat \<Rightarrow> 'w \<Rightarrow> u32 \<times> 'w"
  m_bytes :: "u64 \<Rightarrow> 'w \<Rightarrow> (nat \<Rightarrow> u8) \<times> 'w"
  m_store32 :: "u64 \<Rightarrow> nat \<Rightarrow> u32 \<Rightarrow> 'w \<Rightarrow> 'w"
  m_futex :: "u64 \<Rightarrow> nat \<Rightarrow> u32 \<Rightarrow> int option \<Rightarrow> 'w \<Rightarrow> u64 \<times> 'w"
  m_attach :: "u32 \<Rightarrow> (u64 \<times> 'w) syscall"
  m_mmap :: "int \<Rightarrow> nat \<Rightarrow> 'w \<Rightarrow> (u64 \<times> u64) \<times> 'w"
  m_munmap :: "u64 \<Rightarrow> 'w \<Rightarrow> u64 \<times> 'w"
  m_close :: "int \<Rightarrow> 'w \<Rightarrow> u64 \<times> 'w"

text \<open>\<open>r_base\<close> is the mapped slice: its address and length, or nil.\<close>

record Ring =
  r_fd :: int
  r_base :: "(u64 \<times> nat) option"
  r_capacity :: u64
  r_cpuID :: u16
  r_generation :: u64
  r_readPos :: u64
  r_pending :: u64
  r_lastSeq :: u64
  r_lostEvents :: u64

type_synonym ('w, 'a) ring_io = "(Ring \<times> 'w, 'a) io"

section \<open>Access to the mapping\<close>

definition get_ring :: "('w, Ring) ring_io" where
  "get_ring = (\<lambda>(r, w). Some (Inr r, (r, w)))"

definition upd_ring :: "(Ring \<Rightarrow> Ring) \<Rightarrow> ('w, unit) ring_io" where
  "upd_ring f = (\<lambda>(r, w). Some (Inr (), (f r, w)))"

definition mapped :: "Ring \<Rightarrow> nat \<Rightarrow> u64 result" where
  "mapped r off = (case r_base r of None \<Rightarrow> Inl Panic | Some (a, n) \<Rightarrow> if off < n then Inr a else Inl Panic)"

definition loadU64 :: "'w ring_kernel \<Rightarrow> nat \<Rightarrow> ('w, u64) ring_io" where
  "loadU64 M off = (\<lambda>(r, w). case mapped r off of
     Inl e \<Rightarrow> Some (Inl e, (r, w))
   | Inr a \<Rightarrow> (case m_load64 M a off w of (v, w) \<Rightarrow> Some (Inr v, (r, w))))"

definition loadU32 :: "'w ring_kernel \<Rightarrow> nat \<Rightarrow> ('w, u32) ring_io" where
  "loadU32 M off = (\<lambda>(r, w). case mapped r off of
     Inl e \<Rightarrow> Some (Inl e, (r, w))
   | Inr a \<Rightarrow> (case m_load32 M a off w of (v, w) \<Rightarrow> Some (Inr v, (r, w))))"

definition store_need_wake :: "'w ring_kernel \<Rightarrow> 'm ring_abi_scheme \<Rightarrow> u32 \<Rightarrow> ('w, unit) ring_io" where
  "store_need_wake M E v = (\<lambda>(r, w). case mapped r (metaPage E) of
     Inl e \<Rightarrow> Some (Inl e, (r, w))
   | Inr a \<Rightarrow> Some (Inr (), (r, m_store32 M a (metaPage E) v w)))"

definition setNeedWake :: "'w ring_kernel \<Rightarrow> 'm ring_abi_scheme \<Rightarrow> ('w, unit) ring_io" where
  "setNeedWake M E = store_need_wake M E 1"

definition clearNeedWake :: "'w ring_kernel \<Rightarrow> 'm ring_abi_scheme \<Rightarrow> ('w, unit) ring_io" where
  "clearNeedWake M E = store_need_wake M E 0"

section \<open>Draining\<close>

text \<open>\<open>r.base[metaTotal:]\<close>: the length of the data region.\<close>

definition data_len :: "'m ring_abi_scheme \<Rightarrow> Ring \<Rightarrow> (u64 \<times> nat) result" where
  "data_len E r = (case r_base r of None \<Rightarrow> (if metaTotal E = 0 then Inr (0, 0) else Inl Panic)
     | Some (a, n) \<Rightarrow> if metaTotal E \<le> n then Inr (a, n - metaTotal E) else Inl Panic)"

text \<open>\<open>wire.ParseEvent(data[off : off+r.capacity])\<close>, with 64-bit indices.\<close>

definition parse_at :: "'w ring_kernel \<Rightarrow> 'm ring_abi_scheme \<Rightarrow> u64 \<Rightarrow> ('w, Event result) ring_io" where
  "parse_at M E off = (\<lambda>(r, w). case data_len E r of
     Inl e \<Rightarrow> Some (Inl e, (r, w))
   | Inr (a, n) \<Rightarrow>
       let i = unat off; j = unat (off + r_capacity r) in
       if i \<le> j \<and> j \<le> n then
         (case m_bytes M a w of (f, w) \<Rightarrow>
            case ParseEvent E (map f [metaTotal E + i ..< metaTotal E + j]) of
              Inl Panic \<Rightarrow> Some (Inl Panic, (r, w))
            | p \<Rightarrow> Some (Inr p, (r, w)))
       else Some (Inl Panic, (r, w)))"

text \<open>The bookkeeping of an event that is yielded.\<close>

definition yield_event :: "Event \<Rightarrow> Ring \<Rightarrow> Ring" where
  "yield_event ev r = r\<lparr>
     r_lostEvents := (if r_lastSeq r \<noteq> 0 \<and> ev_Sequence ev > r_lastSeq r + 1
                      then r_lostEvents r + (ev_Sequence ev - r_lastSeq r - 1) else r_lostEvents r),
     r_lastSeq := ev_Sequence ev,
     r_pending := ucast (ev_EventSize ev)\<rparr>"

text \<open>One turn of the loop: \<open>None\<close> is \<open>continue\<close>, \<open>Some\<close> the result of \<open>Next\<close>, where \<open>None\<close>
  is ok = false.\<close>

definition next_turn :: "'w ring_kernel \<Rightarrow> 'm ring_abi_scheme \<Rightarrow> ('w, Event option option) ring_io" where
  "next_turn M E =
     bindIO (loadU64 M (pWritePos E)) (\<lambda>writePos.
     bindIO get_ring (\<lambda>r.
     if r_readPos r \<ge> writePos then
       bindIO (loadU64 M (pGeneration E)) (\<lambda>g.
       if g \<noteq> r_generation r then failIO ErrGenerationChanged else retIO (Some None))
     else
       bindIO (loadU64 M (pTailPos E)) (\<lambda>savedTail.
       if r_readPos r < savedTail then bindIO (upd_ring (r_readPos_update (\<lambda>_. savedTail))) (\<lambda>_. retIO None)
       else
         bindIO (parse_at M E (r_readPos r AND (r_capacity r - 1))) (\<lambda>p.
         bindIO (loadU64 M (pTailPos E)) (\<lambda>tailAfter.
         if tailAfter > savedTail \<and> r_readPos r < tailAfter then retIO None
         else case p of
                Inl perr \<Rightarrow>
                  bindIO (loadU64 M (pTailPos E)) (\<lambda>tail.
                  if tail > r_readPos r then bindIO (upd_ring (r_readPos_update (\<lambda>_. tail))) (\<lambda>_. retIO None)
                  else failIO (Wrap ''libp/event: ring: '' perr))
              | Inr ev \<Rightarrow> bindIO (upd_ring (yield_event ev)) (\<lambda>_. retIO (Some (Some ev))))))))"

partial_function (option) next_loop ::
  "'w ring_kernel \<Rightarrow> 'm ring_abi_scheme \<Rightarrow> Ring \<times> 'w \<Rightarrow> (Event option result \<times> (Ring \<times> 'w)) option" where
  "next_loop M E s =
     (case next_turn M E s of None \<Rightarrow> None
      | Some (r, s) \<Rightarrow>
          (case r of Inl e \<Rightarrow> Some (Inl e, s)
           | Inr (Some x) \<Rightarrow> Some (Inr x, s)
           | Inr None \<Rightarrow> next_loop M E s))"

declare next_loop.simps [code]

text \<open>Stepping over the event of the previous call.\<close>

definition step_over :: "Ring \<Rightarrow> Ring" where
  "step_over r = (if r_pending r \<noteq> 0 then r\<lparr>r_readPos := r_readPos r + r_pending r, r_pending := 0\<rparr> else r)"

definition Next :: "'w ring_kernel \<Rightarrow> 'm ring_abi_scheme \<Rightarrow> ('w, Event option) ring_io" where
  "Next M E = bindIO (upd_ring step_over) (\<lambda>_.
     bindIO get_ring (\<lambda>r. case data_len E r of Inl e \<Rightarrow> failIO e | Inr _ \<Rightarrow> next_loop M E))"

section \<open>Waiting\<close>

definition errno_EAGAIN :: u64 where "errno_EAGAIN = 11"
definition errno_ETIMEDOUT :: u64 where "errno_ETIMEDOUT = 110"

definition futexWait :: "'w ring_kernel \<Rightarrow> 'm ring_abi_scheme \<Rightarrow> u32 \<Rightarrow> int option \<Rightarrow> ('w, unit) ring_io" where
  "futexWait M E expected timeout = (\<lambda>(r, w). case mapped r (pFutex E) of
     Inl e \<Rightarrow> Some (Inl e, (r, w))
   | Inr a \<Rightarrow> (case m_futex M a (pFutex E) expected timeout w of (e, w) \<Rightarrow>
       Some (if e = 0 \<or> e = errno_EAGAIN \<or> e = errno_ETIMEDOUT then Inr ()
             else if e = syscall_EINTR then Inl ErrInterrupted
             else Inl (Errno (ucast e)), (r, w))))"

definition ring_wait :: "'w ring_kernel \<Rightarrow> 'm ring_abi_scheme \<Rightarrow> int option \<Rightarrow> ('w, unit) ring_io" where
  "ring_wait M E timeout =
     bindIO (setNeedWake M E) (\<lambda>_.
     bindIO (loadU64 M (pWritePos E)) (\<lambda>wp.
     bindIO get_ring (\<lambda>r.
     if wp \<noteq> r_readPos r then clearNeedWake M E
     else
       bindIO (loadU32 M (pFutex E)) (\<lambda>counter s.
         case futexWait M E counter timeout s of None \<Rightarrow> None
         | Some (res, s) \<Rightarrow>
             (case clearNeedWake M E s of None \<Rightarrow> None
              | Some (Inl e, s) \<Rightarrow> Some (Inl e, s)
              | Some (Inr _, s) \<Rightarrow> Some (res, s))))))"

partial_function (option) Read ::
  "'w ring_kernel \<Rightarrow> 'm ring_abi_scheme \<Rightarrow> Ring \<times> 'w \<Rightarrow> (OwnedEvent result \<times> (Ring \<times> 'w)) option" where
  "Read M E s =
     (case Next M E s of None \<Rightarrow> None
      | Some (r, s) \<Rightarrow>
          (case r of Inl e \<Rightarrow> Some (Inl e, s)
           | Inr (Some ev) \<Rightarrow> Some (Inr (ownedFrom ev), s)
           | Inr None \<Rightarrow>
               (case ring_wait M E None s of None \<Rightarrow> None
                | Some (r, s) \<Rightarrow> (case r of Inl e \<Rightarrow> Some (Inl e, s) | Inr _ \<Rightarrow> Read M E s))))"

declare Read.simps [code]

definition ReadTimeout :: "'w ring_kernel \<Rightarrow> 'm ring_abi_scheme \<Rightarrow> int \<Rightarrow> ('w, OwnedEvent option) ring_io" where
  "ReadTimeout M E timeout =
     bindIO (Next M E) (\<lambda>x. case x of
       Some ev \<Rightarrow> retIO (Some (ownedFrom ev))
     | None \<Rightarrow>
         bindIO (ring_wait M E (Some timeout)) (\<lambda>_.
         bindIO (Next M E) (\<lambda>x. retIO (map_option ownedFrom x))))"

section \<open>Attaching\<close>

definition attach :: "'w ring_kernel \<Rightarrow> u32 \<Rightarrow> ('w, int \<times> u64) io" where
  "attach M cpuID w =
     (case Retry (m_attach M cpuID) (0, w) of None \<Rightarrow> None
      | Some ((_, Some e), (_, w)) \<Rightarrow> Some (Inl e, w)
      | Some ((r, None), (capacity, w)) \<Rightarrow> Some (Inr (sint r, capacity), w))"

text \<open>\<open>metaTotal + 2*int(capacity)\<close> in 64-bit arithmetic, and \<open>syscall.Mmap\<close>, which refuses a
  length that is not positive.\<close>

definition map_len :: "'m ring_abi_scheme \<Rightarrow> u64 \<Rightarrow> int" where
  "map_len E capacity = sint (of_nat (metaTotal E) + 2 * capacity :: u64)"

definition Mmap :: "'w ring_kernel \<Rightarrow> int \<Rightarrow> int \<Rightarrow> 'w \<Rightarrow> (u64 \<times> nat) result \<times> 'w" where
  "Mmap M fd len w =
     (if len \<le> 0 then (Inl EINVAL, w)
      else case m_mmap M fd (nat len) w of ((a, e), w) \<Rightarrow>
             (if e = 0 then Inr (a, nat len) else Inl (Errno (ucast e)), w))"

definition release :: "'w ring_kernel \<Rightarrow> u64 \<Rightarrow> int \<Rightarrow> 'w \<Rightarrow> 'w" where
  "release M a fd w = snd (m_close M fd (snd (m_munmap M a w)))"

definition mapRing :: "'w ring_kernel \<Rightarrow> 'm ring_abi_scheme \<Rightarrow> int \<Rightarrow> u64 \<Rightarrow> ('w, Ring) io" where
  "mapRing M E fd capacity w =
     (case Mmap M fd (map_len E capacity) w of
        (Inl e, w) \<Rightarrow> Some (Inl (Wrap ''libp/event: map ring buffer: '' e), snd (m_close M fd w))
      | (Inr (a, n), w) \<Rightarrow>
          let r = \<lparr>r_fd = fd, r_base = Some (a, n), r_capacity = capacity, r_cpuID = 0, r_generation = 0,
                   r_readPos = 0, r_pending = 0, r_lastSeq = 0, r_lostEvents = 0\<rparr> in
          if n < 8 then Some (Inl Panic, w)
          else case m_bytes M a w of (f, w) \<Rightarrow>
            if map f [0 ..< 8] \<noteq> RING_MAGIC E then Some (Inl ErrBadMagic, release M a fd w)
            else
              (case loadU32 M (pVersion E) (r, w) of None \<Rightarrow> None
               | Some (Inl e, (_, w)) \<Rightarrow> Some (Inl e, w)
               | Some (Inr v, (_, w)) \<Rightarrow>
                   if v \<noteq> ringVersion E
                   then Some (Inl (Errorf ''libp/event: ring buffer version''), release M a fd w)
                   else map_option (\<lambda>(x, (_, w)). (x, w))
                     (bindIO (loadU32 M (pCPUID E)) (\<lambda>cpu.
                      bindIO (loadU64 M (pGeneration E)) (\<lambda>g.
                      bindIO (loadU64 M (pTailPos E)) (\<lambda>tail.
                      retIO (r\<lparr>r_cpuID := ucast cpu, r_generation := g, r_readPos := tail\<rparr>)))) (r, w))))"

text \<open>\<open>Close\<close>, which yields its result and the spent ring.\<close>

definition Ring_Close :: "'w ring_kernel \<Rightarrow> ('w, unit) ring_io" where
  "Ring_Close M = (\<lambda>(r, w). case r_base r of None \<Rightarrow> Some (Inr (), (r, w))
     | Some (a, n) \<Rightarrow>
         (case m_munmap M a w of (e1, w) \<Rightarrow> case m_close M (r_fd r) w of (e2, w) \<Rightarrow>
            Some (if e1 \<noteq> 0 \<or> e2 \<noteq> 0 then Inl (Errorf ''libp/event: close ring'') else Inr (),
              (r\<lparr>r_base := None, r_fd := -1\<rparr>, w))))"

fun close_all :: "'w ring_kernel \<Rightarrow> Ring list \<Rightarrow> 'w \<Rightarrow> 'w" where
  "close_all M [] w = w"
| "close_all M (r # rs) w = close_all M rs (case Ring_Close M (r, w) of None \<Rightarrow> w | Some (_, (_, w)) \<Rightarrow> w)"

text \<open>The loop over CPUs; its 32-bit counter wraps, so not ending is \<open>None\<close>.\<close>

partial_function (option) attach_loop ::
  "'w ring_kernel \<Rightarrow> 'm ring_abi_scheme \<Rightarrow> u32 \<Rightarrow> Ring list \<Rightarrow> 'w \<Rightarrow> (Ring list result \<times> 'w) option" where
  "attach_loop M E cpuID rings w =
     (case attach M cpuID w of None \<Rightarrow> None
      | Some (r, w) \<Rightarrow>
          (case r of
             Inl e \<Rightarrow>
               if errors_is e EINVAL then Some (Inr rings, w)
               else Some (Inl (Wrap ''libp/event: attach cpu: '' e), close_all M rings w)
           | Inr (fd, capacity) \<Rightarrow>
               (case mapRing M E fd capacity w of None \<Rightarrow> None
                | Some (r, w) \<Rightarrow>
                    (case r of
                       Inl e \<Rightarrow> Some (Inl e, if e = Panic then w else close_all M rings w)
                     | Inr ring \<Rightarrow> attach_loop M E (cpuID + 1) (rings @ [ring]) w))))"

declare attach_loop.simps [code]

definition AttachAll :: "'w ring_kernel \<Rightarrow> 'm ring_abi_scheme \<Rightarrow> ('w, Ring list) io" where
  "AttachAll M E w =
     (case attach_loop M E 0 [] w of None \<Rightarrow> None
      | Some (Inl e, w) \<Rightarrow> Some (Inl e, w)
      | Some (Inr rings, w) \<Rightarrow>
          if rings = [] then Some (Inl (Errorf ''libp/event: attach: kernel reported no ring buffers''), w)
          else Some (Inr rings, w))"

section \<open>Staying inside the mapping\<close>

definition ring_abi_ok :: "'m ring_abi_scheme \<Rightarrow> bool" where
  "ring_abi_ok E \<longleftrightarrow> event_abi_ok E \<and> pVersion E < metaTotal E \<and> pCPUID E < metaTotal E
     \<and> pGeneration E < metaTotal E \<and> pWritePos E < metaTotal E \<and> pTailPos E < metaTotal E
     \<and> pFutex E < metaTotal E \<and> metaPage E < metaTotal E \<and> 8 \<le> metaTotal E \<and> metaTotal E < 2 ^ 62"

lemma ring_abi_okD:
  assumes "ring_abi_ok E"
  shows "event_abi_ok E" and "pVersion E < metaTotal E" and "pCPUID E < metaTotal E" and "pGeneration E < metaTotal E"
    and "pWritePos E < metaTotal E" and "pTailPos E < metaTotal E" and "pFutex E < metaTotal E"
    and "metaPage E < metaTotal E" and "8 \<le> metaTotal E" and "metaTotal E < 2 ^ 62"
  using assms unfolding ring_abi_ok_def by blast+

text \<open>A ring as \<open>AttachAll\<close> makes it: the metadata pages and twice the data.\<close>

definition ring_ok :: "'m ring_abi_scheme \<Rightarrow> Ring \<Rightarrow> bool" where
  "ring_ok E r \<longleftrightarrow> 0 < unat (r_capacity r) \<and> unat (r_capacity r) < 2 ^ 63
     \<and> (\<exists>a. r_base r = Some (a, metaTotal E + 2 * unat (r_capacity r)))"

lemma ring_ok_mapped: "ring_ok E r \<Longrightarrow> off < metaTotal E \<Longrightarrow> \<exists>a. mapped r off = Inr a"
  by (auto simp: ring_ok_def mapped_def)

lemma ring_ok_upd:
  "ring_ok E (r_readPos_update f r) \<longleftrightarrow> ring_ok E r"
  "ring_ok E (yield_event ev r) \<longleftrightarrow> ring_ok E r"
  "ring_ok E (step_over r) \<longleftrightarrow> ring_ok E r"
  by (simp_all add: ring_ok_def yield_event_def step_over_def)

text \<open>\<open>safely P m\<close>: on a ring with \<open>P\<close>, \<open>m\<close> does not panic and leaves a ring with \<open>P\<close>. For the
  property \<open>at_cap\<close> all accesses to the mapping are safe.\<close>

definition safely :: "(Ring \<Rightarrow> bool) \<Rightarrow> ('w, 'a) ring_io \<Rightarrow> bool" where
  "safely P m \<longleftrightarrow> (\<forall>s r s'. P (fst s) \<longrightarrow> m s = Some (r, s') \<longrightarrow> r \<noteq> Inl Panic \<and> P (fst s'))"

definition at_cap :: "'m ring_abi_scheme \<Rightarrow> u64 \<Rightarrow> Ring \<Rightarrow> bool" where
  "at_cap E c r \<longleftrightarrow> ring_ok E r \<and> r_capacity r = c"

lemma at_cap_upd:
  "at_cap E c (r_readPos_update f r) \<longleftrightarrow> at_cap E c r"
  "at_cap E c (yield_event ev r) \<longleftrightarrow> at_cap E c r"
  "at_cap E c (step_over r) \<longleftrightarrow> at_cap E c r"
  by (simp_all add: at_cap_def ring_ok_upd) (simp_all add: yield_event_def step_over_def)

lemma at_cap_mapped: "at_cap E c r \<Longrightarrow> off < metaTotal E \<Longrightarrow> \<exists>a. mapped r off = Inr a"
  by (auto simp: at_cap_def intro: ring_ok_mapped)

lemma safelyD:
  "safely P m \<Longrightarrow> P (fst s) \<Longrightarrow> m s = Some (r, s') \<Longrightarrow> r \<noteq> Inl Panic \<and> P (fst s')"
  unfolding safely_def by blast

lemma safely_pairD:
  "m (r, w) = Some (x, (r', w')) \<Longrightarrow> safely P m \<Longrightarrow> P r \<Longrightarrow> x \<noteq> Inl Panic \<and> P r'"
  using safelyD [of P m "(r, w)" x "(r', w')"] by simp

lemma safely_basic:
  "safely P (retIO x)" "e \<noteq> Panic \<Longrightarrow> safely P (failIO e)"
  "(\<And>r. P r \<Longrightarrow> P (f r)) \<Longrightarrow> safely P (upd_ring f)"
  by (auto simp: safely_def upd_ring_def)

lemma safely_bind:
  assumes "safely P m" and "\<And>x. safely P (f x)"
  shows "safely P (bindIO m f)"
  unfolding safely_def
proof (intro allI impI)
  fix s r s'
  assume "P (fst s)" and "bindIO m f s = Some (r, s')"
  from this(2) show "r \<noteq> Inl Panic \<and> P (fst s')"
  proof (cases rule: bindIO_SomeD)
    case (1 e)
    then show ?thesis using safelyD [OF assms(1) \<open>P (fst s)\<close>] by blast
  next
    case (2 x s1)
    then show ?thesis using safelyD [OF assms(1) \<open>P (fst s)\<close>] safelyD [OF assms(2)] by blast
  qed
qed

lemma bind_get [simp]: "bindIO get_ring f (r, w) = f r (r, w)"
  by (simp add: bindIO_def get_ring_def)

lemma safely_get:
  assumes "\<And>r. P r \<Longrightarrow> safely P (f r)"
  shows "safely P (bindIO get_ring f)"
  unfolding safely_def
proof (intro allI impI)
  fix s x s'
  assume "P (fst s)" and "bindIO get_ring f s = Some (x, s')"
  then show "x \<noteq> Inl Panic \<and> P (fst s')"
    using safelyD [OF assms, of "fst s" s x s'] by (cases s) auto
qed

lemma safely_load:
  "off < metaTotal E \<Longrightarrow> safely (at_cap E c) (loadU64 M off)" "off < metaTotal E \<Longrightarrow> safely (at_cap E c) (loadU32 M off)"
  by (auto simp: safely_def loadU64_def loadU32_def split: sum.splits prod.splits dest: at_cap_mapped)

lemma safely_wake:
  "metaPage E < metaTotal E \<Longrightarrow> safely (at_cap E c) (setNeedWake M E)"
  "metaPage E < metaTotal E \<Longrightarrow> safely (at_cap E c) (clearNeedWake M E)"
  by (auto simp: safely_def setNeedWake_def clearNeedWake_def store_need_wake_def split: sum.splits dest: at_cap_mapped)

lemma window_bounds:
  fixes x c :: u64
  assumes "0 < unat c" and "unat c < 2 ^ 63"
  shows "unat (x AND (c - 1)) < unat c" and "unat ((x AND (c - 1)) + c) = unat (x AND (c - 1)) + unat c"
proof -
  have "1 \<le> c" using assms(1) by (simp add: word_le_nat_alt)
  then have c: "unat (c - 1) = unat c - 1" by (simp add: unat_sub)
  have "unat (x AND (c - 1)) \<le> unat (c - 1)" using word_and_le1 [of x "c - 1"] by (simp add: word_le_nat_alt)
  with c assms(1) show 1: "unat (x AND (c - 1)) < unat c" by simp
  have "unat (x AND (c - 1)) + unat c < 2 ^ LENGTH(64)" using 1 assms(2) by simp
  then show "unat ((x AND (c - 1)) + c) = unat (x AND (c - 1)) + unat c" by (rule unat_add_lem [THEN iffD1])
qed

lemma safely_parse:
  assumes "ring_abi_ok E"
  shows "safely (at_cap E c) (parse_at M E (x AND (c - 1)))"
  unfolding safely_def
proof (intro allI impI)
  fix s p s'
  assume s: "at_cap E c (fst s)" and run: "parse_at M E (x AND (c - 1)) s = Some (p, s')"
  obtain r w where rw: "s = (r, w)" by fastforce
  obtain a where a: "r_base r = Some (a, metaTotal E + 2 * unat c)"
    using s by (auto simp: rw at_cap_def ring_ok_def)
  have "unat (x AND (c - 1)) < unat c" "unat ((x AND (c - 1)) + c) = unat (x AND (c - 1)) + unat c"
    using window_bounds [of c x] s by (auto simp: rw at_cap_def ring_ok_def)
  moreover obtain f w' where "m_bytes M a w = (f, w')" by fastforce
  moreover have "ParseEvent E b \<noteq> Inl Panic" for b
    using ParseEvent_total [OF ring_abi_okD(1) [OF assms(1)], of b] by auto
  ultimately show "p \<noteq> Inl Panic \<and> at_cap E c (fst s')"
    using run s by (auto simp: rw at_cap_def parse_at_def data_len_def a Let_def split: sum.splits gerr.splits)
qed

lemmas safely_rules = safely_get safely_bind safely_basic safely_load safely_wake safely_parse

lemma next_turn_safely:
  assumes "ring_abi_ok E"
  shows "safely (at_cap E c) (next_turn M E)"
proof -
  note D = ring_abi_okD [OF assms]
  have "r_capacity r = c" if "at_cap E c r" for r using that by (simp add: at_cap_def)
  then show ?thesis
    unfolding next_turn_def
    by (auto intro!: safely_rules assms D simp: at_cap_upd split: sum.splits)
qed

text \<open>What holds before every turn of the loop holds before the last one.\<close>

lemma next_loop_last:
  assumes "next_loop M E s = Some y"
    and step: "\<And>s s'. P s \<Longrightarrow> next_turn M E s = Some (Inr None, s') \<Longrightarrow> P s'"
  shows "P s \<longrightarrow> (\<exists>t. P t \<and> next_turn M E t = Some (map_sum id Some (fst y), snd y))"
proof (rule next_loop.raw_induct [of "\<lambda>M' E' s y. M' = M \<longrightarrow> E' = E \<longrightarrow> P s \<longrightarrow>
    (\<exists>t. P t \<and> next_turn M E t = Some (map_sum id Some (fst y), snd y))", OF _ assms(1), THEN mp, OF _ refl, THEN mp, OF _ refl])
  fix loop M' E' s y
  assume IH: "\<And>M' E' s y. loop M' E' s = Some y \<Longrightarrow> M' = M \<longrightarrow> E' = E \<longrightarrow> P s \<longrightarrow>
      (\<exists>t. P t \<and> next_turn M E t = Some (map_sum id Some (fst y), snd y))"
    and run: "(case next_turn M' E' s of None \<Rightarrow> None | Some (r, s) \<Rightarrow>
      (case r of Inl e \<Rightarrow> Some (Inl e, s) | Inr (Some x) \<Rightarrow> Some (Inr x, s) | Inr None \<Rightarrow> loop M' E' s)) = Some y"
  show "M' = M \<longrightarrow> E' = E \<longrightarrow> P s \<longrightarrow> (\<exists>t. P t \<and> next_turn M E t = Some (map_sum id Some (fst y), snd y))"
  proof (intro impI)
    assume "M' = M" "E' = E" "P s"
    with run consider s1 where "next_turn M E s = Some (Inr None, s1)" "loop M E s1 = Some y"
      | "next_turn M E s = Some (map_sum id Some (fst y), snd y)"
      by (auto split: option.splits sum.splits)
    then show "\<exists>t. P t \<and> next_turn M E t = Some (map_sum id Some (fst y), snd y)"
    proof cases
      case 1
      then show ?thesis using IH [OF 1(2)] step [OF \<open>P s\<close> 1(1)] by simp
    next
      case 2
      with \<open>P s\<close> show ?thesis by blast
    qed
  qed
qed

lemma next_loop_safely:
  assumes "ring_abi_ok E"
  shows "safely (at_cap E c) (next_loop M E)"
  unfolding safely_def
proof (intro allI impI)
  fix s r s'
  assume s: "at_cap E c (fst s)" and run: "next_loop M E s = Some (r, s')"
  note S = safelyD [OF next_turn_safely [OF assms, of c M]]
  obtain t where "at_cap E c (fst t)" "next_turn M E t = Some (map_sum id Some r, s')"
    using next_loop_last [OF run, of "\<lambda>s. at_cap E c (fst s)"] S s by auto
  from S [OF this] show "r \<noteq> Inl Panic \<and> at_cap E c (fst s')" by (cases r) auto
qed

lemma data_len_ok: "at_cap E c r \<Longrightarrow> \<exists>x. data_len E r = Inr x"
  by (auto simp: at_cap_def ring_ok_def data_len_def)

lemma Next_safely:
  assumes "ring_abi_ok E"
  shows "safely (at_cap E c) (Next M E)"
  unfolding Next_def
proof (rule safely_bind)
  show "safely (at_cap E c) (upd_ring step_over)" by (rule safely_basic) (simp add: at_cap_upd)
  fix u :: unit
  show "safely (at_cap E c) (bindIO get_ring (\<lambda>r. case data_len E r of Inl e \<Rightarrow> failIO e | Inr _ \<Rightarrow> next_loop M E))"
  proof (rule safely_get)
    fix r
    assume "at_cap E c r"
    then obtain x where "data_len E r = Inr x" using data_len_ok by blast
    then show "safely (at_cap E c) (case data_len E r of Inl e \<Rightarrow> failIO e | Inr _ \<Rightarrow> next_loop M E)"
      by (simp add: next_loop_safely [OF assms])
  qed
qed

lemma futexWait_safely: "ring_abi_ok E \<Longrightarrow> safely (at_cap E c) (futexWait M E n timeout)"
  by (auto simp: safely_def futexWait_def split: sum.splits prod.splits dest: at_cap_mapped [OF _ ring_abi_okD(7)])

lemma wait_safely:
  assumes "ring_abi_ok E"
  shows "safely (at_cap E c) (ring_wait M E timeout)"
proof -
  note D = ring_abi_okD [OF assms]
  have "safely (at_cap E c) (\<lambda>s. case futexWait M E n timeout s of None \<Rightarrow> None
      | Some (res, s) \<Rightarrow> (case clearNeedWake M E s of None \<Rightarrow> None
        | Some (Inl e, s) \<Rightarrow> Some (Inl e, s) | Some (Inr _, s) \<Rightarrow> Some (res, s)))" for n
    unfolding safely_def
    by (auto split: option.splits sum.splits
        dest!: safely_pairD [OF _ futexWait_safely [OF assms]] safely_pairD [OF _ safely_wake(2) [OF D(8)]])
  then show ?thesis
    unfolding ring_wait_def by (auto intro!: safely_rules D)
qed

lemma Read_safe:
  assumes "ring_abi_ok E" and "Read M E s = Some y"
  shows "at_cap E c (fst s) \<longrightarrow> fst y \<noteq> Inl Panic"
proof (rule Read.raw_induct [of "\<lambda>M' E' s y. E' = E \<longrightarrow> at_cap E c (fst s) \<longrightarrow> fst y \<noteq> Inl Panic",
      OF _ assms(2), THEN mp, OF _ refl])
  fix loop :: "'b ring_kernel \<Rightarrow> 'a ring_abi_scheme \<Rightarrow> Ring \<times> 'b \<Rightarrow> (OwnedEvent result \<times> Ring \<times> 'b) option"
    and M' E' s y
  assume IH: "\<And>M' E' s y. loop M' E' s = Some y \<Longrightarrow> E' = E \<longrightarrow> at_cap E c (fst s) \<longrightarrow> fst y \<noteq> Inl Panic"
    and run: "(case Next M' E' s of None \<Rightarrow> None
      | Some (r, s) \<Rightarrow>
          (case r of Inl e \<Rightarrow> Some (Inl e, s)
           | Inr (Some ev) \<Rightarrow> Some (Inr (ownedFrom ev), s)
           | Inr None \<Rightarrow>
               (case ring_wait M' E' None s of None \<Rightarrow> None
                | Some (r, s) \<Rightarrow> (case r of Inl e \<Rightarrow> Some (Inl e, s) | Inr _ \<Rightarrow> loop M' E' s)))) = Some y"
  show "E' = E \<longrightarrow> at_cap E c (fst s) \<longrightarrow> fst y \<noteq> Inl Panic"
  proof (intro impI)
    assume E: "E' = E" and s: "at_cap E c (fst s)"
    show "fst y \<noteq> Inl Panic"
    proof (cases "Next M' E s")
      case (Some a)
      then obtain r r1 w1 where n: "Next M' E s = Some (r, (r1, w1))" by (metis prod.exhaust)
      have r: "r \<noteq> Inl Panic" "at_cap E c r1" using safelyD [OF Next_safely [OF assms(1)] s n] by auto
      show ?thesis
        using run n r IH [of M' E _ y] unfolding E
        by (auto split: sum.splits option.splits dest!: safely_pairD [OF _ wait_safely [OF assms(1)]])
    qed (use run E in simp)
  qed
qed

text \<open>C21
  The reader stays inside its mapping whatever the producer does to the shared memory, its
  positions and sizes between any two loads: on a ring of the shape \<open>AttachAll\<close> makes,
  \<open>Next\<close>, \<open>Read\<close> and \<open>ReadTimeout\<close> never index or slice out of range.\<close>

theorem ring_reads_safe:
  assumes "ring_abi_ok E" and "ring_ok E r"
  shows "Next M E (r, w) \<noteq> Some (Inl Panic, s) \<and> Read M E (r, w) \<noteq> Some (Inl Panic, s')
    \<and> ReadTimeout M E t (r, w) \<noteq> Some (Inl Panic, s'')"
proof -
  have r: "at_cap E (r_capacity r) (fst (r, w))" using assms(2) by (simp add: at_cap_def)
  have T: "safely (at_cap E c) (ReadTimeout M E t)" for c
    unfolding ReadTimeout_def
  proof (rule safely_bind [OF Next_safely [OF assms(1)]])
    fix x :: "Event option"
    have "safely (at_cap E c) (bindIO (ring_wait M E (Some t)) (\<lambda>_. bindIO (Next M E) (\<lambda>x. retIO (map_option ownedFrom x))))"
      by (rule safely_bind [OF wait_safely [OF assms(1)]], rule safely_bind [OF Next_safely [OF assms(1)]])
        (rule safely_basic(1))
    then show "safely (at_cap E c) (case x of None \<Rightarrow> bindIO (ring_wait M E (Some t)) (\<lambda>_.
        bindIO (Next M E) (\<lambda>x. retIO (map_option ownedFrom x))) | Some ev \<Rightarrow> retIO (Some (ownedFrom ev)))"
      by (cases x) (simp_all add: safely_basic(1))
  qed
  show ?thesis
  proof (intro conjI notI)
    assume "Next M E (r, w) = Some (Inl Panic, s)"
    from safelyD [OF Next_safely [OF assms(1)] r this] show False by simp
  next
    assume "Read M E (r, w) = Some (Inl Panic, s')"
    from Read_safe [OF assms(1) this] r show False by simp
  next
    assume "ReadTimeout M E t (r, w) = Some (Inl Panic, s'')"
    from safelyD [OF T r this] show False by simp
  qed
qed

section \<open>Accounting for lost events\<close>

lemma load_frame:
  "loadU64 M off (r, w) = Some (x, (r', w')) \<Longrightarrow> r' = r"
  "parse_at M E o2 (r, w) = Some (y, (r', w')) \<Longrightarrow> r' = r"
  by (auto simp: loadU64_def parse_at_def Let_def split: sum.splits prod.splits if_splits gerr.splits)

lemma upd_run [simp]: "bindIO (upd_ring f) g (r, w) = g () (f r, w)"
  by (simp add: bindIO_def upd_ring_def)

definition turned :: "Event option option result \<Rightarrow> Ring \<Rightarrow> Ring \<Rightarrow> bool" where
  "turned x r r' \<longleftrightarrow> (case x of Inr None \<Rightarrow> r' = r\<lparr>r_readPos := r_readPos r'\<rparr>
     | Inr (Some (Some ev)) \<Rightarrow> r' = yield_event ev r | _ \<Rightarrow> r' = r)"

lemma next_turn_frame:
  assumes "next_turn M E (r, w) = Some (x, (r', w'))"
  shows "turned x r r'"
  using assms unfolding next_turn_def
  by (auto elim!: bindIO_SomeD dest!: load_frame simp: turned_def get_ring_def split: if_splits sum.splits)

definition counts :: "Ring \<Rightarrow> u64 \<times> u64" where
  "counts r = (r_lastSeq r, r_lostEvents r)"

lemma counts_upd [simp]: "counts (r\<lparr>r_readPos := p\<rparr>) = counts r" "counts (step_over r) = counts r"
  by (simp_all add: counts_def step_over_def)

lemma Next_run:
  "Next M E (r, w) = (case data_len E (step_over r) of Inl e \<Rightarrow> Some (Inl e, (step_over r, w))
     | Inr _ \<Rightarrow> next_loop M E (step_over r, w))"
  by (cases "data_len E (step_over r)") (simp_all add: Next_def)

lemma Next_yields:
  assumes "Next M E (r, w) = Some (Inr (Some ev), (r', w'))"
  shows "\<exists>t. counts t = counts r \<and> r' = yield_event ev t"
proof -
  let ?P = "\<lambda>s. counts (fst s) = counts r"
  have run: "next_loop M E (step_over r, w) = Some (Inr (Some ev), (r', w'))"
    using assms by (simp add: Next_run split: sum.splits)
  have step: "?P s'" if "?P s" "next_turn M E s = Some (Inr None, s')" for s s'
    using next_turn_frame [of M E "fst s" "snd s" "Inr None" "fst s'" "snd s'"] that
    by (simp add: turned_def) (metis counts_upd(1))
  define y where "y = (Inr (Some ev) :: Event option result, (r', w'))"
  have "?P (step_over r, w) \<longrightarrow> (\<exists>t. ?P t \<and> next_turn M E t = Some (map_sum id Some (fst y), snd y))"
    by (rule next_loop_last [OF run [folded y_def]]) (rule step)
  then obtain t where t: "?P t" "next_turn M E t = Some (Inr (Some (Some ev)), (r', w'))"
    by (auto simp: y_def)
  then show ?thesis
    using next_turn_frame [of M E "fst t" "snd t" _ r' w'] by (auto simp: turned_def)
qed

text \<open>A consumer that calls \<open>Next\<close> \<open>n\<close> times and gets an event each time.\<close>

fun nexts :: "'w ring_kernel \<Rightarrow> 'm ring_abi_scheme \<Rightarrow> nat \<Rightarrow> Ring \<times> 'w \<Rightarrow> (Event list \<times> (Ring \<times> 'w)) option" where
  "nexts M E 0 s = Some ([], s)"
| "nexts M E (Suc n) s =
     (case Next M E s of Some (Inr (Some ev), s) \<Rightarrow> map_option (\<lambda>(evs, s). (ev # evs, s)) (nexts M E n s)
      | _ \<Rightarrow> None)"

lemma yield_gap:
  fixes r :: Ring
  assumes "r_lastSeq r \<noteq> 0" and "r_lastSeq r < ev_Sequence ev"
  shows "r_lostEvents (yield_event ev r) = r_lostEvents r + (ev_Sequence ev - r_lastSeq r - 1)"
proof (cases "ev_Sequence ev > r_lastSeq r + 1")
  case False
  with assms(2) have "ev_Sequence ev = r_lastSeq r + 1"
    using inc_le [of "r_lastSeq r" "ev_Sequence ev"] by simp
  then show ?thesis using False by (simp add: yield_event_def)
qed (use assms in \<open>simp add: yield_event_def\<close>)


section \<open>Draining a quiet buffer\<close>

text \<open>A producer that is not running, and a ring that holds the events \<open>evs\<close>, encoded by \<open>bs\<close>,
  from position \<open>pos\<close> on: the data region is a power of two, mapped twice, and position \<open>p\<close>
  is found at \<open>p mod capacity\<close>.\<close>

definition quiet :: "'w ring_kernel \<Rightarrow> 'w \<Rightarrow> bool" where
  "quiet M w \<longleftrightarrow> (\<forall>a off. snd (m_load64 M a off w) = w) \<and> (\<forall>a. snd (m_bytes M a w) = w)"

definition reader_at :: "'m ring_abi_scheme \<Rightarrow> u64 \<Rightarrow> nat \<Rightarrow> nat \<Rightarrow> Ring \<Rightarrow> bool" where
  "reader_at E a k pos r \<longleftrightarrow> k < 63 \<and> r_capacity r = 2 ^ k \<and> r_base r = Some (a, metaTotal E + 2 * 2 ^ k)
     \<and> unat (r_readPos r) + unat (r_pending r) = pos"

definition holds_events :: "'w ring_kernel \<Rightarrow> 'm ring_abi_scheme \<Rightarrow> u64 \<Rightarrow> nat \<Rightarrow> nat \<Rightarrow> Event list \<Rightarrow> bytes list \<Rightarrow> 'w \<Rightarrow> bool" where
  "holds_events M E a k pos evs bs w \<longleftrightarrow> list_all2 (encodes E) evs bs \<and> (\<forall>b \<in> set bs. length b \<le> 2 ^ k)
     \<and> unat (fst (m_load64 M a (pTailPos E) w)) \<le> pos
     \<and> unat (fst (m_load64 M a (pWritePos E) w)) = pos + length (concat bs)
     \<and> (\<forall>i < 2 ^ k. fst (m_bytes M a w) (metaTotal E + 2 ^ k + i) = fst (m_bytes M a w) (metaTotal E + i))
     \<and> (\<forall>i < length (concat bs). fst (m_bytes M a w) (metaTotal E + (pos + i) mod 2 ^ k) = concat bs ! i)"

lemma quiet_load:
  assumes "quiet M w" and "r_base r = Some (a, n)" and "off < n"
  shows "loadU64 M off (r, w) = Some (Inr (fst (m_load64 M a off w)), (r, w))"
  using assms by (auto simp: loadU64_def mapped_def quiet_def split: prod.split) (metis snd_conv)

lemma unat_u64_bound: "unat (x :: u64) < 2 ^ 64"
  using unsigned_less [of x] by simp

lemma unat_u32_bound: "unat (x :: u32) < 2 ^ 64"
  using unsigned_less [of x, where 'a = nat] by simp

lemma step_over_generation [simp]: "r_generation (step_over r) = r_generation r"
  by (simp add: step_over_def)

lemma unat_and_mask:
  fixes x :: u64
  assumes "k < 63"
  shows "unat (x AND (2 ^ k - 1)) = unat x mod 2 ^ k"
proof -
  have "x AND (2 ^ k - 1) = take_bit k x" by (simp add: take_bit_eq_mask mask_eq_exp_minus_1)
  then have "unat (x AND (2 ^ k - 1)) = take_bit k (unat x)" by (simp only: unsigned_take_bit_eq)
  then show ?thesis by (simp only: take_bit_eq_mod)
qed

lemma unat_pow:
  assumes "k < 63"
  shows "unat (2 ^ k :: u64) = 2 ^ k"
proof -
  have "unat (of_nat (2 ^ k) :: u64) = 2 ^ k" using assms by (subst unsigned_of_nat) simp
  then show ?thesis by simp
qed

lemma window_prefix:
  fixes f :: "nat \<Rightarrow> u8"
  assumes "\<And>i. i < N \<Longrightarrow> f (m + N + i) = f (m + i)" and "length b \<le> N" and "0 < N"
    and "\<And>i. i < length b \<Longrightarrow> f (m + (pos + i) mod N) = b ! i"
  shows "take (length b) (map f [m + pos mod N ..< m + (pos mod N + N)]) = b"
proof (rule nth_equalityI)
  define q where "q = pos mod N"
  have q: "q < N" using assms(3) by (simp add: q_def)
  show "length (take (length b) (map f [m + pos mod N ..< m + (pos mod N + N)])) = length b" using assms(2) by simp
  fix i
  assume "i < length (take (length b) (map f [m + pos mod N ..< m + (pos mod N + N)]))"
  then have i: "i < length b" by simp
  have m: "(pos + i) mod N = (q + i) mod N" unfolding q_def by (rule mod_add_left_eq [symmetric])
  have "f (m + (q + i)) = f (m + (pos + i) mod N)"
  proof (cases "q + i < N")
    case True
    then show ?thesis by (simp only: m mod_less)
  next
    case False
    then have l: "q + i - N < N" using i q assms(2) by linarith
    have "(q + i) mod N = q + i - N" using False l by (metis le_mod_geq mod_less not_less)
    moreover have "m + N + (q + i - N) = m + (q + i)" using False by simp
    ultimately show ?thesis using assms(1) [OF l] by (simp only: m)
  qed
  then have "f (m + q + i) = b ! i" using assms(4) [OF i] by (simp only: add.assoc)
  moreover have "take (length b) (map f [m + q ..< m + (q + N)]) ! i = f (m + q + i)" using i assms(2) by simp
  ultimately show "take (length b) (map f [m + pos mod N ..< m + (pos mod N + N)]) ! i = b ! i"
    unfolding q_def by simp
qed

lemma reader_at_step:
  assumes "reader_at E a k pos r" and "pos < 2 ^ 64"
  shows "reader_at E a k pos (step_over r)" and "unat (r_readPos (step_over r)) = pos"
proof -
  have "unat (r_readPos r + r_pending r) = pos" if "r_pending r \<noteq> 0"
    using assms unat_add_lem [of "r_readPos r" "r_pending r"] by (simp add: reader_at_def)
  then show "unat (r_readPos (step_over r)) = pos" using assms by (auto simp: step_over_def reader_at_def)
  then show "reader_at E a k pos (step_over r)" using assms by (auto simp: step_over_def reader_at_def split: if_splits)
qed

lemma quiet_parse:
  assumes "ring_abi_ok E" and "quiet M w" and "holds_events M E a k pos (ev # evs) (b # bs) w"
    and "reader_at E a k pos r" and "unat (r_readPos r) = pos"
  shows "parse_at M E (r_readPos r AND (r_capacity r - 1)) (r, w) = Some (Inr (Inr ev), (r, w))"
proof -
  let ?f = "fst (m_bytes M a w)" and ?N = "2 ^ k :: nat"
  let ?off = "r_readPos r AND (r_capacity r - 1)" and ?buf = "map ?f [metaTotal E + pos mod ?N ..< metaTotal E + (pos mod ?N + ?N)]"
  have k: "k < 63" "r_capacity r = 2 ^ k" "r_base r = Some (a, metaTotal E + 2 * ?N)"
    using assms(4) by (simp_all add: reader_at_def)
  have h: "encodes E ev b" "length b \<le> ?N" "\<And>i. i < ?N \<Longrightarrow> ?f (metaTotal E + ?N + i) = ?f (metaTotal E + i)"
      "\<And>i. i < length b \<Longrightarrow> ?f (metaTotal E + (pos + i) mod ?N) = b ! i"
    using assms(3) by (auto simp: holds_events_def nth_append)
  have "take (length b) ?buf = b" by (rule window_prefix [OF h(3) h(2) _ h(4)]) simp_all
  moreover have n: "unat (ev_EventSize ev) = length b" using h(1) by (simp add: encodes_def)
  ultimately have p: "ParseEvent E ?buf = Inr ev"
    using ParseEvent_accepts [OF ring_abi_okD(1) [OF assms(1)], of ?buf ev] h(1,2) by simp
  have off: "unat ?off = pos mod ?N" using unat_and_mask [OF k(1), of "r_readPos r"] by (simp add: k(2) assms(5))
  have "(2 :: nat) ^ k < 2 ^ 63" using k(1) by (rule power_strict_increasing) simp
  then have "unat (?off + r_capacity r) = pos mod ?N + ?N"
    using window_bounds(2) [of "2 ^ k" "r_readPos r"] off unat_pow [OF k(1)] by (simp add: k(2))
  then show ?thesis
    using p off k(3) assms(2) mod_less_divisor [of ?N pos]
    by (auto simp: parse_at_def data_len_def Let_def quiet_def split: prod.split) (metis snd_conv)
qed

lemma Next_first:
  assumes "ring_abi_ok E" and "quiet M w" and "holds_events M E a k pos (ev # evs) (b # bs) w"
    and "reader_at E a k pos r"
  shows "Next M E (r, w) = Some (Inr (Some ev), (yield_event ev (step_over r), w))"
    and "holds_events M E a k (pos + length b) evs bs w"
    and "reader_at E a k (pos + length b) (yield_event ev (step_over r))"
proof -
  let ?r = "step_over r"
  have h: "encodes E ev b" "unat (fst (m_load64 M a (pTailPos E) w)) \<le> pos"
      "unat (fst (m_load64 M a (pWritePos E) w)) = pos + (length b + length (concat bs))"
    using assms(3) by (simp_all add: holds_events_def)
  have "pos < 2 ^ 64" using h(3) unat_u64_bound [of "fst (m_load64 M a (pWritePos E) w)"] by simp
  note r = reader_at_step [OF assms(4) this]
  have n: "unat (ev_EventSize ev) = length b" "0 < length b"
    using h(1) event_abi_okD(1) [OF ring_abi_okD(1) [OF assms(1)]] by (auto simp: encodes_def)
  note D = ring_abi_okD [OF assms(1)]
  have base: "r_base ?r = Some (a, metaTotal E + 2 * 2 ^ k)" using r(1) by (simp add: reader_at_def)
  have L: "loadU64 M off (?r, w) = Some (Inr (fst (m_load64 M a off w)), (?r, w))" if "off < metaTotal E" for off
    using that by (intro quiet_load [OF assms(2) base]) simp
  have T: "next_turn M E (?r, w) = Some (Inr (Some (Some ev)), (yield_event ev ?r, w))"
    using h(2,3) n(2) r(2)
    by (simp add: next_turn_def L [OF D(5)] L [OF D(6)] quiet_parse [OF assms(1,2,3) r] word_le_nat_alt
        word_less_nat_alt)
  then show "Next M E (r, w) = Some (Inr (Some ev), (yield_event ev ?r, w))"
    by (simp add: Next_run data_len_def base next_loop.simps)
  show "reader_at E a k (pos + length b) (yield_event ev ?r)"
    using r n(1) unat_u32_bound [of "ev_EventSize ev"]
    by (simp add: reader_at_def yield_event_def unsigned_ucast_eq take_bit_nat_eq_self)
  show "holds_events M E a k (pos + length b) evs bs w"
    using assms(3) by (auto simp: holds_events_def nth_append add.assoc)
qed

lemma Next_drained:
  assumes "ring_abi_ok E" and "quiet M w" and "holds_events M E a k pos [] [] w" and "reader_at E a k pos r"
    and "fst (m_load64 M a (pGeneration E) w) = r_generation r"
  shows "Next M E (r, w) = Some (Inr None, (step_over r, w))"
proof -
  let ?r = "step_over r"
  have h: "unat (fst (m_load64 M a (pWritePos E) w)) = pos" using assms(3) by (simp add: holds_events_def)
  then have "pos < 2 ^ 64" using unat_u64_bound [of "fst (m_load64 M a (pWritePos E) w)"] by simp
  note r = reader_at_step [OF assms(4) this] and D = ring_abi_okD [OF assms(1)]
  have base: "r_base ?r = Some (a, metaTotal E + 2 * 2 ^ k)" using r(1) by (simp add: reader_at_def)
  have L: "loadU64 M off (?r, w) = Some (Inr (fst (m_load64 M a off w)), (?r, w))" if "off < metaTotal E" for off
    using that by (intro quiet_load [OF assms(2) base]) simp
  have "next_turn M E (?r, w) = Some (Inr (Some None), (?r, w))"
    using h r(2) assms(5)
    by (simp add: next_turn_def L [OF D(5)] L [OF D(4)] word_le_nat_alt)
  then show ?thesis by (simp add: Next_run data_len_def base next_loop.simps)
qed

lemma nexts_all:
  assumes "ring_abi_ok E" and "quiet M w"
  shows "holds_events M E a k pos evs bs w \<Longrightarrow> reader_at E a k pos r \<Longrightarrow>
    fst (m_load64 M a (pGeneration E) w) = r_generation r \<Longrightarrow>
    \<exists>r'. nexts M E (length evs) (r, w) = Some (evs, (r', w)) \<and> Next M E (r', w) = Some (Inr None, (step_over r', w))"
proof (induction evs arbitrary: pos bs r)
  case Nil
  then have "bs = []" by (simp add: holds_events_def)
  with Nil Next_drained [OF assms] show ?case by simp
next
  case (Cons ev evs)
  then obtain b bs' where bs: "bs = b # bs'" by (auto simp: holds_events_def list_all2_Cons1)
  note first = Next_first [OF assms Cons.prems(1) [unfolded bs] Cons.prems(2)]
  have "r_generation (yield_event ev (step_over r)) = r_generation r" by (simp add: yield_event_def)
  with Cons.IH [OF first(2,3)] first(1) Cons.prems(3) show ?case by auto
qed

text \<open>C4
  Draining a buffer whose producer is quiet refines reading a list: when the ring holds the
  encodings of \<open>evs\<close> from the read position on, wherever they wrap around, the next calls of
  \<open>Next\<close> return exactly \<open>evs\<close>, in order, the call after them reports an empty buffer, and
  \<open>Read\<close> returns a copy of the first event without waiting.\<close>

theorem ring_drained:
  assumes "ring_abi_ok E" and "quiet M w" and "holds_events M E a k pos evs bs w" and "reader_at E a k pos r"
    and "fst (m_load64 M a (pGeneration E) w) = r_generation r"
  shows "(\<exists>r'. nexts M E (length evs) (r, w) = Some (evs, (r', w)) \<and> Next M E (r', w) = Some (Inr None, (step_over r', w)))
    \<and> (evs \<noteq> [] \<longrightarrow> (\<exists>r'. Read M E (r, w) = Some (Inr (ownedFrom (hd evs)), (r', w))))"
proof (intro conjI impI)
  assume "evs \<noteq> []"
  with assms(3) obtain ev rest b bs' where "evs = ev # rest" "bs = b # bs'"
    by (cases evs) (auto simp: holds_events_def list_all2_Cons1)
  with Next_first(1) [OF assms(1,2) _ assms(4), of ev rest b bs'] assms(3)
  show "\<exists>r'. Read M E (r, w) = Some (Inr (ownedFrom (hd evs)), (r', w))" by (simp add: Read.simps)
qed (rule nexts_all [OF assms])

section \<open>Attaching leaks nothing\<close>

text \<open>The descriptors and mappings a process holds, as the kernel's calls change them: an
  attach that succeeds opens a descriptor and reports a positive capacity below \<open>2 ^ 61\<close>,
  \<open>mmap\<close> adds a mapping, \<open>munmap\<close> and \<open>close\<close> give one back, and memory accesses change none.\<close>

type_synonym resources = "int multiset \<times> u64 multiset"

definition opened :: "u64 \<Rightarrow> int \<Rightarrow> resources \<Rightarrow> resources" where
  "opened e fd R = (if e = 0 then (add_mset fd (fst R), snd R) else R)"

definition mapped_in :: "u64 \<Rightarrow> u64 \<Rightarrow> resources \<Rightarrow> resources" where
  "mapped_in e a R = (if e = 0 then (fst R, add_mset a (snd R)) else R)"

definition tracked :: "'w ring_kernel \<Rightarrow> ('w \<Rightarrow> resources) \<Rightarrow> bool" where
  "tracked M res \<longleftrightarrow>
     (\<forall>c x w r e x' w'. m_attach M c (x, w) = ((r, e), (x', w')) \<longrightarrow>
        res w' = opened e (sint r) (res w)) \<and>
     (\<forall>c x w r x' w'. m_attach M c (x, w) = ((r, 0), (x', w')) \<longrightarrow> 0 < unat x' \<and> unat x' < 2 ^ 61) \<and>
     (\<forall>fd n w a e w'. m_mmap M fd n w = ((a, e), w') \<longrightarrow>
        res w' = mapped_in e a (res w)) \<and>
     (\<forall>a w. res (snd (m_munmap M a w)) = (fst (res w), snd (res w) - {#a#})) \<and>
     (\<forall>fd w. res (snd (m_close M fd w)) = (fst (res w) - {#fd#}, snd (res w))) \<and>
     (\<forall>a off w. res (snd (m_load64 M a off w)) = res w) \<and> (\<forall>a off w. res (snd (m_load32 M a off w)) = res w) \<and>
     (\<forall>a w. res (snd (m_bytes M a w)) = res w)"

lemma trackedD:
  assumes "tracked M res"
  shows "m_attach M c (x, w) = ((r, e), (x', w')) \<Longrightarrow>
      res w' = opened e (sint r) (res w)"
    and "m_attach M c (x, w) = ((r, 0), (x', w')) \<Longrightarrow> 0 < unat x' \<and> unat x' < 2 ^ 61"
    and "m_mmap M fd n w = ((a, e), w') \<Longrightarrow>
      res w' = mapped_in e a (res w)"
    and "res (snd (m_munmap M a w)) = (fst (res w), snd (res w) - {#a#})"
    and "res (snd (m_close M fd w)) = (fst (res w) - {#fd#}, snd (res w))"
    and "res (snd (m_load64 M a off w)) = res w" and "res (snd (m_load32 M a off w)) = res w"
    and "res (snd (m_bytes M a w)) = res w"
  using assms unfolding tracked_def by (elim conjE, metis)+

lemma attach_interrupted:
  assumes "tracked M res"
  shows "interrupted (m_attach M c) n s s' \<Longrightarrow> res (snd s') = res (snd s)"
proof (induction rule: interrupted.induct)
  case (interrupted_Suc s r s1 n s2)
  then show ?case
    using trackedD(1) [OF assms, of c "fst s" "snd s" r syscall_EINTR "fst s1" "snd s1"] by (simp add: opened_def)
qed simp

lemma attach_tracked:
  assumes "tracked M res" and "attach M c w = Some (r, w')"
  shows "case r of Inl e \<Rightarrow> e \<noteq> Panic \<and> res w' = res w
    | Inr (fd, cap) \<Rightarrow> res w' = (add_mset fd (fst (res w)), snd (res w)) \<and> 0 < unat cap \<and> unat cap < 2 ^ 61"
proof -
  obtain x err cap where run: "Retry (m_attach M c) (0, w) = Some ((x, err), (cap, w'))"
      and r: "r = (case err of None \<Rightarrow> Inr (sint x, cap) | Some e \<Rightarrow> Inl e)"
    using assms(2) by (auto simp: attach_def split: option.splits prod.splits)
  from Retry_SomeD [OF run] obtain n t e where t: "interrupted (m_attach M c) n (0, w) t" "m_attach M c t = ((x, e), (cap, w'))"
      "err = (if e = 0 then None else Some (Errno (ucast e)))" by auto
  obtain y w1 where y: "t = (y, w1)" by fastforce
  have "res w1 = res w" using attach_interrupted [OF assms(1) t(1)] y by simp
  with trackedD(1) [OF assms(1) t(2) [unfolded y]] trackedD(2) [OF assms(1), of c y w1 x cap w'] t(2,3) y r
  show ?thesis by (cases "e = 0") (auto simp: opened_def)
qed

definition ring_addr :: "Ring \<Rightarrow> u64" where
  "ring_addr r = (case r_base r of None \<Rightarrow> 0 | Some (a, n) \<Rightarrow> a)"

lemma release_tracked:
  "tracked M res \<Longrightarrow> res (release M a fd w) = (fst (res w) - {#fd#}, snd (res w) - {#a#})"
  by (simp add: release_def trackedD(4,5) [of M res])

lemma map_len_eq:
  assumes "ring_abi_ok E" and "unat cap < 2 ^ 61"
  shows "map_len E cap = int (metaTotal E + 2 * unat cap)"
proof -
  let ?n = "metaTotal E + 2 * unat cap"
  have n: "?n < 2 ^ 63" using assms(2) ring_abi_okD(10) [OF assms(1)] by simp
  have "of_nat (metaTotal E) + 2 * cap = (of_nat ?n :: u64)" by simp
  then have "map_len E cap = sint (of_nat ?n :: u64)" unfolding map_len_def by (simp only:)
  also have "\<dots> = signed_take_bit 63 (int ?n)" by (subst signed_of_nat) simp
  also have "\<dots> = int ?n" using n by (intro signed_take_bit_int_eq_self) (auto simp del: of_nat_add)
  finally show ?thesis .
qed

lemma Mmap_nat:
  "0 < N \<Longrightarrow> m_mmap M fd N w = ((a, e), w1) \<Longrightarrow>
   Mmap M fd (int N) w = (if e = 0 then Inr (a, N) else Inl (Errno (ucast e)), w1)"
  by (simp add: Mmap_def)

lemma load_tracked:
  assumes "tracked M res" and "r_base r = Some (a, n)" and "off < n"
  shows "\<exists>v w'. loadU64 M off (r, w) = Some (Inr v, (r, w')) \<and> res w' = res w"
    and "\<exists>v w'. loadU32 M off (r, w) = Some (Inr v, (r, w')) \<and> res w' = res w"
  using assms trackedD(6,7) [OF assms(1), of a off w]
  by (auto simp: loadU64_def loadU32_def mapped_def split: prod.split)

lemma mapRing_tracked:
  assumes "tracked M res" and "ring_abi_ok E" and "0 < unat cap" and "unat cap < 2 ^ 61"
    and "mapRing M E fd cap w = Some (x, w')"
  shows "case x of Inl e \<Rightarrow> e \<noteq> Panic \<and> res w' = (fst (res w) - {#fd#}, snd (res w))
    | Inr r \<Rightarrow> r_fd r = fd \<and> ring_ok E r \<and> res w' = (fst (res w), add_mset (ring_addr r) (snd (res w)))"
proof -
  note D = ring_abi_okD [OF assms(2)]
  let ?n = "metaTotal E + 2 * unat cap"
  have len: "map_len E cap = int ?n" by (rule map_len_eq [OF assms(2,4)])
  obtain a e w1 where m: "m_mmap M fd ?n w = ((a, e), w1)" by (metis prod.exhaust)
  note R1 = trackedD(3) [OF assms(1) m]
  have mm: "Mmap M fd (map_len E cap) w = (if e = 0 then Inr (a, ?n) else Inl (Errno (ucast e)), w1)"
    unfolding len by (rule Mmap_nat [OF _ m]) (use D(9) in simp)
  show ?thesis
  proof (cases "e = 0")
    case False
    with assms(5) mm have "x = Inl (Wrap ''libp/event: map ring buffer: '' (Errno (ucast e)))" "w' = snd (m_close M fd w1)"
      by (auto simp: mapRing_def)
    with False R1 show ?thesis by (simp add: trackedD(5) [OF assms(1)] mapped_in_def)
  next
    case True
    obtain f w2 where f: "m_bytes M a w1 = (f, w2)" by fastforce
    have R2: "res w2 = (fst (res w), add_mset a (snd (res w)))"
      using trackedD(8) [OF assms(1), of a w1] f R1 True by (simp add: mapped_in_def)
    let ?r = "\<lparr>r_fd = fd, r_base = Some (a, ?n), r_capacity = cap, r_cpuID = 0, r_generation = 0,
      r_readPos = 0, r_pending = 0, r_lastSeq = 0, r_lostEvents = 0\<rparr>"
    have base: "r_base ?r = Some (a, ?n)" by simp
    have lt: "off < metaTotal E \<Longrightarrow> off < ?n" for off by simp
    show ?thesis
    proof (cases "map f [0 ..< 8] = RING_MAGIC E")
      case False
      with assms(5) mm True D(9) f have "x = Inl ErrBadMagic" "w' = release M a fd w2"
        by (auto simp: mapRing_def Let_def)
      then show ?thesis by (simp add: release_tracked [OF assms(1)] R2)
    next
      case magic: True
      obtain v w3 where v: "loadU32 M (pVersion E) (?r, w2) = Some (Inr v, (?r, w3))" "res w3 = res w2"
        using load_tracked(2) [OF assms(1) base lt [OF D(2)]] by blast
      obtain c w4 where c: "loadU32 M (pCPUID E) (?r, w3) = Some (Inr c, (?r, w4))" "res w4 = res w3"
        using load_tracked(2) [OF assms(1) base lt [OF D(3)]] by blast
      obtain g w5 where g: "loadU64 M (pGeneration E) (?r, w4) = Some (Inr g, (?r, w5))" "res w5 = res w4"
        using load_tracked(1) [OF assms(1) base lt [OF D(4)]] by blast
      obtain tp w6 where tp: "loadU64 M (pTailPos E) (?r, w5) = Some (Inr tp, (?r, w6))" "res w6 = res w5"
        using load_tracked(1) [OF assms(1) base lt [OF D(6)]] by blast
      have "mapRing M E fd cap w = (if v \<noteq> ringVersion E
          then Some (Inl (Errorf ''libp/event: ring buffer version''), release M a fd w3)
          else Some (Inr (?r\<lparr>r_cpuID := ucast c, r_generation := g, r_readPos := tp\<rparr>), w6))"
        using mm True D(9) f magic v(1) c(1) g(1) tp(1) by (simp add: mapRing_def Let_def)
      then show ?thesis
        using assms(3,4,5) v(2) c(2) g(2) tp(2) R2
        by (auto simp: release_tracked [OF assms(1)] ring_ok_def ring_addr_def split: if_splits)
    qed
  qed
qed

lemma close_all_tracked:
  assumes "tracked M res"
  shows "(\<forall>r \<in> set rs. r_base r \<noteq> None) \<Longrightarrow>
    res (close_all M rs w) = (fst (res w) - mset (map r_fd rs), snd (res w) - mset (map ring_addr rs))"
proof (induction rs arbitrary: w)
  case (Cons r rs)
  obtain a n where a: "r_base r = Some (a, n)" using Cons.prems by fastforce
  obtain e1 w1 where m: "m_munmap M a w = (e1, w1)" by fastforce
  obtain e2 w2 where c: "m_close M (r_fd r) w1 = (e2, w2)" by fastforce
  have "res w2 = (fst (res w) - {#r_fd r#}, snd (res w) - {#a#})"
    using trackedD(4) [OF assms, of a w] trackedD(5) [OF assms, of "r_fd r" w1] m c by simp
  then show ?case
    using Cons by (auto simp: ring_addr_def a m c Ring_Close_def)
qed simp

definition attached :: "'m ring_abi_scheme \<Rightarrow> resources \<Rightarrow> Ring list \<Rightarrow> resources \<Rightarrow> bool" where
  "attached E R rings R' \<longleftrightarrow> (\<forall>r \<in> set rings. ring_ok E r)
     \<and> R' = (fst R + mset (map r_fd rings), snd R + mset (map ring_addr rings))"

lemma attach_loop_tracked:
  assumes "tracked M res" and "ring_abi_ok E" and "attach_loop M E c rings w = Some y"
  shows "attached E R rings (res w) \<longrightarrow>
    (case fst y of Inl e \<Rightarrow> e \<noteq> Panic \<and> res (snd y) = R | Inr rs \<Rightarrow> attached E R rs (res (snd y)))"
proof (rule attach_loop.raw_induct [of "\<lambda>M' E' c rings w y. M' = M \<longrightarrow> E' = E \<longrightarrow> attached E R rings (res w) \<longrightarrow>
    (case fst y of Inl e \<Rightarrow> e \<noteq> Panic \<and> res (snd y) = R | Inr rs \<Rightarrow> attached E R rs (res (snd y)))",
    OF _ assms(3), THEN mp, OF _ refl, THEN mp, OF _ refl])
  fix loop M' E' c rings w y
  assume IH: "\<And>M' E' c rings w y. loop M' E' c rings w = Some y \<Longrightarrow> M' = M \<longrightarrow> E' = E \<longrightarrow> attached E R rings (res w) \<longrightarrow>
      (case fst y of Inl e \<Rightarrow> e \<noteq> Panic \<and> res (snd y) = R | Inr rs \<Rightarrow> attached E R rs (res (snd y)))"
    and run: "(case attach M' c w of None \<Rightarrow> None
      | Some (r, w) \<Rightarrow>
          (case r of
             Inl e \<Rightarrow>
               if errors_is e EINVAL then Some (Inr rings, w)
               else Some (Inl (Wrap ''libp/event: attach cpu: '' e), close_all M' rings w)
           | Inr (fd, capacity) \<Rightarrow>
               (case mapRing M' E' fd capacity w of None \<Rightarrow> None
                | Some (r, w) \<Rightarrow>
                    (case r of
                       Inl e \<Rightarrow> Some (Inl e, if e = Panic then w else close_all M' rings w)
                     | Inr ring \<Rightarrow> loop M' E' (c + 1) (rings @ [ring]) w)))) = Some y"
  show "M' = M \<longrightarrow> E' = E \<longrightarrow> attached E R rings (res w) \<longrightarrow>
      (case fst y of Inl e \<Rightarrow> e \<noteq> Panic \<and> res (snd y) = R | Inr rs \<Rightarrow> attached E R rs (res (snd y)))"
  proof (intro impI)
    assume ME: "M' = M" "E' = E" and R: "attached E R rings (res w)"
    have base: "\<forall>r \<in> set rings. r_base r \<noteq> None" using R by (auto simp: attached_def ring_ok_def)
    obtain r w1 where r: "attach M c w = Some (r, w1)" using run ME by (cases "attach M c w") auto
    note A = attach_tracked [OF assms(1) r]
    show "case fst y of Inl e \<Rightarrow> e \<noteq> Panic \<and> res (snd y) = R | Inr rs \<Rightarrow> attached E R rs (res (snd y))"
    proof (cases r)
      case (Inl e)
      with A have w1: "res w1 = res w" by simp
      have "y = (Inr rings, w1) \<or> y = (Inl (Wrap ''libp/event: attach cpu: '' e), close_all M rings w1)"
        using run ME r Inl by (auto split: if_splits)
      then show ?thesis
        using R w1 close_all_tracked [OF assms(1) base, of w1] by (auto simp: attached_def)
    next
      case (Inr p)
      then obtain fd cap where p: "r = Inr (fd, cap)" by (cases p) auto
      with A have w1: "res w1 = (add_mset fd (fst (res w)), snd (res w))" and cap: "0 < unat cap" "unat cap < 2 ^ 61" by auto
      obtain x w2 where m: "mapRing M E fd cap w1 = Some (x, w2)"
        using run ME r p by (cases "mapRing M E fd cap w1") auto
      note B = mapRing_tracked [OF assms(1,2) cap m]
      show ?thesis
      proof (cases x)
        case (Inl e)
        with B have "e \<noteq> Panic" "res w2 = res w" using w1 by auto
        moreover have "y = (Inl e, close_all M rings w2)" using run ME r p m Inl \<open>e \<noteq> Panic\<close> by auto
        ultimately show ?thesis
          using R close_all_tracked [OF assms(1) base, of w2] by (auto simp: attached_def)
      next
        case (Inr ring)
        with B R w1 have "attached E R (rings @ [ring]) (res w2)" by (auto simp: attached_def)
        moreover have "loop M E (c + 1) (rings @ [ring]) w2 = Some y" using run ME r p m Inr by auto
        ultimately show ?thesis using IH by blast
      qed
    qed
  qed
qed

text \<open>C12
  Attaching to all rings is all or nothing in the process's resources: when \<open>AttachAll\<close>
  returns an error, at whatever CPU and for whatever reason, every descriptor and mapping it
  made is given back and it has not crashed; when it succeeds, it holds exactly one
  descriptor and one mapping per ring, and every ring has the shape the readers rely on.\<close>

theorem AttachAll_resources:
  assumes "tracked M res" and "ring_abi_ok E" and "AttachAll M E w = Some (x, w')"
  shows "case x of Inl e \<Rightarrow> e \<noteq> Panic \<and> res w' = res w
    | Inr rings \<Rightarrow> rings \<noteq> [] \<and> attached E (res w) rings (res w')"
proof -
  obtain z w1 where y: "attach_loop M E 0 [] w = Some (z, w1)"
    using assms(3) by (cases "attach_loop M E 0 [] w") (auto simp: AttachAll_def)
  have "attached E (res w) [] (res w)" by (simp add: attached_def)
  with attach_loop_tracked [OF assms(1,2) y, of "res w"]
  have z: "case z of Inl e \<Rightarrow> e \<noteq> Panic \<and> res w1 = res w | Inr rs \<Rightarrow> attached E (res w) rs (res w1)"
    by (simp split: sum.splits)
  show ?thesis
  proof (cases z)
    case (Inl e)
    then show ?thesis using assms(3) y z by (auto simp: AttachAll_def)
  next
    case (Inr rs)
    then show ?thesis using assms(3) y z by (cases "rs = []") (auto simp: AttachAll_def attached_def)
  qed
qed

section \<open>A concrete ring\<close>

text \<open>A buffer of 128 bytes that holds one event from position 100 on, so that it wraps around,
  and a kernel with one CPU that maps it.\<close>

definition sample_ring_abi :: ring_abi where
  "sample_ring_abi = event_abi.extend sample_event_abi (ring_abi.fields 64 48 8 12 16 24 32 40 1 (bytes_of ''KMESRING''))"

definition sample_mem :: "nat \<Rightarrow> u8" where
  "sample_mem n = (if n < 8 then bytes_of ''KMESRING'' ! n else if n < 64 then 0
     else let i = (n - 64 + 28) mod 128 in if i < 82 then sample_event_bytes ! i else 0)"

definition sample_ring_kernel :: "(int list \<times> u64 list) ring_kernel" where
  "sample_ring_kernel = \<lparr>
     m_load64 = \<lambda>_ off w. (if off = 16 then 1 else if off = 24 then 182 else 100, w),
     m_load32 = \<lambda>_ off w. (if off = 8 then 1 else 0, w),
     m_bytes = \<lambda>_ w. (sample_mem, w),
     m_store32 = \<lambda>_ _ _ w. w,
     m_futex = \<lambda>_ _ _ _ w. (4, w),
     m_attach = \<lambda>c (x, w). if c = 0 then ((5, 0), (128, (5 # fst w, snd w))) else ((0, 22), (x, w)),
     m_mmap = \<lambda>_ _ w. ((7, 0), (fst w, 7 # snd w)),
     m_munmap = \<lambda>a w. (0, (fst w, remove1 a (snd w))),
     m_close = \<lambda>fd w. (0, (remove1 fd (fst w), snd w))\<rparr>"

definition sample_ring :: Ring where
  "sample_ring = \<lparr>r_fd = 5, r_base = Some (7, 320), r_capacity = 128, r_cpuID = 0, r_generation = 1,
     r_readPos = 90, r_pending = 10, r_lastSeq = 5, r_lostEvents = 0\<rparr>"

lemma sample_ring_fields [simp]:
  "metaTotal sample_ring_abi = 64" "pWritePos sample_ring_abi = 24" "pTailPos sample_ring_abi = 32"
  "pGeneration sample_ring_abi = 16" "pVersion sample_ring_abi = 8" "pCPUID sample_ring_abi = 12"
  "pFutex sample_ring_abi = 40" "metaPage sample_ring_abi = 48" "event_abi_ok sample_ring_abi"
  by code_simp+

lemma sample_ring_abi_ok: "ring_abi_ok sample_ring_abi"
  by (simp add: ring_abi_ok_def)

lemma sample_ring_ok: "ring_ok sample_ring_abi sample_ring"
  by (simp add: ring_ok_def sample_ring_def)

lemma sample_quiet: "quiet sample_ring_kernel w"
  by (simp add: quiet_def sample_ring_kernel_def)

lemma sample_tracked: "tracked sample_ring_kernel (\<lambda>w. (mset (fst w), mset (snd w)))"
  by (auto simp: tracked_def sample_ring_kernel_def opened_def mapped_in_def split: if_splits)

theorem ring_reads_safe_witness:
  "ring_abi_ok sample_ring_abi \<and> ring_ok sample_ring_abi sample_ring \<and>
   Next sample_ring_kernel sample_ring_abi (sample_ring, ([], [])) \<noteq> Some (Inl Panic, (sample_ring, ([], [])))"
  using ring_reads_safe [OF sample_ring_abi_ok sample_ring_ok, of sample_ring_kernel "([], [])"]
    sample_ring_abi_ok sample_ring_ok by blast

lemma sample_holds:
  "holds_events sample_ring_kernel sample_ring_abi 7 7 100 [sample_event] [sample_event_bytes] w"
proof -
  have p: "ParseEvent sample_ring_abi sample_event_bytes = Inr sample_event" by code_simp
  have n: "unat (ev_EventSize sample_event) = 82" "length sample_event_bytes = 82" by code_simp+
  have "encodes sample_ring_abi sample_event sample_event_bytes"
    using ParseEvent_accepts [OF ring_abi_okD(1) [OF sample_ring_abi_ok]] p n by (metis take_all order_refl)
  moreover have "list_all (\<lambda>i. sample_mem (64 + 128 + i) = sample_mem (64 + i)) [0 ..< 128]"
      "list_all (\<lambda>i. sample_mem (64 + (100 + i) mod 128) = sample_event_bytes ! i) [0 ..< 82]" by code_simp+
  ultimately show ?thesis
    by (simp add: holds_events_def sample_ring_kernel_def n(2) list_all_iff)
qed

theorem ring_drained_witness:
  "\<exists>r'. nexts sample_ring_kernel sample_ring_abi 1 (sample_ring, ([], [])) = Some ([sample_event], (r', ([], [])))
     \<and> Next sample_ring_kernel sample_ring_abi (r', ([], [])) = Some (Inr None, (step_over r', ([], [])))"
proof -
  have "reader_at sample_ring_abi 7 7 100 sample_ring"
    by (simp add: reader_at_def sample_ring_def)
  moreover have "fst (m_load64 sample_ring_kernel 7 (pGeneration sample_ring_abi) ([], [])) = r_generation sample_ring"
    by (simp add: sample_ring_kernel_def sample_ring_def)
  ultimately show ?thesis
    using ring_drained [OF sample_ring_abi_ok sample_quiet sample_holds] by fastforce
qed


theorem AttachAll_resources_witness:
  "\<exists>x w'. AttachAll sample_ring_kernel sample_ring_abi ([], []) = Some (x, w') \<and>
     (case x of Inl e \<Rightarrow> e \<noteq> Panic \<and> (mset (fst w'), mset (snd w')) = ({#}, {#})
      | Inr rings \<Rightarrow> rings \<noteq> [] \<and> attached sample_ring_abi ({#}, {#}) rings (mset (fst w'), mset (snd w')))"
proof -
  have "AttachAll sample_ring_kernel sample_ring_abi ([], []) \<noteq> None" by code_simp
  then obtain x w' where "AttachAll sample_ring_kernel sample_ring_abi ([], []) = Some (x, w')" by auto
  with AttachAll_resources [OF sample_tracked sample_ring_abi_ok this] show ?thesis by (cases x) auto
qed

end
