(* ===== verification/Policy.thy ===== *)
theory Policy
  imports Registry EventWire "HOL-Library.Sublist"
begin

text \<open>
  \<^verbatim>\<open>event/policy.go\<close>: the emission policy, which decides whether an event type is switched on.

  \<open>resolve\<close> walks a tree of keys behind an interface (\<open>policyTree\<close>), one key per segment of the
  type; \<open>liveTree\<close> is the registry as that interface. A \<open>Policy\<close> caches resolved types and
  drains a watch on the tree before every decision. Its methods are functions from policy to
  policy on the kernel's state; the mutex that serialises them is left out. The drain reads
  until the kernel has no more records, so it is a \<open>partial_function\<close>.

  The lemmas show that \<open>resolve\<close> finds the deepest setting on the path, and that the cached,
  watched view refines asking the registry afresh at every decision, under any interleaving
  of changes to the registry with decisions.
\<close>

section \<open>Tiers and settings\<close>

definition TierEssential :: u8 where "TierEssential = 0"
definition TierStandard :: u8 where "TierStandard = 1"
definition TierVerbose :: u8 where "TierVerbose = 2"
definition TierDebug :: u8 where "TierDebug = 3"

definition Tier_String :: "u8 \<Rightarrow> string" where
  "Tier_String t =
     (if t = TierEssential then ''essential'' else if t = TierStandard then ''standard''
      else if t = TierVerbose then ''verbose'' else if t = TierDebug then ''debug''
      else ''Tier('' @ FormatUint (unat t) 10 @ '')'')"

datatype setting = Unset | Off | On

definition bs_path :: "string list \<Rightarrow> string" where
  "bs_path ps = (case ps of [] \<Rightarrow> [] | p # ps \<Rightarrow> p @ concat (map (\<lambda>s. CHR 0x5C # s) ps))"

definition policyRoot :: string where "policyRoot = bs_path [''Machine'', ''Generic'', ''Events'']"
definition enabledVal :: string where "enabledVal = ''Enabled''"
definition unwatchedTTL :: int where "unwatchedTTL = 1000000000"
definition policyCacheMax :: nat where "policyCacheMax = 4096"
definition policyWatchBuf :: nat where "policyWatchBuf = 64 * 1024"
definition policyAncestors :: "string list" where
  "policyAncestors = [bs_path [''Machine'', ''Generic''], ''Machine'']"

section \<open>Pure resolution\<close>

definition bad_segment :: "string \<Rightarrow> bool" where
  "bad_segment s \<longleftrightarrow> s = [] \<or> CHR 0x5C \<in> set s \<or> CHR ''/'' \<in> set s \<or> CHR 0x00 \<in> set s"

definition policySegments :: "string \<Rightarrow> string list option" where
  "policySegments eventType =
     (if eventType = [] \<or> \<not> utf8_valid (bytes_of eventType) then None
      else let segs = split_on (CHR ''.'') eventType in if list_ex bad_segment segs then None else Some segs)"

definition interpretEnabled :: "'m reg_abi_scheme \<Rightarrow> Value \<Rightarrow> setting" where
  "interpretEnabled A v =
     (if Kind v \<noteq> TypeDWORD A then Unset
      else let n = (case Uint32 A v of None \<Rightarrow> 0 | Some n \<Rightarrow> n) in
           if n = 0 then Off else if n = 1 then On else Unset)"

record ('k, 'w) policyTree =
  pt_root :: "'k option"
  pt_child :: "'k \<Rightarrow> string \<Rightarrow> ('w, 'k option) io"
  pt_enabled :: "'k \<Rightarrow> ('w, setting) io"
  pt_release :: "'k \<Rightarrow> ('w, unit) io"

definition override :: "setting \<Rightarrow> setting \<Rightarrow> setting" where
  "override found s = (if s \<noteq> Unset then s else found)"

fun walk :: "('k, 'w) policyTree \<Rightarrow> setting \<Rightarrow> 'k option \<Rightarrow> string list \<Rightarrow> ('w, setting) io" where
  "walk t found None segs = retIO found"
| "walk t found (Some k) [] =
     bindIO (pt_enabled t k) (\<lambda>s. bindIO (pt_release t k) (\<lambda>_. retIO (override found s)))"
| "walk t found (Some k) (seg # segs) =
     bindIO (pt_enabled t k) (\<lambda>s. bindIO (pt_child t k seg) (\<lambda>next. bindIO (pt_release t k) (\<lambda>_.
       walk t (override found s) next segs)))"

definition resolve :: "('k, 'w) policyTree \<Rightarrow> string list \<Rightarrow> ('w, setting) io" where
  "resolve t segs = walk t Unset (pt_root t) segs"

definition decide :: "u8 \<Rightarrow> setting \<Rightarrow> bool" where
  "decide tier s = (if tier = TierEssential then True else if s \<noteq> Unset then s = On else tier = TierStandard)"

section \<open>The registry as a tree\<close>

record policy_abi =
  pa_Read :: u32
  pa_Notify :: u32
  pa_QueryValue :: u32
  pa_WatchValue :: u32
  pa_WatchSubkey :: u32

text \<open>\<open>caught m\<close>: \<open>m\<close> with its error as a value, which the caller inspects; a panic passes.\<close>

definition caught :: "('w, 'a) io \<Rightarrow> ('w, 'a result) io" where
  "caught m w =
     (case m w of None \<Rightarrow> None
      | Some (r, w) \<Rightarrow> Some (if r = Inl Panic then Inl Panic else Inr r, w))"

text \<open>The pointers the walk compares: the root handle itself, or one it opened.\<close>

datatype policyKey = RootKey Key | ChildKey Key

primrec key_of :: "policyKey \<Rightarrow> Key" where
  "key_of (RootKey k) = k"
| "key_of (ChildKey k) = k"

definition live_child :: "'w reg_kernel \<Rightarrow> policy_abi \<Rightarrow> policyKey \<Rightarrow> string \<Rightarrow> ('w, policyKey option) io" where
  "live_child K X parent segment =
     bindIO (caught (OpenSubkey K (key_of parent) segment (pa_QueryValue X))) (\<lambda>r.
     retIO (case r of Inl _ \<Rightarrow> None | Inr k \<Rightarrow> Some (ChildKey k)))"

definition live_enabled :: "'w reg_kernel \<Rightarrow> 'm reg_abi_scheme \<Rightarrow> policyKey \<Rightarrow> ('w, setting) io" where
  "live_enabled K A key =
     bindIO (caught (QueryValue K A (key_of key) enabledVal)) (\<lambda>r.
     retIO (case r of Inl _ \<Rightarrow> Unset | Inr v \<Rightarrow> interpretEnabled A v))"

definition live_release :: "'w reg_kernel \<Rightarrow> policyKey \<Rightarrow> ('w, unit) io" where
  "live_release K key =
     (case key of RootKey _ \<Rightarrow> retIO ()
      | ChildKey k \<Rightarrow> bindIO (caught (fst (Key_Close K k))) (\<lambda>_. retIO ()))"

definition liveTree :: "'w reg_kernel \<Rightarrow> 'm reg_abi_scheme \<Rightarrow> policy_abi \<Rightarrow> Key \<Rightarrow> (policyKey, 'w) policyTree" where
  "liveTree K A X root = \<lparr>pt_root = Some (RootKey root), pt_child = live_child K X,
     pt_enabled = live_enabled K A, pt_release = live_release K\<rparr>"

section \<open>The policy\<close>

text \<open>The kernel, with the two calls the registry package does not make: making a descriptor
  non-blocking, and the clock.\<close>

record 'w policy_kernel =
  pk_reg :: "'w reg_kernel"
  pk_nonblock :: "int \<Rightarrow> 'w \<Rightarrow> u64 \<times> 'w"
  pk_now :: "'w \<Rightarrow> int \<times> 'w"

record Policy =
  p_root :: "Key option"
  p_rootWatched :: bool
  p_ancestor :: "Key option"
  p_retryAt :: int
  p_cache :: "(string \<times> setting) list"
  p_closed :: bool

definition close_quietly :: "'w reg_kernel \<Rightarrow> Key option \<Rightarrow> ('w, unit) io" where
  "close_quietly K k = (case k of None \<Rightarrow> retIO () | Some k \<Rightarrow> bindIO (caught (fst (Key_Close K k))) (\<lambda>_. retIO ()))"

definition arm :: "'w policy_kernel \<Rightarrow> Key \<Rightarrow> u32 \<Rightarrow> bool \<Rightarrow> ('w, bool) io" where
  "arm N k flt subtree =
     bindIO (caught (Watch (pk_reg N) k flt subtree)) (\<lambda>r. case r of
       Inl _ \<Rightarrow> retIO False
     | Inr _ \<Rightarrow> (\<lambda>w. case pk_nonblock N (key_fd k) w of (e, w) \<Rightarrow> Some (Inr (e = 0), w)))"

definition teardown :: "'w policy_kernel \<Rightarrow> Policy \<Rightarrow> ('w, Policy) io" where
  "teardown N p =
     bindIO (close_quietly (pk_reg N) (p_root p)) (\<lambda>_. bindIO (close_quietly (pk_reg N) (p_ancestor p)) (\<lambda>_.
     retIO (p\<lparr>p_root := None, p_ancestor := None, p_rootWatched := False, p_cache := []\<rparr>)))"

text \<open>The search for an ancestor to watch.\<close>

fun watch_ancestor :: "'w policy_kernel \<Rightarrow> policy_abi \<Rightarrow> string list \<Rightarrow> ('w, Key option) io" where
  "watch_ancestor N X [] = retIO None"
| "watch_ancestor N X (path # paths) =
     bindIO (caught (Open (pk_reg N) path (pa_Notify X))) (\<lambda>r. case r of
       Inl _ \<Rightarrow> watch_ancestor N X paths
     | Inr a \<Rightarrow> bindIO (arm N a (pa_WatchSubkey X) False) (\<lambda>ok.
         if ok then retIO (Some a)
         else bindIO (close_quietly (pk_reg N) (Some a)) (\<lambda>_. watch_ancestor N X paths)))"

text \<open>At most \<open>n\<close> rounds of the loop of \<open>establish\<close>.\<close>

fun establish_rounds :: "'w policy_kernel \<Rightarrow> policy_abi \<Rightarrow> nat \<Rightarrow> Policy \<Rightarrow> ('w, Policy) io" where
  "establish_rounds N X 0 p = retIO p"
| "establish_rounds N X (Suc n) p =
     bindIO (caught (Open (pk_reg N) policyRoot (pa_Read X))) (\<lambda>r. case r of
       Inr k \<Rightarrow>
         bindIO (close_quietly (pk_reg N) (p_ancestor p)) (\<lambda>_.
         bindIO (arm N k (pa_WatchValue X OR pa_WatchSubkey X) True) (\<lambda>ok.
         retIO (p\<lparr>p_ancestor := None, p_root := Some k, p_rootWatched := ok\<rparr>)))
     | Inl e \<Rightarrow>
         if \<not> errors_is e ENOENT \<or> p_ancestor p \<noteq> None then retIO p
         else bindIO (watch_ancestor N X policyAncestors) (\<lambda>a.
           if a = None then retIO p else establish_rounds N X n (p\<lparr>p_ancestor := a\<rparr>)))"

definition establish :: "'w policy_kernel \<Rightarrow> policy_abi \<Rightarrow> Policy \<Rightarrow> ('w, Policy) io" where
  "establish N X p =
     bindIO (teardown N p) (\<lambda>p. bindIO (establish_rounds N X 2 p) (\<lambda>p.
     if \<not> p_rootWatched p \<and> p_ancestor p = None
     then (\<lambda>w. case pk_now N w of (t, w) \<Rightarrow> Some (Inr (p\<lparr>p_retryAt := t + unwatchedTTL\<rparr>), w))
     else retIO p))"

definition OpenPolicy :: "'w policy_kernel \<Rightarrow> policy_abi \<Rightarrow> ('w, Policy) io" where
  "OpenPolicy N X = establish N X \<lparr>p_root = None, p_rootWatched = False, p_ancestor = None, p_retryAt = 0,
     p_cache = [], p_closed = False\<rparr>"

definition Policy_Close :: "'w policy_kernel \<Rightarrow> Policy \<Rightarrow> ('w, Policy) io" where
  "Policy_Close N p = bindIO (teardown N p) (\<lambda>p. retIO (p\<lparr>p_closed := True\<rparr>))"

partial_function (option) drain_loop ::
  "'w reg_kernel \<Rightarrow> watch_abi \<Rightarrow> int \<Rightarrow> watchNews \<Rightarrow> 'w \<Rightarrow> (watchNews result \<times> 'w) option" where
  "drain_loop K W fd n w =
     (case k_read K fd (replicate policyWatchBuf 0, w) of ((r, e), (b, w)) \<Rightarrow>
        if int_of r > 0 then
          (case slice b 0 (nat (int_of r)) of
             Inl e \<Rightarrow> Some (Inl e, w)
           | Inr b \<Rightarrow>
               (case classifyRecords W b of None \<Rightarrow> None
                | Some (Inl e) \<Rightarrow> Some (Inl e, w)
                | Some (Inr got) \<Rightarrow>
                    let n = \<lparr>wn_changed = (wn_changed n \<or> wn_changed got), wn_gone = (wn_gone n \<or> wn_gone got)\<rparr> in
                    if wn_gone n then Some (Inr n, w) else drain_loop K W fd n w))
        else if e = syscall_EINTR then drain_loop K W fd n w
        else if e \<noteq> 0 \<and> e \<noteq> 11 then Some (Inr \<lparr>wn_changed = True, wn_gone = True\<rparr>, w)
        else Some (Inr n, w))"

definition watched_key :: "Policy \<Rightarrow> Key option" where
  "watched_key p = (if p_root p \<noteq> None \<and> p_rootWatched p then p_root p else p_ancestor p)"

text \<open>\<open>None\<close> is \<open>ok = false\<close>: nothing is watched.\<close>

definition drain :: "'w policy_kernel \<Rightarrow> watch_abi \<Rightarrow> Policy \<Rightarrow> ('w, watchNews option) io" where
  "drain N W p =
     (case watched_key p of None \<Rightarrow> retIO None
      | Some k \<Rightarrow> bindIO (drain_loop (pk_reg N) W (key_fd k) \<lparr>wn_changed = False, wn_gone = False\<rparr>) (\<lambda>n. retIO (Some n)))"

definition refresh :: "'w policy_kernel \<Rightarrow> policy_abi \<Rightarrow> watch_abi \<Rightarrow> Policy \<Rightarrow> ('w, Policy) io" where
  "refresh N X W p =
     bindIO (drain N W p) (\<lambda>r. case r of
       None \<Rightarrow>
         if p_closed p then retIO p
         else (\<lambda>w. case pk_now N w of (t, w) \<Rightarrow> if t < p_retryAt p then Some (Inr p, w) else establish N X p w)
     | Some n \<Rightarrow>
         if wn_gone n \<or> wn_changed n \<and> p_ancestor p \<noteq> None then establish N X p
         else if wn_changed n then retIO (p\<lparr>p_cache := []\<rparr>) else retIO p)"

definition policy_setting ::
  "'w policy_kernel \<Rightarrow> 'm reg_abi_scheme \<Rightarrow> policy_abi \<Rightarrow> Policy \<Rightarrow> string \<Rightarrow> string list \<Rightarrow> ('w, setting \<times> Policy) io" where
  "policy_setting N A X p eventType segs =
     (case p_root p of None \<Rightarrow> retIO (Unset, p)
      | Some root \<Rightarrow>
          (case map_of (p_cache p) eventType of
             Some s \<Rightarrow> retIO (s, p)
           | None \<Rightarrow>
               bindIO (resolve (liveTree (pk_reg N) A X root) segs) (\<lambda>s.
               let c = (if length (p_cache p) \<ge> policyCacheMax then [] else p_cache p) in
               retIO (s, p\<lparr>p_cache := (eventType, s) # c\<rparr>))))"

definition Enabled ::
  "'w policy_kernel \<Rightarrow> 'm reg_abi_scheme \<Rightarrow> policy_abi \<Rightarrow> watch_abi \<Rightarrow> Policy \<Rightarrow> string \<Rightarrow> u8 \<Rightarrow> ('w, bool \<times> Policy) io" where
  "Enabled N A X W p eventType tier =
     (case policySegments eventType of
        None \<Rightarrow> failIO (Wrap ''libp/event: policy: malformed event type: '' EINVAL)
      | Some segs \<Rightarrow>
          if tier > TierDebug then failIO (Wrap ''libp/event: policy: unknown tier: '' EINVAL)
          else if tier = TierEssential then retIO (True, p)
          else bindIO (refresh N X W p) (\<lambda>p. bindIO (policy_setting N A X p eventType segs) (\<lambda>(s, p).
            retIO (decide tier s, p))))"

definition EmitWith ::
  "'w policy_kernel \<Rightarrow> 'w emit_kernel \<Rightarrow> 'm reg_abi_scheme \<Rightarrow> policy_abi \<Rightarrow> watch_abi \<Rightarrow> Policy \<Rightarrow> string \<Rightarrow> u8 \<Rightarrow>
    ('w, bytes) io \<Rightarrow> ('w, bool \<times> Policy) io" where
  "EmitWith N EK A X W p eventType tier build =
     bindIO (Enabled N A X W p eventType tier) (\<lambda>(ok, p).
     if \<not> ok then retIO (False, p)
     else bindIO build (\<lambda>payload. bindIO (Emit EK eventType payload) (\<lambda>_. retIO (True, p))))"

section \<open>Resolution finds the deepest setting\<close>

text \<open>
  The reference. A configuration gives every key the process can see its setting. The levels
  of a type are the settings from the root down to the first key that is missing; the last of
  them that is set is in effect.
\<close>

type_synonym config = "string list \<Rightarrow> setting option"

definition levels :: "config \<Rightarrow> string list \<Rightarrow> setting list" where
  "levels c segs = map (the \<circ> c) (takeWhile (\<lambda>p. c p \<noteq> None) (prefixes segs))"

definition effective :: "config \<Rightarrow> string list \<Rightarrow> setting" where
  "effective c segs = last (Unset # filter (\<lambda>s. s \<noteq> Unset) (levels c segs))"

lemma levels_Cons:
  "c [] \<noteq> None \<Longrightarrow> levels c (seg # segs) = the (c []) # levels (\<lambda>q. c (seg # q)) segs"
  by (simp add: levels_def takeWhile_map comp_def)

lemma levels_Nil: "levels c [] = (case c [] of None \<Rightarrow> [] | Some s \<Rightarrow> [s])"
  by (simp add: levels_def split: option.split)

lemma levels_missing: "c [] = None \<Longrightarrow> levels c segs = []"
  by (cases segs) (simp_all add: levels_def)

text \<open>The same from a key part of the way down, with what was found above it.\<close>

definition deepest :: "config \<Rightarrow> setting \<Rightarrow> string list \<Rightarrow> string list \<Rightarrow> setting" where
  "deepest c found p segs = last (found # filter (\<lambda>s. s \<noteq> Unset) (levels (\<lambda>q. c (p @ q)) segs))"

lemma deepest_steps:
  "c p = None \<Longrightarrow> deepest c found p segs = found"
  "c p = Some s \<Longrightarrow> deepest c found p [] = override found s"
  "c p = Some s \<Longrightarrow> deepest c found p (seg # segs) = deepest c (override found s) (p @ [seg]) segs"
  by (simp_all add: deepest_def levels_Nil levels_missing levels_Cons override_def)

text \<open>
  The registry may change under the walk. \<open>pending\<close> says that a change record waits to be
  read; between two states either one waits in the later state, or none waited in the earlier
  one and the configuration is the same.
\<close>

definition undisturbed :: "('w \<Rightarrow> bool) \<Rightarrow> ('w \<Rightarrow> config) \<Rightarrow> 'w \<Rightarrow> 'w \<Rightarrow> bool" where
  "undisturbed pending conf w w' \<longleftrightarrow> pending w' \<or> \<not> pending w \<and> conf w' = conf w"

lemma undisturbed_refl [simp]: "undisturbed pending conf w w"
  by (simp add: undisturbed_def)

lemma undisturbed_trans [trans]:
  "undisturbed pending conf w w1 \<Longrightarrow> undisturbed pending conf w1 w2 \<Longrightarrow> undisturbed pending conf w w2"
  by (auto simp: undisturbed_def)

lemma undisturbedD:
  "undisturbed pending conf w w' \<Longrightarrow> \<not> pending w' \<Longrightarrow> \<not> pending w \<and> conf w' = conf w"
  by (simp add: undisturbed_def)

text \<open>
  What the walk relies on of a tree: \<open>at k p w\<close> says that in state \<open>w\<close> the walk stands at
  handle \<open>k\<close>, which names the key with path \<open>p\<close>; \<open>home w\<close> that nothing but the root is open.
\<close>

locale policy_view =
  fixes T :: "('k, 'w) policyTree"
    and top_key :: 'k
    and at :: "'k \<Rightarrow> string list \<Rightarrow> 'w \<Rightarrow> bool"
    and home :: "'w \<Rightarrow> bool"
    and conf :: "'w \<Rightarrow> config"
    and pending :: "'w \<Rightarrow> bool"
  assumes root: "pt_root T = Some top_key"
    and start: "home w \<Longrightarrow> at top_key [] w"
    and enabled: "at k p w \<Longrightarrow>
      pt_enabled T k w = Some (Inr (case conf w p of None \<Rightarrow> Unset | Some s \<Rightarrow> s), w)"
    and descend: "at k p w \<Longrightarrow> \<not> bad_segment seg \<Longrightarrow>
      \<exists>r w1 w2. pt_child T k seg w = Some (Inr r, w1) \<and> pt_release T k w1 = Some (Inr (), w2)
        \<and> undisturbed pending conf w w2
        \<and> (case r of None \<Rightarrow> conf w (p @ [seg]) = None \<and> home w2
           | Some k' \<Rightarrow> conf w (p @ [seg]) \<noteq> None \<and> at k' (p @ [seg]) w2)"
    and finish: "at k p w \<Longrightarrow>
      \<exists>w'. pt_release T k w = Some (Inr (), w') \<and> undisturbed pending conf w w' \<and> home w'"
begin

lemma walk_deepest:
  assumes "at k p w" and "list_all (\<lambda>s. \<not> bad_segment s) segs"
  shows "\<exists>s w'. walk T found (Some k) segs w = Some (Inr s, w') \<and> undisturbed pending conf w w'
    \<and> home w' \<and> (\<not> pending w' \<longrightarrow> conf w p \<noteq> None \<longrightarrow> s = deepest (conf w') found p segs)"
  using assms
proof (induction segs arbitrary: found k p w)
  case Nil
  obtain w' where r: "pt_release T k w = Some (Inr (), w')" "undisturbed pending conf w w'" "home w'"
    using finish [OF Nil(1)] by blast
  then show ?case
    using enabled [OF Nil(1)] undisturbedD [OF r(2)] by (auto simp: deepest_steps)
next
  case (Cons seg segs)
  from Cons.prems have seg: "\<not> bad_segment seg" "list_all (\<lambda>s. \<not> bad_segment s) segs" by simp_all
  define s where "s = (case conf w p of None \<Rightarrow> Unset | Some s \<Rightarrow> s)"
  have e: "pt_enabled T k w = Some (Inr s, w)" using enabled [OF Cons.prems(1)] by (simp add: s_def)
  obtain r w1 w2 where c: "pt_child T k seg w = Some (Inr r, w1)" "pt_release T k w1 = Some (Inr (), w2)"
      "undisturbed pending conf w w2" and
    r: "case r of None \<Rightarrow> conf w (p @ [seg]) = None \<and> home w2
      | Some k' \<Rightarrow> conf w (p @ [seg]) \<noteq> None \<and> at k' (p @ [seg]) w2"
    using descend [OF Cons.prems(1) seg(1)] by blast
  show ?case
  proof (cases r)
    case None
    with r e c undisturbedD [OF c(3)] show ?thesis by (auto simp: deepest_steps s_def)
  next
    case (Some k')
    with r have k': "conf w (p @ [seg]) \<noteq> None" "at k' (p @ [seg]) w2" by auto
    obtain s' w' where i: "walk T (override found s) (Some k') segs w2 = Some (Inr s', w')"
        "undisturbed pending conf w2 w'" "home w'"
        "\<not> pending w' \<longrightarrow> conf w2 (p @ [seg]) \<noteq> None \<longrightarrow> s' = deepest (conf w') (override found s) (p @ [seg]) segs"
      using Cons.IH [OF k'(2) seg(2)] by blast
    have "walk T found (Some k) (seg # segs) w = Some (Inr s', w')"
      using e c(1,2) i(1) Some by simp
    moreover have "s' = deepest (conf w') found p (seg # segs)" if "\<not> pending w'" "conf w p \<noteq> None"
      using that i(4) k'(1) undisturbedD [OF i(2)] undisturbedD [OF c(3)] by (auto simp: deepest_steps s_def)
    ultimately show ?thesis using undisturbed_trans [OF c(3) i(2)] i(3) by blast
  qed
qed

lemma resolve_effective:
  assumes "home w" and "conf w [] \<noteq> None" and "list_all (\<lambda>s. \<not> bad_segment s) segs"
  obtains s w' where "resolve T segs w = Some (Inr s, w')" "undisturbed pending conf w w'" "home w'"
    "\<not> pending w' \<Longrightarrow> s = effective (conf w') segs"
  using walk_deepest [OF start [OF assms(1)] assms(3), of Unset] assms(2) that
  by (auto simp: resolve_def root deepest_def effective_def)

end

section \<open>The registry's side\<close>

text \<open>
  What the kernel is relied on for, at the level of its system calls. An observer names what
  the kernel's state means: the configuration below the policy root, the path each open
  descriptor refers to, whether a change record waits on the root's watch, and a bound on the
  reads until none does.

  A query answers with the stored value, or that there is none (\<open>ENOENT\<close>) or that it may not be
  read (\<open>EACCES\<close>). An open yields a fresh descriptor exactly when the key can be seen; the
  policy never has more than two of its own open before it. A close frees the descriptor. The registry may change at every open and every close, and then a
  record waits.
\<close>

record 'w observer =
  ov_conf :: "'w \<Rightarrow> config"
  ov_path :: "'w \<Rightarrow> int \<Rightarrow> string list option"
  ov_pending :: "'w \<Rightarrow> bool"
  ov_budget :: "'w \<Rightarrow> nat"

abbreviation calm :: "'w observer \<Rightarrow> 'w \<Rightarrow> 'w \<Rightarrow> bool" where
  "calm V \<equiv> undisturbed (ov_pending V) (ov_conf V)"

definition setting_of :: "'m reg_abi_scheme \<Rightarrow> stored \<Rightarrow> setting" where
  "setting_of A x = (case value_answer A x of Inl _ \<Rightarrow> Unset | Inr h \<Rightarrow> interpretEnabled A (vh_Value h))"

definition query_refused :: "'w reg_kernel \<Rightarrow> int \<Rightarrow> 'w \<Rightarrow> bool" where
  "query_refused K fd w \<longleftrightarrow> (\<forall>b b'. \<exists>r e a. e \<in> {2, 13} \<and>
     k_query_value K fd (query_args enabledVal noTxn b b', w) = ((r, e), (a, w)))"

definition answers :: "'w reg_kernel \<Rightarrow> 'm reg_abi_scheme \<Rightarrow> int \<Rightarrow> setting \<Rightarrow> 'w \<Rightarrow> bool" where
  "answers K A fd s w \<longleftrightarrow>
     (\<exists>x. holds_value K \<lparr>key_fd = fd\<rparr> enabledVal noTxn x w \<and> s = setting_of A x)
     \<or> query_refused K fd w \<and> s = Unset"

definition opens :: "'w reg_kernel \<Rightarrow> policy_abi \<Rightarrow> 'w observer \<Rightarrow> int \<Rightarrow> string list \<Rightarrow> string \<Rightarrow> 'w \<Rightarrow> bool" where
  "opens K X V fd p seg w \<longleftrightarrow>
     (case k_open_key K fd (bytes_of seg @ [0]) (pa_QueryValue X) 0 w of ((r, e), w') \<Rightarrow>
        e \<noteq> syscall_EINTR \<and> calm V w w' \<and>
        (if ov_conf V w (p @ [seg]) = None then e \<noteq> 0 \<and> ov_path V w' = ov_path V w
         else e = 0 \<and> ov_path V w (int_of r) = None \<and> ov_path V w' = (ov_path V w)(int_of r \<mapsto> p @ [seg])))"

definition closes :: "'w reg_kernel \<Rightarrow> 'w observer \<Rightarrow> int \<Rightarrow> 'w \<Rightarrow> bool" where
  "closes K V fd w \<longleftrightarrow> 0 \<le> fd \<and>
     (case k_close K fd w of (_, w') \<Rightarrow> calm V w w' \<and> ov_path V w' = (ov_path V w)(fd := None))"

definition serves :: "'w reg_kernel \<Rightarrow> 'm reg_abi_scheme \<Rightarrow> policy_abi \<Rightarrow> 'w observer \<Rightarrow> bool" where
  "serves K A X V \<longleftrightarrow> (\<forall>w. ov_conf V w [] \<noteq> None) \<and>
     (\<forall>w fd p. ov_path V w fd = Some p \<longrightarrow>
        answers K A fd (case ov_conf V w p of None \<Rightarrow> Unset | Some s \<Rightarrow> s) w \<and> closes K V fd w
        \<and> (\<forall>seg. \<not> bad_segment seg \<and> finite (dom (ov_path V w)) \<and> card (dom (ov_path V w)) \<le> 2 \<longrightarrow>
             opens K X V fd p seg w))"

lemma servesD:
  assumes "serves K A X V"
  shows "ov_conf V w [] \<noteq> None"
    and "ov_path V w fd = Some p \<Longrightarrow> answers K A fd (case ov_conf V w p of None \<Rightarrow> Unset | Some s \<Rightarrow> s) w"
    and "ov_path V w fd = Some p \<Longrightarrow> closes K V fd w"
    and "ov_path V w fd = Some p \<Longrightarrow> \<not> bad_segment seg \<Longrightarrow> finite (dom (ov_path V w)) \<Longrightarrow>
      card (dom (ov_path V w)) \<le> 2 \<Longrightarrow> opens K X V fd p seg w"
  using assms unfolding serves_def by blast+

lemma caught_run:
  "m w = Some (Inr x, w') \<Longrightarrow> caught m w = Some (Inr (Inr x), w')"
  "m w = Some (Inl e, w') \<Longrightarrow> e \<noteq> Panic \<Longrightarrow> caught m w = Some (Inr (Inl e), w')"
  by (simp_all add: caught_def)

lemma value_answer_no_panic: "value_answer A x \<noteq> Inl Panic"
  using Decode_no_panic [of A "fst x" "fst (snd x)"]
  by (cases x; cases "Decode A (fst x) (fst (snd x))") (auto simp: value_answer_def no_panic_def)

lemma live_enabled_answers:
  assumes "answers K A (key_fd (key_of k)) s w"
  shows "live_enabled K A k w = Some (Inr s, w)"
  using assms unfolding answers_def
proof (elim disjE exE conjE)
  fix x
  assume h: "holds_value K \<lparr>key_fd = key_fd (key_of k)\<rparr> enabledVal noTxn x w" and s: "s = setting_of A x"
  have q: "queryValueIn K A (key_of k) enabledVal noTxn w = Some (value_answer A x, w)"
    using queryValueIn_holds [of K "key_of k"] h by (cases "key_of k") simp
  show ?thesis
  proof (cases "value_answer A x")
    case (Inl e)
    with q value_answer_no_panic [of A x] s show ?thesis
      by (auto simp: live_enabled_def QueryValue_def setting_of_def caught_def bindIO_def)
  next
    case (Inr h)
    with q s show ?thesis
      by (simp add: live_enabled_def QueryValue_def setting_of_def caught_def bindIO_def)
  qed
next
  assume "query_refused K (key_fd (key_of k)) w" and s: "s = Unset"
  then obtain r e a where "e \<in> {2, 13}" and "k_query_value K (key_fd (key_of k))
      (query_args enabledVal noTxn (replicate dataCapHint 0) (replicate nameCapHint 0), w) = ((r, e), (a, w))"
    unfolding query_refused_def by blast
  then have "query_step K A (key_of k) enabledVal noTxn (replicate dataCapHint 0, replicate nameCapHint 0) w
      = Some (Stop (Inl (Wrap ''libp/registry: query value: '' (Errno (ucast e)))), w)"
    using ioctl_rw_final [of "k_query_value K (key_fd (key_of k))"]
    by (auto simp: query_step_def syscall_EINTR_def err_is_def ERANGE_def)
  then have "queryValueIn K A (key_of k) enabledVal noTxn w
      = Some (Inl (Wrap ''libp/registry: query value: '' (Errno (ucast e))), w)"
    unfolding queryValueIn_def probes probe.simps by simp
  then show ?thesis using s by (simp add: live_enabled_def QueryValue_def caught_def bindIO_def)
qed

lemma live_child_opens:
  assumes "opens K X V (key_fd (key_of k)) p seg w" and "\<not> bad_segment seg"
  shows "\<exists>r w'. live_child K X k seg w = Some (Inr r, w') \<and> calm V w w' \<and>
    (case r of None \<Rightarrow> ov_conf V w (p @ [seg]) = None \<and> ov_path V w' = ov_path V w
     | Some k' \<Rightarrow> (\<exists>c. k' = ChildKey c) \<and> ov_conf V w (p @ [seg]) \<noteq> None
         \<and> ov_path V w (key_fd (key_of k')) = None
         \<and> ov_path V w' = (ov_path V w)(key_fd (key_of k') \<mapsto> p @ [seg]))"
proof -
  obtain r e w' where c: "k_open_key K (key_fd (key_of k)) (bytes_of seg @ [0]) (pa_QueryValue X) 0 w = ((r, e), w')"
    by (metis prod.exhaust)
  with assms(1) have o: "e \<noteq> syscall_EINTR" "calm V w w'"
    "if ov_conf V w (p @ [seg]) = None then e \<noteq> 0 \<and> ov_path V w' = ov_path V w
     else e = 0 \<and> ov_path V w (int_of r) = None \<and> ov_path V w' = (ov_path V w)(int_of r \<mapsto> p @ [seg])"
    by (simp_all add: opens_def)
  have s: "BytePtrFromString seg = Inr (bytes_of seg @ [0])"
    using assms(2) by (simp add: BytePtrFromString_def bad_segment_def)
  have "OpenSubkey K (key_of k) seg (pa_QueryValue X) w =
      Some (if e = 0 then Inr \<lparr>key_fd = int_of r\<rparr> else Inl (Wrap ''libp/registry: open: '' (Errno (ucast e))), w')"
    using Retry_final [of "k_open_key K (key_fd (key_of k)) (bytes_of seg @ [0]) (pa_QueryValue X) 0", OF c o(1)]
    by (simp add: OpenSubkey_def openAt_def s retried_def wrapIO_def bindIO_def wrapE_Inl)
  then have "live_child K X k seg w = Some (Inr (if e = 0 then Some (ChildKey \<lparr>key_fd = int_of r\<rparr>) else None), w')"
    by (simp add: live_child_def caught_def bindIO_def)
  then show ?thesis using o(2,3) by (auto split: if_splits)
qed

lemma live_release_closes:
  assumes "closes K V (key_fd c) w"
  shows "\<exists>w'. live_release K (ChildKey c) w = Some (Inr (), w') \<and> calm V w w'
    \<and> ov_path V w' = (ov_path V w)(key_fd c := None)"
proof -
  obtain r e w' where c: "k_close K (key_fd c) w = ((r, e), w')" by (metis prod.exhaust)
  then have "live_release K (ChildKey c) w = Some (Inr (), w')"
    using assms by (simp add: live_release_def Key_Close_def close_fd_def closes_def discard_def once_def
        wrapIO_def wrapE_def bindIO_def caught_def)
  then show ?thesis using assms c by (auto simp: closes_def)
qed

text \<open>The handles of a walk: the root's own, and at most one it opened below.\<close>

definition at_home :: "'w observer \<Rightarrow> Key \<Rightarrow> 'w \<Rightarrow> bool" where
  "at_home V root w \<longleftrightarrow> ov_path V w = [key_fd root \<mapsto> []]"

definition names :: "'w observer \<Rightarrow> Key \<Rightarrow> policyKey \<Rightarrow> string list \<Rightarrow> 'w \<Rightarrow> bool" where
  "names V root k p w \<longleftrightarrow>
     (case k of RootKey k \<Rightarrow> k = root \<and> p = [] \<and> at_home V root w
      | ChildKey c \<Rightarrow> key_fd c \<noteq> key_fd root \<and> ov_path V w = [key_fd root \<mapsto> [], key_fd c \<mapsto> p])"

lemma names_path:
  assumes "names V root k p w"
  shows "ov_path V w (key_fd (key_of k)) = Some p" and "finite (dom (ov_path V w))" and "card (dom (ov_path V w)) \<le> 2"
  using assms by (auto simp: names_def at_home_def card_insert_if split: policyKey.splits)

lemma live_release_names:
  assumes "serves K A X V" and "ov_path V w (key_fd (key_of k)) = Some p" and "\<exists>q. names V root k q w0"
  shows "\<exists>w'. live_release K k w = Some (Inr (), w') \<and> calm V w w' \<and>
    ov_path V w' = (if k = RootKey root then ov_path V w else (ov_path V w)(key_fd (key_of k) := None))"
proof (cases k)
  case (RootKey r)
  then show ?thesis using assms(3) by (simp add: live_release_def names_def)
next
  case (ChildKey c)
  then show ?thesis using live_release_closes [OF servesD(3) [OF assms(1)], of w c p] assms(2) by simp
qed

interpretation live: policy_view "liveTree K A X root" "RootKey root"
  "\<lambda>k p w. serves K A X V \<and> names V root k p w" "\<lambda>w. serves K A X V \<and> at_home V root w" "ov_conf V" "ov_pending V"
  for K A X root V
proof (unfold_locales, goal_cases)
  case 1
  show ?case by (simp add: liveTree_def)
next
  case (2 w)
  then show ?case by (simp add: names_def)
next
  case (3 k p w)
  then have s: "serves K A X V" and n: "names V root k p w" by simp_all
  from live_enabled_answers [OF servesD(2) [OF s names_path(1) [OF n]]] show ?case by (simp add: liveTree_def)
next
  case (4 k p w seg)
  then have s: "serves K A X V" and n: "names V root k p w" by simp_all
  have "opens K X V (key_fd (key_of k)) p seg w" using servesD(4) [OF s] names_path [OF n] 4(2) by simp
  from live_child_opens [OF this 4(2)] obtain r w1 where
    c: "live_child K X k seg w = Some (Inr r, w1)" "calm V w w1" and
    r: "case r of None \<Rightarrow> ov_conf V w (p @ [seg]) = None \<and> ov_path V w1 = ov_path V w
     | Some k' \<Rightarrow> (\<exists>c. k' = ChildKey c) \<and> ov_conf V w (p @ [seg]) \<noteq> None
         \<and> ov_path V w (key_fd (key_of k')) = None
         \<and> ov_path V w1 = (ov_path V w)(key_fd (key_of k') \<mapsto> p @ [seg])" by blast
  have "ov_path V w1 (key_fd (key_of k)) = Some p" using r names_path(1) [OF n] by (auto split: option.splits)
  from live_release_names [OF s this, of root w] n obtain w2 where
    l: "live_release K k w1 = Some (Inr (), w2)" "calm V w1 w2"
      "ov_path V w2 = (if k = RootKey root then ov_path V w1 else (ov_path V w1)(key_fd (key_of k) := None))" by blast
  have "case r of None \<Rightarrow> at_home V root w2 | Some k' \<Rightarrow> names V root k' (p @ [seg]) w2"
    using r l(3) n by (auto simp: names_def at_home_def fun_eq_iff split: option.splits policyKey.splits)
  then show ?case
    using c l r s undisturbed_trans [OF c(2) l(2)]
    by (intro exI [of _ r] exI [of _ w1] exI [of _ w2]) (simp add: liveTree_def split: option.splits)
next
  case (5 k p w)
  then have s: "serves K A X V" and n: "names V root k p w" by simp_all
  from live_release_names [OF s names_path(1) [OF n]] n obtain w' where
    l: "live_release K k w = Some (Inr (), w')" "calm V w w'"
      "ov_path V w' = (if k = RootKey root then ov_path V w else (ov_path V w)(key_fd (key_of k) := None))" by blast
  have "at_home V root w'"
    using l(3) n by (auto simp: names_def at_home_def fun_eq_iff split: policyKey.splits)
  with l s show ?case by (auto simp: liveTree_def)
qed

section \<open>Draining the watch\<close>

text \<open>
  One read of the root's watch: nothing waits (\<open>EAGAIN\<close>), the read is interrupted, or it
  yields a batch of records, none of which deletes the root itself. Whatever happens while
  records are read, reads end.
\<close>

definition reads_records :: "'w reg_kernel \<Rightarrow> watch_abi \<Rightarrow> 'w observer \<Rightarrow> int \<Rightarrow> 'w \<Rightarrow> bool" where
  "reads_records K W V fd w \<longleftrightarrow>
     (case k_read K fd (replicate policyWatchBuf 0, w) of ((r, e), (b, w')) \<Rightarrow>
        ov_path V w' = ov_path V w \<and>
        (r = -1 \<and> e = 11 \<and> w' = w \<and> \<not> ov_pending V w
         \<or> r = -1 \<and> e = syscall_EINTR \<and> calm V w w' \<and> ov_budget V w' < ov_budget V w
         \<or> (\<exists>rs. rs \<noteq> [] \<and> list_all record_ok rs \<and> \<not> list_ex (\<lambda>r. key_gone W (wr_event r)) rs
             \<and> length (concat (map record_bytes rs)) \<le> length b \<and> length b = policyWatchBuf
             \<and> r = of_nat (length (concat (map record_bytes rs)))
             \<and> take (length (concat (map record_bytes rs))) b = concat (map record_bytes rs)
             \<and> ov_budget V w' < ov_budget V w)))"

definition notifies :: "'w reg_kernel \<Rightarrow> watch_abi \<Rightarrow> 'w observer \<Rightarrow> bool" where
  "notifies K W V \<longleftrightarrow> (\<forall>w fd. ov_path V w fd = Some [] \<longrightarrow> reads_records K W V fd w)"

lemma reads_records_cases:
  assumes "reads_records K W V fd w"
  obtains (dry) b where "k_read K fd (replicate policyWatchBuf 0, w) = ((-1, 11), (b, w))" "\<not> ov_pending V w"
  | (again) b w' where "k_read K fd (replicate policyWatchBuf 0, w) = ((-1, syscall_EINTR), (b, w'))"
      "ov_path V w' = ov_path V w" "calm V w w'" "ov_budget V w' < ov_budget V w"
  | (batch) rs b e w' where "k_read K fd (replicate policyWatchBuf 0, w) = ((of_nat (length (concat (map record_bytes rs))), e), (b, w'))"
      "ov_path V w' = ov_path V w" "rs \<noteq> []" "list_all record_ok rs" "\<not> list_ex (\<lambda>r. key_gone W (wr_event r)) rs"
      "length (concat (map record_bytes rs)) \<le> length b" "length b = policyWatchBuf"
      "take (length (concat (map record_bytes rs))) b = concat (map record_bytes rs)" "ov_budget V w' < ov_budget V w"
proof -
  obtain r e b w' where k: "k_read K fd (replicate policyWatchBuf 0, w) = ((r, e), (b, w'))"
    by (metis prod.exhaust)
  from assms show thesis unfolding reads_records_def k prod.case
    by (elim conjE disjE exE) (use k dry again batch in blast)+
qed

text \<open>A drain ends. Without news, none waits any more and nothing has changed.\<close>

lemma batch_size:
  assumes "rs \<noteq> []" and "list_all record_ok rs" and "length (concat (map record_bytes rs)) \<le> policyWatchBuf"
  shows "int_of (of_nat (length (concat (map record_bytes rs)))) = int (length (concat (map record_bytes rs)))"
    and "0 < length (concat (map record_bytes rs))"
proof -
  have "length (concat (map record_bytes rs)) < 2 ^ 63" using assms(3) by (simp add: policyWatchBuf_def)
  then show "int_of (of_nat (length (concat (map record_bytes rs)))) = int (length (concat (map record_bytes rs)))"
    by (simp add: int_of_def signed_of_nat signed_take_bit_int_eq_self)
  show "0 < length (concat (map record_bytes rs))"
    using records_length [OF assms(2)] assms(1) by (metis length_greater_0_conv order_less_le_trans)
qed

lemma drain_loop_ends:
  assumes "notifies K W V" and "watch_layout W" and "ov_path V w fd = Some []" and "\<not> wn_gone n"
  shows "\<exists>n' w'. drain_loop K W fd n w = Some (Inr n', w') \<and> \<not> wn_gone n' \<and> ov_path V w' = ov_path V w
    \<and> \<not> ov_pending V w' \<and> (wn_changed n' \<or> \<not> wn_changed n \<and> calm V w w')"
  using assms(3,4)
proof (induction "ov_budget V w" arbitrary: w n rule: less_induct)
  case less
  have "reads_records K W V fd w" using assms(1) less(2) by (simp add: notifies_def)
  then show ?case
  proof (cases rule: reads_records_cases)
    case (dry b)
    then have "drain_loop K W fd n w = Some (Inr n, w)"
      by (subst drain_loop.simps) (simp add: int_of_def syscall_EINTR_def)
    then show ?thesis using dry less(3) by auto
  next
    case (again b w')
    then have "drain_loop K W fd n w = drain_loop K W fd n w'"
      by (subst drain_loop.simps) (simp add: int_of_def)
    with less(1) [OF again(4), of n] again less(2,3) undisturbed_trans [OF again(3)] show ?thesis
      by (metis (no_types, lifting))
  next
    case (batch rs b e w')
    define bs where "bs = concat (map record_bytes rs)"
    let ?n = "\<lparr>wn_changed = True, wn_gone = False\<rparr>"
    note batch = batch [folded bs_def]
    have size: "int_of (of_nat (length bs)) = int (length bs)" "0 < length bs"
      using batch_size [OF batch(3,4)] batch(6,7) by (simp_all only: bs_def)
    have s: "slice b 0 (length bs) = Inr bs" using batch(6,8) by (simp add: slice_no_panic)
    have c: "classifyRecords W bs = Some (Inr ?n)"
      using classify_loop_bytes [OF assms(2) batch(4)] records_length [OF batch(4)] batch(3,5)
      by (simp add: classifyRecords_def bs_def)
    have "drain_loop K W fd n w = drain_loop K W fd ?n w'"
      using batch(1) less(3) size(2) by (subst drain_loop.simps) (simp add: size(1) s c)
    with less(1) [OF batch(9), of ?n] batch(2) less(2) show ?thesis
      by (metis (no_types, lifting) watchNews.select_convs)
  qed
qed

section \<open>The cache refines asking the registry\<close>

text \<open>The invariant of a policy that watches its root: as long as no record waits, every cached
  setting is the one in effect.\<close>

definition coherent :: "'w observer \<Rightarrow> (string \<times> setting) list \<Rightarrow> 'w \<Rightarrow> bool" where
  "coherent V c w \<longleftrightarrow> ov_pending V w \<or>
     list_all (\<lambda>(ty, s). map_option (effective (ov_conf V w)) (policySegments ty) = Some s) c"

definition watching :: "'w observer \<Rightarrow> Key \<Rightarrow> Policy \<Rightarrow> 'w \<Rightarrow> bool" where
  "watching V root p w \<longleftrightarrow> p_root p = Some root \<and> p_rootWatched p \<and> p_ancestor p = None
     \<and> at_home V root w
     \<and> coherent V (p_cache p) w \<and> distinct (map fst (p_cache p)) \<and> length (p_cache p) \<le> policyCacheMax"

lemma watchingD:
  assumes "watching V root p w"
  shows "p_root p = Some root" "p_rootWatched p" "p_ancestor p = None" "at_home V root w"
    "coherent V (p_cache p) w" "distinct (map fst (p_cache p))" "length (p_cache p) \<le> policyCacheMax"
  using assms by (simp_all add: watching_def)

lemma coherent_calm: "coherent V c w \<Longrightarrow> calm V w w' \<Longrightarrow> coherent V c w'"
  by (auto simp: coherent_def undisturbed_def)

lemma watching_calm:
  "watching V root p w \<Longrightarrow> calm V w w' \<Longrightarrow> at_home V root w' \<Longrightarrow> watching V root p w'"
  by (auto simp: watching_def intro: coherent_calm)

lemma policySegments_ok: "policySegments ty = Some segs \<Longrightarrow> list_all (\<lambda>s. \<not> bad_segment s) segs"
  by (auto simp: policySegments_def Let_def list_all_iff list_ex_iff split: if_splits)

lemma refresh_watching:
  assumes "notifies (pk_reg N) W V" and "watch_layout W" and "watching V root p w"
  shows "\<exists>p' w'. refresh N X W p w = Some (Inr p', w') \<and> watching V root p' w' \<and> \<not> ov_pending V w'"
proof -
  note p = watchingD [OF assms(3)]
  obtain n w' where d: "drain_loop (pk_reg N) W (key_fd root) \<lparr>wn_changed = False, wn_gone = False\<rparr> w = Some (Inr n, w')"
      "\<not> wn_gone n" "ov_path V w' = ov_path V w" "\<not> ov_pending V w'" "wn_changed n \<or> calm V w w'"
    using drain_loop_ends [OF assms(1,2), of w "key_fd root" "\<lparr>wn_changed = False, wn_gone = False\<rparr>"] p(4)
    by (auto simp: at_home_def)
  have r: "refresh N X W p w = Some (Inr (if wn_changed n then p\<lparr>p_cache := []\<rparr> else p), w')"
    using d(1,2) p(1-3) by (simp add: refresh_def drain_def watched_key_def bindIO_def)
  have "watching V root (if wn_changed n then p\<lparr>p_cache := []\<rparr> else p) w'"
  proof (cases "wn_changed n")
    case True
    with p d(3) show ?thesis by (simp add: watching_def coherent_def at_home_def)
  next
    case False
    with d(3,5) p(4) show ?thesis by (simp add: watching_calm [OF assms(3)] at_home_def)
  qed
  with r d(4) show ?thesis by blast
qed

lemma setting_watching:
  assumes "serves (pk_reg N) A X V" and "watching V root p w" and "\<not> ov_pending V w"
    and segs: "policySegments ty = Some segs"
  shows "\<exists>s p' w'. policy_setting N A X p ty segs w = Some (Inr (s, p'), w') \<and> watching V root p' w'
    \<and> (\<not> ov_pending V w' \<longrightarrow> s = effective (ov_conf V w') segs)"
proof (cases "map_of (p_cache p) ty")
  case (Some s)
  then have "(ty, s) \<in> set (p_cache p)" by (rule map_of_SomeD)
  then have "s = effective (ov_conf V w) segs"
    using watchingD(5) [OF assms(2)] assms(3) segs by (auto simp: coherent_def list_all_iff)
  with Some assms(2) watchingD(1) [OF assms(2)] show ?thesis by (simp add: policy_setting_def)
next
  case None
  note p = watchingD [OF assms(2)]
  have r: "serves (pk_reg N) A X V \<and> at_home V root w" using assms(1) p(4) by simp
  obtain s w' where s: "resolve (liveTree (pk_reg N) A X root) segs w = Some (Inr s, w')" "calm V w w'"
      "at_home V root w'" "\<not> ov_pending V w' \<Longrightarrow> s = effective (ov_conf V w') segs"
    using live.resolve_effective [OF r servesD(1) [OF assms(1)] policySegments_ok [OF segs]] by blast
  define c where "c = (if length (p_cache p) \<ge> policyCacheMax then [] else p_cache p)"
  have w: "policy_setting N A X p ty segs w = Some (Inr (s, p\<lparr>p_cache := (ty, s) # c\<rparr>), w')"
    using None p(1) s(1) by (simp add: policy_setting_def c_def bindIO_def Let_def)
  have c: "coherent V c w'" "distinct (map fst c)" "length c < policyCacheMax" "ty \<notin> fst ` set c"
    using coherent_calm [OF p(5) s(2)] p(6) None
    by (auto simp: c_def coherent_def policyCacheMax_def map_of_eq_None_iff)
  have "watching V root (p\<lparr>p_cache := (ty, s) # c\<rparr>) w'"
    using p c s(3,4) segs by (auto simp: watching_def coherent_def)
  with w s(4) show ?thesis by blast
qed

lemma Enabled_watching:
  assumes "serves (pk_reg N) A X V" and "notifies (pk_reg N) W V" and "watch_layout W"
    and "watching V root p w" and "policySegments ty = Some segs" and "tier \<le> TierDebug"
  shows "\<exists>s p' w'. Enabled N A X W p ty tier w = Some (Inr (decide tier s, p'), w') \<and> watching V root p' w'
    \<and> (\<not> ov_pending V w' \<longrightarrow> s = effective (ov_conf V w') segs)"
proof (cases "tier = TierEssential")
  case True
  then show ?thesis
    using assms(4,5,6) by (auto simp: Enabled_def decide_def not_less)
next
  case False
  obtain p1 w1 where 1: "refresh N X W p w = Some (Inr p1, w1)" "watching V root p1 w1" "\<not> ov_pending V w1"
    using refresh_watching [OF assms(2-4)] by blast
  obtain s p2 w2 where 2: "policy_setting N A X p1 ty segs w1 = Some (Inr (s, p2), w2)" "watching V root p2 w2"
      "\<not> ov_pending V w2 \<longrightarrow> s = effective (ov_conf V w2) segs"
    using setting_watching [OF assms(1) 1(2,3) assms(5)] by blast
  have "Enabled N A X W p ty tier w = Some (Inr (decide tier s, p2), w2)"
    using False 1(1) 2(1) assms(5,6) by (simp add: Enabled_def not_less bindIO_def)
  with 2 show ?thesis by blast
qed

text \<open>Runs: decisions, in any order with changes to the registry.\<close>

inductive policy_run :: "'w policy_kernel \<Rightarrow> 'm reg_abi_scheme \<Rightarrow> policy_abi \<Rightarrow> watch_abi \<Rightarrow> 'w observer \<Rightarrow>
    Policy \<Rightarrow> 'w \<Rightarrow> Policy \<Rightarrow> 'w \<Rightarrow> bool"
  for N A X W V p w where
  run_start: "policy_run N A X W V p w p w"
| run_change: "policy_run N A X W V p w p1 w1 \<Longrightarrow> calm V w1 w2 \<Longrightarrow> ov_path V w2 = ov_path V w1 \<Longrightarrow>
    policy_run N A X W V p w p1 w2"
| run_decision: "policy_run N A X W V p w p1 w1 \<Longrightarrow> Enabled N A X W p1 ty tier w1 = Some (Inr (b, p2), w2) \<Longrightarrow>
    policy_run N A X W V p w p2 w2"

lemma Enabled_okD:
  assumes "Enabled N A X W p ty tier w = Some (Inr x, w')"
  shows "\<exists>segs. policySegments ty = Some segs" and "tier \<le> TierDebug"
  using assms by (auto simp: Enabled_def not_less split: option.splits if_splits)

lemma run_watching:
  assumes "policy_run N A X W V p0 w0 p w"
    and "serves (pk_reg N) A X V" and "notifies (pk_reg N) W V" and "watch_layout W" and "watching V root p0 w0"
  shows "watching V root p w"
  using assms(1)
proof (induction rule: policy_run.induct)
  case (run_change p1 w1 w2)
  then show ?case using watching_calm [of V root p1 w1 w2] watchingD(4) [of V root p1 w1] by (simp add: at_home_def)
next
  case (run_decision p1 w1 ty tier b p2 w2)
  obtain segs where "policySegments ty = Some segs" "tier \<le> TierDebug"
    using Enabled_okD [OF run_decision(2)] by blast
  from Enabled_watching [OF assms(2-4) run_decision(3) this] run_decision(2) show ?case by auto
qed (rule assms(5))

text \<open>A registry that can be read and watched: the policy root opens, its watch is armed and the
  descriptor made non-blocking, and nothing else is open.\<close>

definition watchable :: "'w policy_kernel \<Rightarrow> policy_abi \<Rightarrow> 'w observer \<Rightarrow> 'w \<Rightarrow> bool" where
  "watchable N X V w \<longleftrightarrow>
     (\<exists>r w1 q w2 w3. k_open_key (pk_reg N) parentNone (bytes_of policyRoot @ [0]) (pa_Read X) 0 w = ((r, 0), w1)
        \<and> ov_path V w1 = [int_of r \<mapsto> []]
        \<and> k_notify (pk_reg N) (int_of r) (pa_WatchValue X OR pa_WatchSubkey X) 1 w1 = ((q, 0), w2)
        \<and> ov_path V w2 = ov_path V w1 \<and> pk_nonblock N (int_of r) w2 = (0, w3) \<and> ov_path V w3 = ov_path V w2)"

lemma policyRoot_no_nul: "BytePtrFromString policyRoot = Inr (bytes_of policyRoot @ [0])"
  by (simp add: BytePtrFromString_def policyRoot_def bs_path_def)

lemma Open_ok:
  assumes "k_open_key K parentNone (bytes_of path @ [0]) access 0 w = ((r, 0), w')"
    and "BytePtrFromString path = Inr (bytes_of path @ [0])"
  shows "Open K path access w = Some (Inr \<lparr>key_fd = int_of r\<rparr>, w')"
  using Retry_final [of "k_open_key K parentNone (bytes_of path @ [0]) access 0", OF assms(1)] assms(2)
  by (simp add: Open_def openAt_def retried_def wrapIO_def bindIO_def)

lemma Watch_ok:
  assumes "k_notify K (key_fd k) flt (boolU8 sub) w = ((q, 0), w')"
  shows "Watch K k flt sub w = Some (Inr (), w')"
  using Retry_final [of "k_notify K (key_fd k) flt (boolU8 sub)", OF assms]
  by (simp add: Watch_def retried_def wrapIO_def bindIO_def discard_def)

lemma OpenPolicy_watching:
  assumes "watchable N X V w"
  shows "\<exists>root p w'. OpenPolicy N X w = Some (Inr p, w') \<and> watching V root p w'"
proof -
  obtain r w1 q w2 w3 where
    o: "k_open_key (pk_reg N) parentNone (bytes_of policyRoot @ [0]) (pa_Read X) 0 w = ((r, 0), w1)"
      "ov_path V w1 = [int_of r \<mapsto> []]" and
    n: "k_notify (pk_reg N) (int_of r) (pa_WatchValue X OR pa_WatchSubkey X) 1 w1 = ((q, 0), w2)"
      "ov_path V w2 = ov_path V w1" "pk_nonblock N (int_of r) w2 = (0, w3)" "ov_path V w3 = ov_path V w2"
    using assms unfolding watchable_def by blast
  let ?k = "\<lparr>key_fd = int_of r\<rparr>"
  have 1: "Open (pk_reg N) policyRoot (pa_Read X) w = Some (Inr ?k, w1)"
    by (rule Open_ok [OF o(1) policyRoot_no_nul])
  have 2: "Watch (pk_reg N) ?k (pa_WatchValue X OR pa_WatchSubkey X) True w1 = Some (Inr (), w2)"
    using n(1) by (intro Watch_ok) (simp add: boolU8_def)
  have "OpenPolicy N X w = Some (Inr \<lparr>p_root = Some ?k, p_rootWatched = True, p_ancestor = None, p_retryAt = 0,
      p_cache = [], p_closed = False\<rparr>, w3)"
    using 1 2 n(3)
    by (simp add: OpenPolicy_def establish_def teardown_def close_quietly_def numeral_2_eq_2 arm_def caught_def bindIO_def)
  moreover have "watching V ?k \<lparr>p_root = Some ?k, p_rootWatched = True, p_ancestor = None, p_retryAt = 0,
      p_cache = [], p_closed = False\<rparr> w3"
    using o(2) n(2,4) by (simp add: watching_def at_home_def coherent_def)
  ultimately show ?thesis by blast
qed

text \<open>C6
  The cached, watched policy refines asking the registry at every decision. Open a policy on
  a registry that can be watched, and let decisions and changes to the registry interleave in
  any way, changes also in the middle of a decision's walk. Every further decision on a
  well-formed type returns, and unless yet another change arrived while it was being made, it
  is the decision by the setting in effect in the registry's present configuration: a
  committed change applies to the next decision. The cache never exceeds its bound.\<close>

theorem policy_refines_registry:
  assumes "serves (pk_reg N) A X V" and "notifies (pk_reg N) W V" and "watch_layout W"
    and "watchable N X V w00" and "OpenPolicy N X w00 = Some (Inr p0, w0)"
    and "policy_run N A X W V p0 w0 p w"
    and "policySegments ty = Some segs" and "tier \<le> TierDebug"
  shows "\<exists>s p' w'. Enabled N A X W p ty tier w = Some (Inr (decide tier s, p'), w')
    \<and> (\<not> ov_pending V w' \<longrightarrow> s = effective (ov_conf V w') segs) \<and> length (p_cache p') \<le> policyCacheMax"
proof -
  obtain root where "watching V root p0 w0" using OpenPolicy_watching [OF assms(4)] assms(5) by auto
  from run_watching [OF assms(6,1-3) this] Enabled_watching [OF assms(1-3) _ assms(7,8)]
  show ?thesis by (blast dest: watchingD(7))
qed

text \<open>C8
  The walk finds the deepest setting. On the live registry \<open>resolve\<close> always returns and leaves
  no handle open but the root's; unless a change arrived meanwhile, its result is the last
  setting that is set among the keys from the policy root down the segments of the type, up
  to the first one that is missing or may not be read, and unset when none is.\<close>

theorem resolve_deepest:
  assumes "serves K A X V" and "at_home V root w" and "policySegments ty = Some segs"
  shows "\<exists>s w'. resolve (liveTree K A X root) segs w = Some (Inr s, w') \<and> at_home V root w'
    \<and> (\<not> ov_pending V w' \<longrightarrow> s = effective (ov_conf V w) segs)"
proof -
  have "serves K A X V \<and> at_home V root w" using assms(1,2) by simp
  from live.resolve_effective [OF this servesD(1) [OF assms(1)] policySegments_ok [OF assms(3)]]
  obtain s w' where "resolve (liveTree K A X root) segs w = Some (Inr s, w')" "calm V w w'" "at_home V root w'"
    "\<not> ov_pending V w' \<Longrightarrow> s = effective (ov_conf V w') segs" by blast
  then show ?thesis using undisturbedD [of "ov_pending V" "ov_conf V" w w'] by auto
qed

section \<open>Closing\<close>

lemma close_quietly_total: "\<exists>w'. close_quietly K k w = Some (Inr (), w')"
proof (cases k)
  case (Some k)
  obtain r e w' where "k_close K (key_fd k) w = ((r, e), w')" by (metis prod.exhaust)
  with Some show ?thesis
    by (simp add: close_quietly_def Key_Close_def close_fd_def discard_def once_def wrapIO_def wrapE_def
        bindIO_def caught_def)
qed (simp add: close_quietly_def)

lemma teardown_total:
  "\<exists>w'. teardown N p w = Some (Inr (p\<lparr>p_root := None, p_ancestor := None, p_rootWatched := False, p_cache := []\<rparr>), w')"
proof -
  obtain w1 where "close_quietly (pk_reg N) (p_root p) w = Some (Inr (), w1)"
    using close_quietly_total [of "pk_reg N" "p_root p" w] by blast
  moreover obtain w2 where "close_quietly (pk_reg N) (p_ancestor p) w1 = Some (Inr (), w2)"
    using close_quietly_total [of "pk_reg N" "p_ancestor p" w1] by blast
  ultimately show ?thesis by (simp add: teardown_def)
qed

text \<open>
  Closing never fails, whatever the kernel answers, and from then on the policy decides by
  tier alone, in every state and without a call to the kernel: essential and standard types
  are on, verbose and debug types off. Closing again keeps it so.\<close>

theorem Policy_Close_decides_by_tier:
  "\<exists>p' w'. Policy_Close N p w = Some (Inr p', w')
     \<and> (\<forall>v. Policy_Close N p' v = Some (Inr p', v)
          \<and> Enabled N A X W p' ty tier v =
              (if policySegments ty = None
               then Some (Inl (Wrap ''libp/event: policy: malformed event type: '' EINVAL), v)
               else if tier > TierDebug then Some (Inl (Wrap ''libp/event: policy: unknown tier: '' EINVAL), v)
               else Some (Inr (tier = TierEssential \<or> tier = TierStandard, p'), v)))"
proof -
  let ?p = "p\<lparr>p_root := None, p_ancestor := None, p_rootWatched := False, p_cache := [], p_closed := True\<rparr>"
  obtain w' where "teardown N p w
      = Some (Inr (p\<lparr>p_root := None, p_ancestor := None, p_rootWatched := False, p_cache := []\<rparr>), w')"
    using teardown_total [of N p w] by blast
  then have "Policy_Close N p w = Some (Inr ?p, w')" by (simp add: Policy_Close_def)
  moreover have "Policy_Close N ?p v = Some (Inr ?p, v)" for v
    by (simp add: Policy_Close_def teardown_def close_quietly_def bindIO_def)
  moreover have "Enabled N A X W ?p ty tier v =
      (if policySegments ty = None
       then Some (Inl (Wrap ''libp/event: policy: malformed event type: '' EINVAL), v)
       else if tier > TierDebug then Some (Inl (Wrap ''libp/event: policy: unknown tier: '' EINVAL), v)
       else Some (Inr (tier = TierEssential \<or> tier = TierStandard, ?p), v))" for v
    by (simp add: Enabled_def refresh_def drain_def watched_key_def policy_setting_def decide_def bindIO_def
        split: option.split)
  ultimately show ?thesis by blast
qed

section \<open>A sample registry\<close>

text \<open>One key \<open>a\<close> below the root, whose setting is a flag; a queue of change records; the
  descriptors of the policy.\<close>

type_synonym sample_state = "bool \<times> nat \<times> (int \<Rightarrow> string list option)"

definition sample_path :: "sample_state \<Rightarrow> int \<Rightarrow> string list option" where
  "sample_path = (\<lambda>(on, n, tbl) fd. if fd < 0 then None else tbl fd)"

definition sample_conf :: "sample_state \<Rightarrow> config" where
  "sample_conf = (\<lambda>(on, n, tbl) p. if p = [] then Some Unset
     else if p = [''a''] then Some (if on then On else Off) else None)"

definition sample_observer :: "sample_state observer" where
  "sample_observer = \<lparr>ov_conf = sample_conf, ov_path = sample_path, ov_pending = \<lambda>(on, n, tbl). 0 < n,
     ov_budget = \<lambda>(on, n, tbl). n\<rparr>"

definition free_fd :: "sample_state \<Rightarrow> int" where
  "free_fd w = (if sample_path w 3 = None then 3 else if sample_path w 4 = None then 4 else 5)"

definition sample_change :: bytes where
  "sample_change = record_bytes \<lparr>wr_event = \<lparr>we_Type = 1, we_Name = ''Enabled'', we_Path = [''a'']\<rparr>, wr_subtree = True\<rparr>"

definition sample_reg :: "sample_state reg_kernel" where
  "sample_reg = idle_kernel\<lparr>
     k_open_key := \<lambda>fd path _ _ w. if sample_path w fd = Some [] \<and> path = bytes_of ''a'' @ [0]
       then ((of_int (free_fd w), 0), (fst w, fst (snd w), (sample_path w)(free_fd w \<mapsto> [''a''])))
       else if fd = parentNone \<and> path = bytes_of policyRoot @ [0]
       then ((of_int (free_fd w), 0), (fst w, fst (snd w), (sample_path w)(free_fd w \<mapsto> []))) else ((-1, 2), w),
     k_close := \<lambda>fd (on, n, tbl). ((0, 0), (on, n, tbl(fd := None))),
     k_query_value := \<lambda>fd (a, w). if sample_path w fd = Some [''a'']
       then stored_value 4 (le32 (if fst w then 1 else 0)) [] 1 (a, w) else ((0, 2), (a, w)),
     k_read := \<lambda>fd (b, (on, n, tbl)). if n = 0 then ((-1, 11), (b, (on, n, tbl)))
       else ((of_nat (length sample_change), 0), (fill sample_change b, (on, n - 1, tbl)))\<rparr>"

definition sample_policy_kernel :: "sample_state policy_kernel" where
  "sample_policy_kernel = \<lparr>pk_reg = sample_reg, pk_nonblock = \<lambda>_ w. (0, w), pk_now = \<lambda>w. (0, w)\<rparr>"

definition sample_policy_abi :: policy_abi where
  "sample_policy_abi = \<lparr>pa_Read = 1, pa_Notify = 2, pa_QueryValue = 4, pa_WatchValue = 1, pa_WatchSubkey = 2\<rparr>"

text \<open>The state before the policy is opened, and after.\<close>

definition sample_boot :: sample_state where "sample_boot = (True, 0, Map.empty)"
definition sample_start :: sample_state where "sample_start = (True, 0, [3 \<mapsto> []])"

definition sample_toggle :: "sample_state \<Rightarrow> sample_state" where
  "sample_toggle = (\<lambda>(on, n, tbl). (\<not> on, n + 1, tbl))"

lemma free_fd_free:
  assumes "finite (dom (sample_path w))" and "card (dom (sample_path w)) \<le> 2"
  shows "sample_path w (free_fd w) = None"
proof (rule ccontr)
  assume "sample_path w (free_fd w) \<noteq> None"
  then have "{3, 4, 5} \<subseteq> dom (sample_path w)" by (auto simp: free_fd_def split: if_splits)
  from card_mono [OF assms(1) this] assms(2) show False by simp
qed

lemma free_fd_int: "int_of (of_int (free_fd w)) = free_fd w"
  by (simp add: free_fd_def int_of_def)

lemma bytes_of_a: "bytes_of seg = bytes_of ''a'' \<longleftrightarrow> seg = ''a''"
  by (metis string_of_bytes_of)

lemma sample_settings:
  "setting_of win_reg (4, le32 1, [], 1) = On" "setting_of win_reg (4, le32 0, [], 1) = Off"
  by code_simp+

lemma sample_opens:
  assumes "ov_path sample_observer w fd = Some p" and "sample_path w (free_fd w) = None"
  shows "opens sample_reg sample_policy_abi sample_observer fd p seg w"
proof (cases "p = [] \<and> seg = ''a''")
  case True
  let ?w = "(fst w, fst (snd w), (sample_path w)(free_fd w \<mapsto> [''a'']))"
  have "k_open_key sample_reg fd (bytes_of seg @ [0]) (pa_QueryValue sample_policy_abi) 0 w
      = ((of_int (free_fd w), 0), ?w)"
    using assms(1) True by (simp add: sample_reg_def sample_observer_def)
  moreover have "calm sample_observer w ?w"
    by (cases w) (auto simp: undisturbed_def sample_observer_def sample_conf_def)
  moreover have "ov_conf sample_observer w [''a''] \<noteq> None"
    by (simp add: sample_observer_def sample_conf_def split: prod.split)
  moreover have "sample_path ?w = (sample_path w)(free_fd w \<mapsto> [''a''])"
    by (auto simp: sample_path_def fun_eq_iff free_fd_def split: prod.split)
  ultimately show ?thesis
    using True assms(2) by (simp add: opens_def free_fd_int syscall_EINTR_def sample_observer_def)
next
  case False
  then have "k_open_key sample_reg fd (bytes_of seg @ [0]) (pa_QueryValue sample_policy_abi) 0 w = ((-1, 2), w)"
    using assms(1) by (auto simp: sample_reg_def sample_observer_def bytes_of_a sample_path_def parentNone_def split: prod.splits)
  moreover have "ov_conf sample_observer w (p @ [seg]) = None"
    using False by (auto simp: sample_observer_def sample_conf_def append_eq_Cons_conv split: prod.split)
  ultimately show ?thesis by (simp add: opens_def syscall_EINTR_def)
qed

lemma sample_closes:
  assumes "ov_path sample_observer w fd = Some p"
  shows "closes sample_reg sample_observer fd w"
proof -
  obtain on n tbl where w: "w = (on, n, tbl)" by (cases w)
  have "0 \<le> fd" using assms by (simp add: w sample_observer_def sample_path_def split: if_splits)
  moreover have "sample_path (on, n, tbl(fd := None)) = (sample_path w)(fd := None)"
    by (simp add: w sample_path_def fun_eq_iff)
  ultimately show ?thesis
    by (auto simp: w closes_def sample_reg_def sample_observer_def undisturbed_def sample_conf_def)
qed

lemma sample_answers:
  assumes "ov_path sample_observer w fd = Some p"
  shows "answers sample_reg win_reg fd (case ov_conf sample_observer w p of None \<Rightarrow> Unset | Some s \<Rightarrow> s) w"
proof (cases "p = [''a'']")
  case True
  let ?x = "(4, le32 (if fst w then 1 else 0), [], 1)"
  have h: "holds_value sample_reg \<lparr>key_fd = fd\<rparr> enabledVal noTxn ?x w"
    using assms True by (simp add: holds_value_def sample_reg_def sample_observer_def)
  have "(case ov_conf sample_observer w p of None \<Rightarrow> Unset | Some s \<Rightarrow> s) = setting_of win_reg ?x"
    using True by (cases w) (simp add: sample_observer_def sample_conf_def sample_settings)
  with h show ?thesis unfolding answers_def by (intro disjI1 exI [of _ ?x] conjI)
next
  case False
  have "query_refused sample_reg fd w"
    using assms False by (simp add: query_refused_def sample_reg_def sample_observer_def)
  moreover have "(case ov_conf sample_observer w p of None \<Rightarrow> Unset | Some s \<Rightarrow> s) = Unset"
    using False by (cases w) (simp add: sample_observer_def sample_conf_def)
  ultimately show ?thesis unfolding answers_def by (intro disjI2 conjI)
qed

lemma sample_serves: "serves sample_reg win_reg sample_policy_abi sample_observer"
  unfolding serves_def
proof (intro conjI allI impI)
  fix w show "ov_conf sample_observer w [] \<noteq> None" by (simp add: sample_observer_def sample_conf_def split: prod.split)
next
  fix w fd p assume p: "ov_path sample_observer w fd = Some p"
  show "answers sample_reg win_reg fd (case ov_conf sample_observer w p of None \<Rightarrow> Unset | Some s \<Rightarrow> s) w"
    using p by (rule sample_answers)
  show "closes sample_reg sample_observer fd w"
    using p by (rule sample_closes)
  fix seg assume "\<not> bad_segment seg \<and> finite (dom (ov_path sample_observer w)) \<and> card (dom (ov_path sample_observer w)) \<le> 2"
  then have "sample_path w (free_fd w) = None" using free_fd_free [of w] by (simp add: sample_observer_def)
  with p show "opens sample_reg sample_policy_abi sample_observer fd p seg w" by (rule sample_opens)
qed

lemma sample_notifies: "notifies sample_reg sample_watch sample_observer"
  unfolding notifies_def
proof (intro allI impI)
  fix w :: sample_state and fd
  let ?r = "\<lparr>wr_event = \<lparr>we_Type = 1, we_Name = ''Enabled'', we_Path = [''a'']\<rparr>, wr_subtree = True\<rparr>"
  obtain on n tbl where w: "w = (on, n, tbl)" by (cases w)
  have r: "record_ok ?r" "length sample_change = 20"
    by (simp_all add: record_ok_def record_tail_def path_bytes_def comp_bytes_def sample_change_def record_bytes_def)
  show "reads_records sample_reg sample_watch sample_observer fd w"
  proof (cases n)
    case 0
    then show ?thesis by (simp add: reads_records_def sample_reg_def sample_observer_def w)
  next
    case (Suc m)
    have "\<not> key_gone sample_watch (wr_event ?r)" by (simp add: key_gone_def)
    moreover have "concat (map record_bytes [?r]) = sample_change" by (simp add: sample_change_def)
    ultimately show ?thesis
      unfolding reads_records_def using r
      by (simp add: sample_reg_def sample_observer_def w Suc sample_path_def fill_def policyWatchBuf_def
          exI [of _ "[?r]"])
  qed
qed

lemma sample_home: "at_home sample_observer sample_key sample_start"
  by (auto simp: at_home_def sample_observer_def sample_path_def sample_start_def sample_key_def fun_eq_iff)

lemma sample_segments: "policySegments ''a'' = Some [''a'']"
  by code_simp

lemma sample_toggle_calm:
  "calm sample_observer w (sample_toggle w)" "ov_path sample_observer (sample_toggle w) = ov_path sample_observer w"
  by (simp_all add: undisturbed_def sample_observer_def sample_toggle_def sample_path_def split: prod.splits)

lemma sample_watchable: "watchable sample_policy_kernel sample_policy_abi sample_observer sample_boot"
proof -
  have f: "free_fd sample_boot = 3" by (simp add: free_fd_def sample_boot_def sample_path_def)
  have "k_open_key sample_reg parentNone (bytes_of policyRoot @ [0]) (pa_Read sample_policy_abi) 0 sample_boot
      = ((3, 0), sample_start)"
    using f by (auto simp: sample_reg_def sample_path_def sample_boot_def sample_start_def parentNone_def fun_eq_iff)
  moreover have "k_notify sample_reg fd flt sub sample_start = ((0, 0), sample_start)" for fd flt sub
    by (simp add: sample_reg_def idle_kernel_def)
  ultimately show ?thesis
    unfolding watchable_def using sample_home
    by (intro exI [of _ 3] exI [of _ sample_start] exI [of _ 0] exI [of _ sample_start] exI [of _ sample_start])
      (simp add: at_home_def sample_key_def sample_policy_kernel_def int_of_def)
qed

theorem resolve_deepest_witness:
  "\<exists>s w'. resolve (liveTree sample_reg win_reg sample_policy_abi sample_key) [''a''] sample_start = Some (Inr s, w')
    \<and> at_home sample_observer sample_key w'
    \<and> (\<not> ov_pending sample_observer w' \<longrightarrow> s = effective (ov_conf sample_observer sample_start) [''a''])"
  by (rule resolve_deepest [OF sample_serves sample_home sample_segments])

text \<open>A decision, then a change, then the decision again.\<close>

theorem policy_refines_registry_witness:
  "\<exists>p0 w0 p w. OpenPolicy sample_policy_kernel sample_policy_abi sample_boot = Some (Inr p0, w0)
    \<and> policy_run sample_policy_kernel win_reg sample_policy_abi sample_watch sample_observer p0 w0 p w
    \<and> (\<exists>s p' w'. Enabled sample_policy_kernel win_reg sample_policy_abi sample_watch p ''a'' TierVerbose w
          = Some (Inr (decide TierVerbose s, p'), w')
        \<and> (\<not> ov_pending sample_observer w' \<longrightarrow> s = effective (ov_conf sample_observer w') [''a''])
        \<and> length (p_cache p') \<le> policyCacheMax)"
proof -
  let ?N = sample_policy_kernel and ?X = sample_policy_abi and ?V = sample_observer
  have k: "serves (pk_reg ?N) win_reg ?X ?V" "notifies (pk_reg ?N) sample_watch ?V"
    using sample_serves sample_notifies by (simp_all add: sample_policy_kernel_def)
  obtain p0 w0 where p0: "OpenPolicy ?N ?X sample_boot = Some (Inr p0, w0)"
    using OpenPolicy_watching [OF sample_watchable] by blast
  have t: "TierVerbose \<le> TierDebug" by (simp add: TierVerbose_def TierDebug_def)
  note refines = policy_refines_registry [OF k sample_watch_ok(1) sample_watchable p0]
  obtain s p1 w1 where 1: "Enabled ?N win_reg ?X sample_watch p0 ''a'' TierVerbose w0
      = Some (Inr (decide TierVerbose s, p1), w1)"
    using refines [OF run_start sample_segments t] by blast
  have r: "policy_run ?N win_reg ?X sample_watch ?V p0 w0 p1 (sample_toggle w1)"
    using run_change [OF run_decision [OF run_start 1] sample_toggle_calm] .
  from refines [OF r sample_segments t] p0 r show ?thesis by blast
qed

end
