(* ===== verification/PolicyRace.thy ===== *)
theory PolicyRace
  imports Policy
begin

text \<open>
  A gap in \<open>establish\<close> of \<^verbatim>\<open>event/policy.go\<close>. While the policy root is absent, the policy watches
  the nearest ancestor it can open, for the creation of a child. The search opens the nearer
  ancestor first; when that one is created between its failed open and the arming of the watch
  on the farther one, the farther ancestor is watched although the nearer exists, and the
  second round of the loop only looks for the root. The watch is not on the subtree, so the
  later creation of the root below the nearer ancestor wakes nobody.

  The registry of this theory is a small honest one: every call answers from its state, and the
  watch on \<open>Machine\<close> reports every child created after it was armed. One other process runs
  beside the policy and creates keys.
\<close>

record racy =
  rc_generic :: bool
  rc_events :: bool
  rc_armed :: bool
  rc_queue :: nat

text \<open>The other process creates \<open>Machine\Generic\<close>, and later the policy root in it, with \<open>Enabled = 1\<close>.\<close>

definition create_generic :: "racy \<Rightarrow> racy" where
  "create_generic w = w\<lparr>rc_generic := True, rc_queue := (if rc_armed w \<and> \<not> rc_generic w then Suc (rc_queue w) else rc_queue w)\<rparr>"

definition create_events :: "racy \<Rightarrow> racy" where
  "create_events w = w\<lparr>rc_events := rc_generic w\<rparr>"

definition cstr :: "string \<Rightarrow> bytes" where "cstr s = bytes_of s @ [0]"

text \<open>The descriptors are 5, 6 and 7 for \<open>Machine\<close>, \<open>Machine\Generic\<close> and the root. The creation of
  \<open>Machine\Generic\<close> falls right after the open that did not find it.\<close>

definition racy_reg :: "racy reg_kernel" where
  "racy_reg = idle_kernel\<lparr>
     k_open_key := \<lambda>_ path _ _ w.
       if path = cstr policyRoot then (if rc_generic w \<and> rc_events w then ((7, 0), w) else ((-1, 2), w))
       else if path = cstr (hd policyAncestors) then (if rc_generic w then ((6, 0), w) else ((-1, 2), create_generic w))
       else if path = cstr ''Machine'' then ((5, 0), w) else ((-1, 2), w),
     k_notify := \<lambda>fd _ _ w. ((0, 0), if fd = 5 then w\<lparr>rc_armed := True\<rparr> else w),
     k_query_value := \<lambda>fd (a, w). if fd = 7 then stored_value 4 (le32 1) [] 1 (a, w) else ((0, 2), (a, w)),
     k_read := \<lambda>fd (b, w). if fd = 5 \<and> 0 < rc_queue w
       then ((of_nat (length sample_change), 0), (fill sample_change b, w\<lparr>rc_queue := rc_queue w - 1\<rparr>))
       else ((-1, 11), (b, w))\<rparr>"

definition racy_kernel :: "racy policy_kernel" where
  "racy_kernel = \<lparr>pk_reg = racy_reg, pk_nonblock = \<lambda>_ w. (0, w), pk_now = \<lambda>w. (0, w)\<rparr>"

definition racy_start :: racy where
  "racy_start = \<lparr>rc_generic = False, rc_events = False, rc_armed = False, rc_queue = 0\<rparr>"

definition racy_opened :: racy where
  "racy_opened = \<lparr>rc_generic = True, rc_events = False, rc_armed = True, rc_queue = 0\<rparr>"

text \<open>The policy that watches \<open>Machine\<close>, and one opened after the root exists.\<close>

definition blind_policy :: Policy where
  "blind_policy = \<lparr>p_root = None, p_rootWatched = False, p_ancestor = Some \<lparr>key_fd = 5\<rparr>, p_retryAt = 0, p_cache = [], p_closed = False\<rparr>"

definition fresh_policy :: Policy where
  "fresh_policy = \<lparr>p_root = Some \<lparr>key_fd = 7\<rparr>, p_rootWatched = True, p_ancestor = None, p_retryAt = 0, p_cache = [], p_closed = False\<rparr>"

lemma racy_dry:
  "\<not> (fd = 5 \<and> 0 < rc_queue w) \<Longrightarrow> drain_loop racy_reg W fd n w = Some (Inr n, w)"
  by (subst drain_loop.simps) (auto simp: racy_reg_def int_of_def syscall_EINTR_def)

lemma racy_open_blind: "OpenPolicy racy_kernel sample_policy_abi racy_start = Some (Inr blind_policy, racy_opened)"
  by code_simp

lemma racy_open_fresh:
  "OpenPolicy racy_kernel sample_policy_abi (create_events racy_opened) = Some (Inr fresh_policy, create_events racy_opened)"
  by code_simp

lemma racy_blind:
  "Enabled racy_kernel win_reg sample_policy_abi sample_watch blind_policy ''a'' TierDebug (create_events racy_opened)
     = Some (Inr (False, blind_policy), create_events racy_opened)"
proof -
  have d: "drain_loop racy_reg sample_watch 5 n (create_events racy_opened) = Some (Inr n, create_events racy_opened)" for n
    by (rule racy_dry) (simp add: create_events_def racy_opened_def)
  show ?thesis
    using sample_segments d
    by (simp add: Enabled_def TierDebug_def TierEssential_def TierStandard_def refresh_def drain_def watched_key_def
        blind_policy_def racy_kernel_def bindIO_def policy_setting_def decide_def)
qed

lemma racy_fresh:
  "\<exists>p. Enabled racy_kernel win_reg sample_policy_abi sample_watch fresh_policy ''a'' TierDebug (create_events racy_opened)
     = Some (Inr (True, p), create_events racy_opened)"
proof -
  let ?w = "create_events racy_opened"
  have d: "drain_loop racy_reg sample_watch 7 n ?w = Some (Inr n, ?w)" for n by (rule racy_dry) simp
  have "answers racy_reg win_reg 7 On ?w"
    unfolding answers_def
    by (rule disjI1, rule exI [of _ "(4, le32 1, [], 1)"]) (simp add: holds_value_def racy_reg_def sample_settings)
  then have e: "live_enabled racy_reg win_reg (RootKey \<lparr>key_fd = 7\<rparr>) ?w = Some (Inr On, ?w)"
    by (intro live_enabled_answers) simp
  have c: "live_child racy_reg sample_policy_abi (RootKey \<lparr>key_fd = 7\<rparr>) ''a'' ?w = Some (Inr None, ?w)" by code_simp
  have "resolve (liveTree racy_reg win_reg sample_policy_abi \<lparr>key_fd = 7\<rparr>) [''a''] ?w = Some (Inr On, ?w)"
    using e c by (simp add: resolve_def liveTree_def live_release_def override_def)
  then show ?thesis
    using sample_segments d
    by (simp add: Enabled_def TierDebug_def TierEssential_def refresh_def drain_def watched_key_def
        fresh_policy_def racy_kernel_def bindIO_def policy_setting_def decide_def)
qed


end
