(* ===== verification/Token.thy ===== *)
theory Token
  imports Registry
begin

text \<open>
  The package \<^verbatim>\<open>token\<close>: handles to KACS tokens (\<^verbatim>\<open>token/token.go\<close>), their ioctls
  (\<^verbatim>\<open>token/ioctl.go\<close>), the information classes (\<^verbatim>\<open>token/query.go\<close>), sessions
  (\<^verbatim>\<open>token/session.go\<close>) and scoped impersonation (\<^verbatim>\<open>token/impersonate.go\<close>).

  Impersonation belongs to an OS thread. Its operations act on a thread: the number of
  pending \<open>runtime.LockOSThread\<close> calls beside the kernel's state. A thread whose count
  returns to what it was goes back to the scheduler's pool.

  The lemmas show that a thread never goes back to the pool while it impersonates, that the
  closure runs under the requested identity, and that the accessors return what the kernel
  stores.
\<close>

section \<open>The kernel\<close>

record token_query_args =
  tq_Token_class :: u32
  tq_Buf :: bytes
  tq_Buf_len :: u32

record duplicate_args =
  da_Access_mask :: u32
  da_Token_type :: u32
  da_Impersonation_level :: u32
  da_Result_fd :: int

record restrict_args =
  ra_Privs_to_delete :: u64
  ra_Num_deny_indices :: u32
  ra_Num_restrict_sids :: u32
  ra_Data :: bytes
  ra_Flags :: u32
  ra_Result_fd :: int

record PrivEntry =
  pe_LUID :: u32
  pe_Attributes :: u32

text \<open>\<open>uapi.Kacs_group_entry\<close>.\<close>

record kacs_group_entry =
  kg_Index :: u32
  kg_Enable :: u8

record privs_args =
  pr_Data :: "PrivEntry list"
  pr_Previous_enabled :: u64

record groups_args =
  gr_Data :: "kacs_group_entry list"
  gr_Previous_state :: "u64 list"

record 'w token_kernel =
  tk_open_self :: "u32 \<Rightarrow> u32 \<Rightarrow> 'w syscall"
  tk_open_process :: "int \<Rightarrow> u32 \<Rightarrow> 'w syscall"
  tk_open_thread :: "int \<Rightarrow> int \<Rightarrow> u32 \<Rightarrow> 'w syscall"
  tk_open_peer :: "int \<Rightarrow> 'w syscall"
  tk_create :: "bytes \<Rightarrow> 'w syscall"
  tk_close :: "int \<Rightarrow> 'w syscall"
  tk_query :: "int \<Rightarrow> (token_query_args \<times> 'w) syscall"
  tk_duplicate :: "int \<Rightarrow> (duplicate_args \<times> 'w) syscall"
  tk_restrict :: "int \<Rightarrow> (restrict_args \<times> 'w) syscall"
  tk_install :: "int \<Rightarrow> 'w syscall"
  tk_link :: "int \<Rightarrow> int \<Rightarrow> int \<Rightarrow> u64 \<Rightarrow> 'w syscall"
  tk_linked :: "int \<Rightarrow> (int \<times> 'w) syscall"
  tk_adjust_privs :: "int \<Rightarrow> (privs_args \<times> 'w) syscall"
  tk_adjust_groups :: "int \<Rightarrow> (groups_args \<times> 'w) syscall"
  tk_adjust_default :: "int \<Rightarrow> bytes \<Rightarrow> u16 \<Rightarrow> u16 \<Rightarrow> 'w syscall"
  tk_adjust_sessionid :: "int \<Rightarrow> u32 \<Rightarrow> 'w syscall"
  tk_impersonate :: "int \<Rightarrow> 'w syscall"
  tk_impersonate_peer :: "int \<Rightarrow> 'w syscall"
  tk_revert :: "'w syscall"
  tk_set_level :: "int \<Rightarrow> u32 \<Rightarrow> 'w syscall"
  tk_create_session :: "bytes \<Rightarrow> 'w syscall"
  tk_destroy_session :: "u64 \<Rightarrow> 'w syscall"
  tk_set_psb :: "int \<Rightarrow> u32 \<Rightarrow> 'w syscall"

section \<open>Handles\<close>

record Token =
  tok_fd :: int

definition opened :: "string \<Rightarrow> 'w syscall \<Rightarrow> ('w, Token) io" where
  "opened msg k = bindIO (wrapIO msg (retried k)) (\<lambda>r. retIO \<lparr>tok_fd = int_of r\<rparr>)"

definition OpenSelf :: "'w token_kernel \<Rightarrow> u32 \<Rightarrow> u32 \<Rightarrow> ('w, Token) io" where
  "OpenSelf K flags access = opened ''libp/token: open self token: '' (tk_open_self K flags access)"

definition OpenProcess :: "'w token_kernel \<Rightarrow> int \<Rightarrow> u32 \<Rightarrow> ('w, Token) io" where
  "OpenProcess K pidfd access = opened ''libp/token: open process token: '' (tk_open_process K pidfd access)"

definition OpenThread :: "'w token_kernel \<Rightarrow> int \<Rightarrow> int \<Rightarrow> u32 \<Rightarrow> ('w, Token) io" where
  "OpenThread K pidfd tid access = opened ''libp/token: open thread token: '' (tk_open_thread K pidfd tid access)"

definition OpenPeer :: "'w token_kernel \<Rightarrow> int \<Rightarrow> ('w, Token) io" where
  "OpenPeer K sockfd = opened ''libp/token: open peer token: '' (tk_open_peer K sockfd)"

definition token_Create :: "'w token_kernel \<Rightarrow> bytes \<Rightarrow> ('w, Token) io" where
  "token_Create K spec = opened ''libp/token: create token: '' (tk_create K spec)"

text \<open>The result, and the spent handle.\<close>

definition Token_Close :: "'w token_kernel \<Rightarrow> Token \<Rightarrow> ('w, unit) io \<times> Token" where
  "Token_Close K t = (close_fd (tk_close K) ''libp/token: close: '' (tok_fd t),
     if tok_fd t < 0 then t else t\<lparr>tok_fd := -1\<rparr>)"

section \<open>Ioctls\<close>

definition called :: "string \<Rightarrow> 'w syscall \<Rightarrow> ('w, unit) io" where
  "called msg k = wrapIO msg (discard (retried k))"

text \<open>An ioctl whose result is read from its argument block.\<close>

definition ioctl_get :: "string \<Rightarrow> ('s \<times> 'w) syscall \<Rightarrow> 's \<Rightarrow> ('s \<Rightarrow> 'a) \<Rightarrow> ('w, 'a) io" where
  "ioctl_get msg k a f w =
     (case ioctl_rw k a w of None \<Rightarrow> None
      | Some (Some e, _, w) \<Rightarrow> Some (Inl (Wrap msg e), w)
      | Some (None, a, w) \<Rightarrow> Some (Inr (f a), w))"

definition Duplicate :: "'w token_kernel \<Rightarrow> Token \<Rightarrow> u32 \<Rightarrow> u32 \<Rightarrow> u32 \<Rightarrow> ('w, Token) io" where
  "Duplicate K t access typ level =
     ioctl_get ''libp/token: duplicate: '' (tk_duplicate K (tok_fd t))
       \<lparr>da_Access_mask = access, da_Token_type = typ, da_Impersonation_level = level, da_Result_fd = -1\<rparr>
       (\<lambda>a. \<lparr>tok_fd = da_Result_fd a\<rparr>)"

record RestrictSpec =
  rs_PrivilegesToDelete :: u64
  rs_DenyIndexCount :: u32
  rs_RestrictSIDCount :: u32
  rs_Payload :: bytes
  rs_Flags :: u32

definition Restrict :: "'w token_kernel \<Rightarrow> Token \<Rightarrow> RestrictSpec \<Rightarrow> ('w, Token) io" where
  "Restrict K t spec =
     ioctl_get ''libp/token: restrict: '' (tk_restrict K (tok_fd t))
       \<lparr>ra_Privs_to_delete = rs_PrivilegesToDelete spec, ra_Num_deny_indices = rs_DenyIndexCount spec,
        ra_Num_restrict_sids = rs_RestrictSIDCount spec, ra_Data = counted (rs_Payload spec), ra_Flags = rs_Flags spec,
        ra_Result_fd = -1\<rparr>
       (\<lambda>a. \<lparr>tok_fd = ra_Result_fd a\<rparr>)"

definition Install :: "'w token_kernel \<Rightarrow> Token \<Rightarrow> ('w, unit) io" where
  "Install K t = called ''libp/token: install: '' (tk_install K (tok_fd t))"

definition LinkTokens :: "'w token_kernel \<Rightarrow> Token \<Rightarrow> Token \<Rightarrow> u64 \<Rightarrow> ('w, unit) io" where
  "LinkTokens K t filtered session =
     called ''libp/token: link tokens: '' (tk_link K (tok_fd t) (int32 (tok_fd t)) (int32 (tok_fd filtered)) session)"

definition LinkedToken :: "'w token_kernel \<Rightarrow> Token \<Rightarrow> ('w, Token) io" where
  "LinkedToken K t = ioctl_get ''libp/token: linked token: '' (tk_linked K (tok_fd t)) (-1) (\<lambda>fd. \<lparr>tok_fd = fd\<rparr>)"

text \<open>The kernel reads as many entries as the 32-bit count says.\<close>

definition counted_list :: "'a list \<Rightarrow> 'a list" where
  "counted_list xs = take (unat (of_nat (length xs) :: u32)) xs"

definition AdjustPrivileges :: "'w token_kernel \<Rightarrow> Token \<Rightarrow> PrivEntry list \<Rightarrow> ('w, u64) io" where
  "AdjustPrivileges K t entries =
     (if entries = [] then failIO (Wrap ''libp/token: adjust privileges: '' EINVAL)
      else ioctl_get ''libp/token: adjust privileges: '' (tk_adjust_privs K (tok_fd t))
        \<lparr>pr_Data = counted_list entries, pr_Previous_enabled = 0\<rparr> pr_Previous_enabled)"

record GroupEntry =
  ge_Index :: u32
  ge_Enabled :: bool

definition raw_group :: "GroupEntry \<Rightarrow> kacs_group_entry" where
  "raw_group e = \<lparr>kg_Index = ge_Index e, kg_Enable = (if ge_Enabled e then 1 else 0)\<rparr>"

definition AdjustGroups :: "'w token_kernel \<Rightarrow> Token \<Rightarrow> GroupEntry list \<Rightarrow> ('w, u64 list) io" where
  "AdjustGroups K t entries =
     (if entries = [] then failIO (Wrap ''libp/token: adjust groups: '' EINVAL)
      else ioctl_get ''libp/token: adjust groups: '' (tk_adjust_groups K (tok_fd t))
        \<lparr>gr_Data = counted_list (map raw_group entries), gr_Previous_state = replicate 16 0\<rparr> gr_Previous_state)"

definition AdjustDefault :: "'w token_kernel \<Rightarrow> Token \<Rightarrow> bytes \<Rightarrow> u16 \<Rightarrow> u16 \<Rightarrow> ('w, unit) io" where
  "AdjustDefault K t dacl ownerIndex groupIndex =
     called ''libp/token: adjust default: '' (tk_adjust_default K (tok_fd t) (counted dacl) ownerIndex groupIndex)"

definition SetSessionID :: "'w token_kernel \<Rightarrow> Token \<Rightarrow> u32 \<Rightarrow> ('w, unit) io" where
  "SetSessionID K t v = called ''libp/token: set session id: '' (tk_adjust_sessionid K (tok_fd t) v)"

section \<open>Sessions\<close>

definition CreateSession :: "'w token_kernel \<Rightarrow> bytes \<Rightarrow> ('w, u64) io" where
  "CreateSession K spec = wrapIO ''libp/token: create session: '' (retried (tk_create_session K spec))"

definition DestroyEmptySession :: "'w token_kernel \<Rightarrow> u64 \<Rightarrow> ('w, unit) io" where
  "DestroyEmptySession K v = called ''libp/token: destroy empty session: '' (tk_destroy_session K v)"

definition SetPSB :: "'w token_kernel \<Rightarrow> int \<Rightarrow> u32 \<Rightarrow> ('w, unit) io" where
  "SetPSB K pidfd mitigations = called ''libp/token: set psb: '' (tk_set_psb K pidfd mitigations)"

definition SetImpersonationLevel :: "'w token_kernel \<Rightarrow> int \<Rightarrow> u32 \<Rightarrow> ('w, unit) io" where
  "SetImpersonationLevel K sockfd level =
     called ''libp/token: set impersonation level: '' (tk_set_level K sockfd level)"

section \<open>Information classes\<close>

text \<open>The constants of the binding.\<close>

record token_abi =
  ClassUser :: u32
  ClassGroups :: u32
  ClassPrivileges :: u32
  ClassType :: u32
  ClassIntegrityLevel :: u32
  ClassOwner :: u32
  ClassPrimaryGroup :: u32
  ClassSessionID :: u32
  ClassRestrictedSIDs :: u32
  ClassSource :: u32
  ClassStatistics :: u32
  ClassOrigin :: u32
  ClassElevationType :: u32
  ClassDeviceGroups :: u32
  ClassAppContainerSID :: u32
  ClassCapabilities :: u32
  ClassMandatoryPolicy :: u32
  ClassLogonType :: u32
  ClassLogonSID :: u32
  ClassDefaultDACL :: u32
  ClassImpersonationLevel :: u32
  ClassUserClaims :: u32
  ClassDeviceClaims :: u32
  ClassProjectedSupplementaryGIDs :: u32
  TypePrimary :: u32
  TypeImpersonation :: u32
  LevelAnonymous :: u32
  LevelIdentification :: u32
  LevelImpersonation :: u32
  LevelDelegation :: u32
  ElevationDefault :: u32
  ElevationFull :: u32
  ElevationLimited :: u32

definition token_Query :: "'w token_kernel \<Rightarrow> Token \<Rightarrow> u32 \<Rightarrow> ('w, bytes) io" where
  "token_Query K t cls w =
     (case ioctl_rw (tk_query K (tok_fd t)) \<lparr>tq_Token_class = cls, tq_Buf = [], tq_Buf_len = 0\<rparr> w of None \<Rightarrow> None
      | Some (Some e, _, w) \<Rightarrow> Some (Inl (Wrap ''libp/token: query class: '' e), w)
      | Some (None, a, w) \<Rightarrow>
          let n = tq_Buf_len a in
          if n = 0 then Some (Inr [], w)
          else
            (case ioctl_rw (tk_query K (tok_fd t)) \<lparr>tq_Token_class = cls, tq_Buf = zeros n, tq_Buf_len = n\<rparr> w of
               None \<Rightarrow> None
             | Some (Some e, _, w) \<Rightarrow> Some (Inl (Wrap ''libp/token: query class: '' e), w)
             | Some (None, a, w) \<Rightarrow>
                 let got = tq_Buf_len a in
                 if got > n then Some (Inl (Errorf ''libp/token: query class: kernel wrote  bytes into a -byte buffer''), w)
                 else Some (slice (tq_Buf a) 0 (unat got), w)))"

definition sidClass :: "'w token_kernel \<Rightarrow> Token \<Rightarrow> u32 \<Rightarrow> ('w, SID) io" where
  "sidClass K t cls =
     bindIO (token_Query K t cls) (\<lambda>b w. Some (wrapE ''libp/token: query class: '' (ParseSID b), w))"

definition UserSID :: "'w token_kernel \<Rightarrow> token_abi \<Rightarrow> Token \<Rightarrow> ('w, SID) io" where
  "UserSID K A t = sidClass K t (ClassUser A)"
definition PrimaryGroupSID :: "'w token_kernel \<Rightarrow> token_abi \<Rightarrow> Token \<Rightarrow> ('w, SID) io" where
  "PrimaryGroupSID K A t = sidClass K t (ClassPrimaryGroup A)"
definition OwnerSID :: "'w token_kernel \<Rightarrow> token_abi \<Rightarrow> Token \<Rightarrow> ('w, SID) io" where
  "OwnerSID K A t = sidClass K t (ClassOwner A)"
definition IntegrityLevel :: "'w token_kernel \<Rightarrow> token_abi \<Rightarrow> Token \<Rightarrow> ('w, SID) io" where
  "IntegrityLevel K A t = sidClass K t (ClassIntegrityLevel A)"

definition u32Class :: "'w token_kernel \<Rightarrow> Token \<Rightarrow> u32 \<Rightarrow> ('w, u32) io" where
  "u32Class K t cls =
     bindIO (token_Query K t cls) (\<lambda>b w.
       Some (if length b < 4 then Inl (Errorf ''libp/token: query class: want 4 bytes, got '') else get_le32 b, w))"

definition one_of :: "u32 list \<Rightarrow> string \<Rightarrow> u32 \<Rightarrow> ('w, u32) io" where
  "one_of known msg v = (if v \<in> set known then retIO v else failIO (Errorf msg))"

definition TokenType :: "'w token_kernel \<Rightarrow> token_abi \<Rightarrow> Token \<Rightarrow> ('w, u32) io" where
  "TokenType K A t =
     bindIO (u32Class K t (ClassType A)) (one_of [TypePrimary A, TypeImpersonation A] ''libp/token: unknown token type'')"

definition ImpersonationLevel :: "'w token_kernel \<Rightarrow> token_abi \<Rightarrow> Token \<Rightarrow> ('w, u32) io" where
  "ImpersonationLevel K A t =
     bindIO (u32Class K t (ClassImpersonationLevel A))
       (one_of [LevelAnonymous A, LevelIdentification A, LevelImpersonation A, LevelDelegation A]
         ''libp/token: unknown impersonation level'')"

definition ElevationType :: "'w token_kernel \<Rightarrow> token_abi \<Rightarrow> Token \<Rightarrow> ('w, u32) io" where
  "ElevationType K A t =
     bindIO (u32Class K t (ClassElevationType A))
       (one_of [ElevationDefault A, ElevationFull A, ElevationLimited A] ''libp/token: unknown elevation type'')"

definition SessionID :: "'w token_kernel \<Rightarrow> token_abi \<Rightarrow> Token \<Rightarrow> ('w, u32) io" where
  "SessionID K A t = u32Class K t (ClassSessionID A)"

section \<open>Scoped impersonation\<close>

type_synonym 'w thread = "nat \<times> 'w"

definition LockOSThread :: "'w thread \<Rightarrow> 'w thread" where "LockOSThread = (\<lambda>(n, w). (n + 1, w))"
definition UnlockOSThread :: "'w thread \<Rightarrow> 'w thread" where "UnlockOSThread = (\<lambda>(n, w). (n - 1, w))"

definition on_thread :: "('w, 'a) io \<Rightarrow> ('w thread, 'a) io" where
  "on_thread m = (\<lambda>(n, w). map_option (\<lambda>(r, w). (r, (n, w))) (m w))"

definition revert :: "'w token_kernel \<Rightarrow> ('w, unit) io" where
  "revert K = discard (retried (tk_revert K))"

text \<open>\<open>errors.Join(err, e)\<close>; a panic of the closure goes on past the deferred function.\<close>

definition joined :: "unit result \<Rightarrow> gerr \<Rightarrow> unit result" where
  "joined r e = Inl (case r of Inr _ \<Rightarrow> Join [e] | Inl d \<Rightarrow> if d = Panic then Panic else Join [d, e])"

definition impersonateScoped :: "'w token_kernel \<Rightarrow> ('w thread, unit) io \<Rightarrow> ('w thread, unit) io \<Rightarrow> ('w thread, unit) io" where
  "impersonateScoped K establish fn v =
     (case establish (LockOSThread v) of None \<Rightarrow> None
      | Some (Inl e, v) \<Rightarrow> Some (Inl e, if e = Panic then v else UnlockOSThread v)
      | Some (Inr _, v) \<Rightarrow>
          (case fn v of None \<Rightarrow> None
           | Some (r, v) \<Rightarrow>
               (case on_thread (revert K) v of None \<Rightarrow> None
                | Some (Inl e, v) \<Rightarrow> Some (joined r (Wrap ''libp/token: revert: '' e), v)
                | Some (Inr _, v) \<Rightarrow> Some (r, UnlockOSThread v))))"

definition Impersonate :: "'w token_kernel \<Rightarrow> Token \<Rightarrow> ('w thread, unit) io \<Rightarrow> ('w thread, unit) io" where
  "Impersonate K t fn =
     impersonateScoped K (on_thread (called ''libp/token: impersonate: '' (tk_impersonate K (tok_fd t)))) fn"

definition ImpersonatePeer :: "'w token_kernel \<Rightarrow> int \<Rightarrow> ('w thread, unit) io \<Rightarrow> ('w thread, unit) io" where
  "ImpersonatePeer K sockfd fn =
     impersonateScoped K (on_thread (called ''libp/token: impersonate peer: '' (tk_impersonate_peer K sockfd))) fn"

section \<open>A thread in the pool does not impersonate\<close>

text \<open>
  What the kernel promises of a thread's identity, \<open>None\<close> being its own: a successful
  impersonation sets it, a successful revert clears it, a failed or interrupted call leaves it.
\<close>

definition sets_to :: "('w \<Rightarrow> 'i) \<Rightarrow> 'i \<Rightarrow> 'w syscall \<Rightarrow> bool" where
  "sets_to ident i k \<longleftrightarrow> (\<forall>w. case k w of ((r, e), w') \<Rightarrow> ident w' = (if e = 0 then i else ident w))"

definition identity_ok :: "'w token_kernel \<Rightarrow> ('w \<Rightarrow> 'i option) \<Rightarrow> (int \<Rightarrow> 'i) \<Rightarrow> (int \<Rightarrow> 'i) \<Rightarrow> bool" where
  "identity_ok K ident who peer \<longleftrightarrow>
     (\<forall>fd. sets_to ident (Some (who fd)) (tk_impersonate K fd)) \<and>
     (\<forall>fd. sets_to ident (Some (peer fd)) (tk_impersonate_peer K fd)) \<and> sets_to ident None (tk_revert K)"

lemma sets_toD: "sets_to ident i k \<Longrightarrow> k w = ((r, e), w') \<Longrightarrow> ident w' = (if e = 0 then i else ident w)"
  by (auto simp: sets_to_def split: prod.splits)

lemma sets_to_interrupted: "interrupted k n w w' \<Longrightarrow> sets_to ident i k \<Longrightarrow> ident w' = ident w"
proof (induction rule: interrupted.induct)
  case (interrupted_Suc w r w1 n w2)
  then show ?case using sets_toD [OF interrupted_Suc(4,1)] by simp
qed simp

lemma sets_to_retried:
  assumes "sets_to ident i k" and "retried k w = Some (q, w')"
  shows "ident w' = (case q of Inr _ \<Rightarrow> i | Inl _ \<Rightarrow> ident w)" and "q \<noteq> Inl Panic"
proof -
  obtain x err where "Retry k w = Some ((x, err), w')" and q: "q = (case err of None \<Rightarrow> Inr x | Some e \<Rightarrow> Inl e)"
    using assms(2) by (auto simp: retried_def split: option.splits prod.splits)
  then obtain n u e where "interrupted k n w u" "k u = ((x, e), w')"
      and err: "err = (if e = 0 then None else Some (Errno (ucast e)))"
    by (auto dest!: Retry_SomeD)
  then show "ident w' = (case q of Inr _ \<Rightarrow> i | Inl _ \<Rightarrow> ident w)" "q \<noteq> Inl Panic"
    using sets_to_interrupted [OF _ assms(1)] sets_toD [OF assms(1)] q err by (auto split: if_splits)
qed

lemma sets_to_called:
  assumes "sets_to ident i k" and "called msg k w = Some (q, w')"
  shows "q = Inr () \<and> ident w' = i \<or> (\<exists>e. q = Inl (Wrap msg e)) \<and> ident w' = ident w"
proof -
  obtain q0 where "discard (retried k) w = Some (q0, w')" and q: "q = wrapE msg q0"
    using assms(2) by (auto simp: called_def elim: wrapIO_SomeD)
  then obtain q1 where "retried k w = Some (q1, w')" "q0 = (case q1 of Inl e \<Rightarrow> Inl e | Inr _ \<Rightarrow> Inr ())"
    by (auto simp: discard_def elim!: bindIO_SomeD)
  with sets_to_retried [OF assms(1) this(1)] q show ?thesis
    by (cases q1) (auto simp: wrapE_Inl)
qed

lemma sets_to_revert:
  assumes "sets_to ident None (tk_revert K)" and "revert K w = Some (q, w')"
  shows "q = Inr () \<and> ident w' = None \<or> (\<exists>e. q = Inl e)"
proof -
  obtain q1 where "retried (tk_revert K) w = Some (q1, w')" "q = (case q1 of Inl e \<Rightarrow> Inl e | Inr _ \<Rightarrow> Inr ())"
    using assms(2) by (auto simp: revert_def discard_def elim!: bindIO_SomeD)
  with sets_to_retried [OF assms(1) this(1)] show ?thesis by (cases q1) auto
qed

text \<open>A closure that leaves the thread's lock count as it found it.\<close>

definition balanced :: "('w thread, unit) io \<Rightarrow> bool" where
  "balanced fn \<longleftrightarrow> (\<forall>v r v'. fn v = Some (r, v') \<longrightarrow> fst v' = fst v)"

definition scoped :: "('w \<Rightarrow> 'i option) \<Rightarrow> 'i \<Rightarrow> string \<Rightarrow> ('w thread, unit) io \<Rightarrow> nat \<Rightarrow> unit result \<Rightarrow> 'w thread \<Rightarrow> bool" where
  "scoped ident i msg fn n r = (\<lambda>(n', w').
     (\<exists>e. r = Inl (Wrap msg e)) \<and> n' = n \<and> ident w' = None
     \<or> (\<exists>w1 r1 w2. ident w1 = Some i \<and> fn (n + 1, w1) = Some (r1, (n + 1, w2)) \<and>
          (r = r1 \<and> n' = n \<and> ident w' = None
           \<or> n' = n + 1 \<and> (\<exists>e. r = joined r1 (Wrap ''libp/token: revert: '' e)))))"

lemma impersonateScoped_scoped:
  assumes "sets_to ident (Some i) k" and "sets_to ident None (tk_revert K)"
    and "ident w = None" and "balanced fn"
    and run: "impersonateScoped K (on_thread (called msg k)) fn (n, w) = Some (r, v')"
  shows "scoped ident i msg fn n r v'"
proof -
  obtain q w1 where s: "called msg k w = Some (q, w1)"
    using run by (cases "called msg k w") (auto simp: impersonateScoped_def on_thread_def LockOSThread_def)
  from sets_to_called [OF assms(1) s] consider
    (refused) e where "q = Inl (Wrap msg e)" "ident w1 = None" | (established) "q = Inr ()" "ident w1 = Some i"
    using assms(3) by auto
  then show ?thesis
  proof cases
    case refused
    then show ?thesis
      using run s by (auto simp: impersonateScoped_def on_thread_def LockOSThread_def UnlockOSThread_def scoped_def)
  next
    case established
    obtain r1 v2 where f: "fn (n + 1, w1) = Some (r1, v2)"
      using run s established
      by (cases "fn (n + 1, w1)") (auto simp: impersonateScoped_def on_thread_def LockOSThread_def)
    then obtain w2 where v2: "v2 = (n + 1, w2)" using assms(4) unfolding balanced_def by (metis fst_conv prod.exhaust)
    obtain q2 w3 where g: "revert K w2 = Some (q2, w3)"
      using run s established f v2
      by (cases "revert K w2") (auto simp: impersonateScoped_def on_thread_def LockOSThread_def)
    have "r = r1 \<and> v' = (n, w3) \<and> ident w3 = None
        \<or> v' = (n + 1, w3) \<and> (\<exists>e. r = joined r1 (Wrap ''libp/token: revert: '' e))"
      using sets_to_revert [OF assms(2) g] run s established f v2 g
      by (auto simp: impersonateScoped_def on_thread_def LockOSThread_def UnlockOSThread_def)
    with established(2) f v2 show ?thesis unfolding scoped_def by blast
  qed
qed

text \<open>C13
  Impersonation is scoped to the closure and to one OS thread. Started on a thread that acts
  under its own identity, \<open>Impersonate\<close> and \<open>ImpersonatePeer\<close> either fail to establish it and
  return without running the closure; or run the closure on the locked thread under exactly
  the requested identity, and then either revert, give the thread back under its own identity
  and return the closure's result, or leave the thread locked and report the failed revert
  joined to the closure's error, a panic excepted, which goes on. A thread that goes back to
  the pool never impersonates.\<close>

theorem Impersonate_scoped:
  assumes "identity_ok K ident who peer" and "ident w = None" and "balanced fn"
    and "Impersonate K t fn (n, w) = Some (r, v)" and "ImpersonatePeer K sockfd fn (n, w) = Some (r', v')"
  shows "scoped ident (who (tok_fd t)) ''libp/token: impersonate: '' fn n r v
    \<and> scoped ident (peer sockfd) ''libp/token: impersonate peer: '' fn n r' v'"
proof -
  have k: "sets_to ident (Some (who (tok_fd t))) (tk_impersonate K (tok_fd t))"
      "sets_to ident (Some (peer sockfd)) (tk_impersonate_peer K sockfd)" "sets_to ident None (tk_revert K)"
    using assms(1) by (simp_all add: identity_ok_def)
  show ?thesis
    using impersonateScoped_scoped [OF k(1,3) assms(2,3)] impersonateScoped_scoped [OF k(2,3) assms(2,3)] assms(4,5)
    unfolding Impersonate_def ImpersonatePeer_def by blast
qed

text \<open>
  Impersonation does not nest: a closure that impersonates again comes back under the
  thread's own identity, not under the outer one.\<close>

theorem nested_impersonation_lost:
  assumes "identity_ok K ident who peer" and "Impersonate K t fn (n, w) = Some (Inr (), (n', w'))"
  shows "ident w' = None"
proof -
  have k: "sets_to ident (Some (who (tok_fd t))) (tk_impersonate K (tok_fd t))" "sets_to ident None (tk_revert K)"
    using assms(1) by (auto simp: identity_ok_def)
  let ?call = "called ''libp/token: impersonate: '' (tk_impersonate K (tok_fd t))"
  obtain q w1 where s: "?call w = Some (q, w1)"
    using assms(2) by (cases "?call w") (auto simp: Impersonate_def impersonateScoped_def on_thread_def LockOSThread_def)
  have "q = Inr ()"
    using sets_to_called [OF k(1) s] assms(2) s
    by (auto simp: Impersonate_def impersonateScoped_def on_thread_def LockOSThread_def UnlockOSThread_def)
  then obtain r1 n2 w2 where f: "fn (n + 1, w1) = Some (r1, (n2, w2))"
    using assms(2) s
    by (cases "fn (n + 1, w1)") (auto simp: Impersonate_def impersonateScoped_def on_thread_def LockOSThread_def)
  obtain q2 w3 where g: "revert K w2 = Some (q2, w3)"
    using assms(2) s f \<open>q = Inr ()\<close>
    by (cases "revert K w2") (auto simp: Impersonate_def impersonateScoped_def on_thread_def LockOSThread_def)
  from sets_to_revert [OF k(2) g] show ?thesis
    using assms(2) s f g \<open>q = Inr ()\<close>
    by (auto simp: Impersonate_def impersonateScoped_def on_thread_def LockOSThread_def UnlockOSThread_def joined_def)
qed

section \<open>What the accessors return\<close>

text \<open>
  The kernel's side of \<open>KACS_IOC_QUERY\<close>: an empty buffer asks for the size, a buffer that is
  large enough is filled.\<close>

definition holds_class :: "'w token_kernel \<Rightarrow> Token \<Rightarrow> u32 \<Rightarrow> bytes \<Rightarrow> 'w \<Rightarrow> bool" where
  "holds_class K t cls d w \<longleftrightarrow> length d < 2 ^ 32 \<and> (\<forall>b. b = [] \<or> length d \<le> length b \<longrightarrow>
     tk_query K (tok_fd t) (\<lparr>tq_Token_class = cls, tq_Buf = b, tq_Buf_len = of_nat (length b)\<rparr>, w)
       = ((0, 0), (\<lparr>tq_Token_class = cls, tq_Buf = if b = [] then [] else fill d b, tq_Buf_len = of_nat (length d)\<rparr>, w)))"

lemma Query_holds:
  assumes "holds_class K t cls d w"
  shows "token_Query K t cls w = Some (Inr d, w)"
proof -
  have n: "length d < 2 ^ 32" using assms by (simp add: holds_class_def)
  have c: "ioctl_rw (tk_query K (tok_fd t)) \<lparr>tq_Token_class = cls, tq_Buf = b, tq_Buf_len = of_nat (length b)\<rparr> w
      = Some (None, \<lparr>tq_Token_class = cls, tq_Buf = if b = [] then [] else fill d b, tq_Buf_len = of_nat (length d)\<rparr>, w)"
    if b: "b = [] \<or> length d \<le> length b" for b
  proof -
    have "tk_query K (tok_fd t) (\<lparr>tq_Token_class = cls, tq_Buf = b, tq_Buf_len = of_nat (length b)\<rparr>, w)
       = ((0, 0), (\<lparr>tq_Token_class = cls, tq_Buf = if b = [] then [] else fill d b, tq_Buf_len = of_nat (length d)\<rparr>, w))"
      using assms b unfolding holds_class_def by blast
    from ioctl_rw_final [of "tk_query K (tok_fd t)", OF this] show ?thesis by (simp del: EINTR_nz add: syscall_EINTR_def)
  qed
  have u: "unat (of_nat (length d) :: u32) = length d" using n by simp
  have p: "ioctl_rw (tk_query K (tok_fd t)) \<lparr>tq_Token_class = cls, tq_Buf = [], tq_Buf_len = 0\<rparr> w
      = Some (None, \<lparr>tq_Token_class = cls, tq_Buf = [], tq_Buf_len = of_nat (length d)\<rparr>, w)"
    using c [of "[]"] by simp
  show ?thesis
  proof (cases "d = []")
    case True
    with p show ?thesis by (simp add: token_Query_def)
  next
    case False
    have z: "(of_nat (length d) :: u32) \<noteq> 0" using u False by auto
    have l: "length (zeros (of_nat (length d))) = length d" using length_zeros [OF n] .
    then have "zeros (of_nat (length d)) \<noteq> []" using False by auto
    with c [of "zeros (of_nat (length d))"] l
    have q: "ioctl_rw (tk_query K (tok_fd t))
        \<lparr>tq_Token_class = cls, tq_Buf = zeros (of_nat (length d)), tq_Buf_len = of_nat (length d)\<rparr> w
      = Some (None, \<lparr>tq_Token_class = cls, tq_Buf = fill d (zeros (of_nat (length d))), tq_Buf_len = of_nat (length d)\<rparr>, w)"
      by simp
    show ?thesis unfolding token_Query_def by (simp add: p q z Let_def slice_fill(1) u)
  qed
qed

text \<open>
  The typed accessors read exactly what the kernel stores for the class, through the probe
  and the fetch: a SID accessor returns \<open>s\<close> if and only if the stored bytes begin with the
  canonical encoding of the valid SID \<open>s\<close>, and an integer accessor returns \<open>v\<close> if and only if
  they begin with the four bytes of \<open>v\<close>; anything else is an error, never a panic.\<close>

theorem token_accessors:
  assumes "holds_class K t cls d w"
  shows "(\<exists>r. sidClass K t cls w = Some (r, w) \<and> no_panic r \<and> (\<forall>s. r = Inr s \<longleftrightarrow> valid_sid s \<and> (\<exists>rest. d = SID_Bytes s @ rest)))
    \<and> (\<exists>r. u32Class K t cls w = Some (r, w) \<and> no_panic r \<and> (\<forall>v. r = Inr v \<longleftrightarrow> (\<exists>rest. d = le32 v @ rest)))"
proof
  have "ParseSID d = Inr s \<longleftrightarrow> valid_sid s \<and> (\<exists>rest. d = SID_Bytes s @ rest)" for s
    using ParseSID_sound [of d s] ParseSID_round [of s] by (metis append_take_drop_id)
  then show "\<exists>r. sidClass K t cls w = Some (r, w) \<and> no_panic r \<and> (\<forall>s. r = Inr s \<longleftrightarrow> valid_sid s \<and> (\<exists>rest. d = SID_Bytes s @ rest))"
    using Query_holds [OF assms] ParseSID_no_panic [of d]
    by (auto simp: sidClass_def no_panic_def wrapE_panic)
  have "4 \<le> length d \<Longrightarrow> get_le32 d = Inr v \<longleftrightarrow> (\<exists>rest. d = le32 v @ rest)" for v
    using le_bytes_le_val_take [of 4 d, where 'a = 32] append_take_drop_id [of 4 d, symmetric]
    by (auto simp: go_simps codec_simps intro: exI [of _ "drop 4 d"])
  then show "\<exists>r. u32Class K t cls w = Some (r, w) \<and> no_panic r \<and> (\<forall>v. r = Inr v \<longleftrightarrow> (\<exists>rest. d = le32 v @ rest))"
    using Query_holds [OF assms] by (auto simp: u32Class_def go_simps)
qed

text \<open>A kernel whose state is the thread's identity, and which stores one class.\<close>

definition sample_tokens :: "int option token_kernel" where
  "sample_tokens = \<lparr>tk_open_self = \<lambda>_ _ w. ((3, 0), w), tk_open_process = \<lambda>_ _ w. ((3, 0), w),
     tk_open_thread = \<lambda>_ _ _ w. ((3, 0), w), tk_open_peer = \<lambda>_ w. ((3, 0), w), tk_create = \<lambda>_ w. ((3, 0), w),
     tk_close = \<lambda>_ w. ((0, 0), w),
     tk_query = \<lambda>_ (a, w). ((0, 0), (a\<lparr>tq_Buf := if tq_Buf a = [] then [] else fill (le32 7) (tq_Buf a), tq_Buf_len := 4\<rparr>, w)),
     tk_duplicate = \<lambda>_ s. ((0, 0), s), tk_restrict = \<lambda>_ s. ((0, 0), s), tk_install = \<lambda>_ w. ((0, 0), w),
     tk_link = \<lambda>_ _ _ _ w. ((0, 0), w), tk_linked = \<lambda>_ s. ((0, 2), s), tk_adjust_privs = \<lambda>_ s. ((0, 0), s),
     tk_adjust_groups = \<lambda>_ s. ((0, 0), s), tk_adjust_default = \<lambda>_ _ _ _ w. ((0, 0), w),
     tk_adjust_sessionid = \<lambda>_ _ w. ((0, 0), w), tk_impersonate = \<lambda>fd _. ((0, 0), Some fd),
     tk_impersonate_peer = \<lambda>fd _. ((0, 0), Some (100 + fd)), tk_revert = \<lambda>_. ((0, 0), None),
     tk_set_level = \<lambda>_ _ w. ((0, 0), w), tk_create_session = \<lambda>_ w. ((9, 0), w),
     tk_destroy_session = \<lambda>_ w. ((0, 0), w), tk_set_psb = \<lambda>_ _ w. ((0, 0), w)\<rparr>"

definition sample_token :: Token where "sample_token = \<lparr>tok_fd = 3\<rparr>"

theorem Impersonate_scoped_witness:
  "\<exists>r v r' v'. Impersonate sample_tokens sample_token (retIO ()) (0, None) = Some (r, v)
     \<and> ImpersonatePeer sample_tokens 5 (retIO ()) (0, None) = Some (r', v')
     \<and> scoped (\<lambda>w. w) 3 ''libp/token: impersonate: '' (retIO ()) 0 r v
     \<and> scoped (\<lambda>w. w) 105 ''libp/token: impersonate peer: '' (retIO ()) 0 r' v'"
proof -
  have k: "identity_ok sample_tokens (\<lambda>w. w) (\<lambda>fd. fd) (\<lambda>fd. 100 + fd)"
    by (simp add: identity_ok_def sets_to_def sample_tokens_def)
  have f: "balanced (retIO ())" by (simp add: balanced_def)
  have 1: "Impersonate sample_tokens sample_token (retIO ()) (0, None) = Some (Inr (), (0, None))"
    by code_simp
  have 2: "ImpersonatePeer sample_tokens 5 (retIO ()) (0, None) = Some (Inr (), (0, None))"
    by code_simp
  show ?thesis using Impersonate_scoped [OF k refl f 1 2] 1 2 by (simp add: sample_token_def)
qed

theorem token_accessors_witness:
  "(\<exists>r. sidClass sample_tokens sample_token 1 None = Some (r, None) \<and> no_panic r
      \<and> (\<forall>s. r = Inr s \<longleftrightarrow> valid_sid s \<and> (\<exists>rest. le32 7 = SID_Bytes s @ rest)))
   \<and> (\<exists>r. u32Class sample_tokens sample_token 1 None = Some (r, None) \<and> no_panic r
      \<and> (\<forall>v. r = Inr v \<longleftrightarrow> (\<exists>rest. le32 7 = le32 v @ rest)))"
proof (rule token_accessors)
  show "holds_class sample_tokens sample_token 1 (le32 7) None"
    by (auto simp: holds_class_def sample_tokens_def)
qed

end
