(* ===== verification/Files.thy ===== *)
theory Files
  imports Registry
begin

text \<open>
  The package \<^verbatim>\<open>files\<close>: the native open of \<^verbatim>\<open>files/files.go\<close> and the mount policies of
  \<^verbatim>\<open>files/mount.go\<close>.

  The lemmas show that an open owns exactly one descriptor or none, also when the kernel
  reports a status the library does not know, that a policy which is set is read back, and
  that a policy read while it changes can be one that was never in force.
\<close>

section \<open>Opening files\<close>

record files_abi =
  DISPOSITION_OPEN :: u32
  DISPOSITION_CREATE :: u32
  DISPOSITION_OPEN_IF :: u32
  DISPOSITION_SUPERSEDE :: u32
  DISPOSITION_OVERWRITE :: u32
  DISPOSITION_OVERWRITE_IF :: u32
  CREATE_OPT_DIRECTORY :: u32
  CREATE_OPT_DELETE_ON_CLOSE :: u32
  BACKUP_INTENT :: u32
  RESTORE_INTENT :: u32
  StatusOpened :: u32
  StatusCreated :: u32
  StatusOverwritten :: u32
  StatusSuperseded :: u32

definition DispOpen :: u32 where "DispOpen = 0"
definition DispCreate :: u32 where "DispCreate = 1"
definition DispOpenIf :: u32 where "DispOpenIf = 2"
definition DispSupersede :: u32 where "DispSupersede = 3"
definition DispOverwrite :: u32 where "DispOverwrite = 4"
definition DispOverwriteIf :: u32 where "DispOverwriteIf = 5"

definition disposition_kacs :: "files_abi \<Rightarrow> u32 \<Rightarrow> u32 option" where
  "disposition_kacs F d =
     (if d = DispOpen then Some (DISPOSITION_OPEN F)
      else if d = DispCreate then Some (DISPOSITION_CREATE F)
      else if d = DispOpenIf then Some (DISPOSITION_OPEN_IF F)
      else if d = DispSupersede then Some (DISPOSITION_SUPERSEDE F)
      else if d = DispOverwrite then Some (DISPOSITION_OVERWRITE F)
      else if d = DispOverwriteIf then Some (DISPOSITION_OVERWRITE_IF F)
      else None)"

record OpenOptions =
  oo_Access :: u32
  oo_Disposition :: u32
  oo_Directory :: bool
  oo_DeleteOnClose :: bool
  oo_BackupIntent :: bool
  oo_RestoreIntent :: bool
  oo_SecurityDescriptor :: bytes

record open_how =
  oh_Desired_access :: u32
  oh_Create_disposition :: u32
  oh_Create_options :: u32
  oh_Flags :: u32
  oh_Sd :: bytes

record mount_args =
  ma_Policy :: u32
  ma_Generation :: u32
  ma_Template :: bytes
  ma_Template_len :: u32

text \<open>The open writes the status into a word of the caller's.\<close>

record 'w files_kernel =
  fk_open :: "int \<Rightarrow> bytes \<Rightarrow> open_how \<Rightarrow> (u32 \<times> 'w) syscall"
  fk_close :: "int \<Rightarrow> 'w syscall"
  fk_get_mount_policy :: "int \<Rightarrow> (mount_args \<times> 'w) syscall"
  fk_set_mount_policy :: "int \<Rightarrow> (mount_args \<times> 'w) syscall"

record FileHandle =
  fh_fd :: int

definition FileHandle_Close :: "'w files_kernel \<Rightarrow> FileHandle \<Rightarrow> ('w, unit) io \<times> FileHandle" where
  "FileHandle_Close K f = (close_fd (fk_close K) ''libp/files: close: '' (fh_fd f),
     if fh_fd f < 0 then f else f\<lparr>fh_fd := -1\<rparr>)"

definition AT_FDCWD :: int where "AT_FDCWD = - 0x64"

definition how_of :: "files_abi \<Rightarrow> u32 \<Rightarrow> OpenOptions \<Rightarrow> open_how" where
  "how_of F disp opts = \<lparr>oh_Desired_access = oo_Access opts, oh_Create_disposition = disp,
     oh_Create_options = (if oo_Directory opts then CREATE_OPT_DIRECTORY F else 0)
       OR (if oo_DeleteOnClose opts then CREATE_OPT_DELETE_ON_CLOSE F else 0),
     oh_Flags = (if oo_BackupIntent opts then BACKUP_INTENT F else 0)
       OR (if oo_RestoreIntent opts then RESTORE_INTENT F else 0),
     oh_Sd = counted (oo_SecurityDescriptor opts)\<rparr>"

definition known_status :: "files_abi \<Rightarrow> u32 \<Rightarrow> bool" where
  "known_status F st \<longleftrightarrow> st \<in> {StatusOpened F, StatusCreated F, StatusOverwritten F, StatusSuperseded F}"

definition OpenAt ::
  "'w files_kernel \<Rightarrow> files_abi \<Rightarrow> int \<Rightarrow> string \<Rightarrow> OpenOptions \<Rightarrow> ('w, FileHandle \<times> u32) io" where
  "OpenAt K F dirfd path opts w =
     (case disposition_kacs F (oo_Disposition opts) of
        None \<Rightarrow> Some (Inl (Errorf ''libp/files: open: invalid disposition ''), w)
      | Some disp \<Rightarrow>
          (case BytePtrFromString path of
             Inl e \<Rightarrow> Some (Inl (Wrap ''libp/files: open: invalid path: '' e), w)
           | Inr cpath \<Rightarrow>
               (case Retry (fk_open K dirfd cpath (how_of F disp opts)) (0, w) of None \<Rightarrow> None
                | Some ((_, Some e), (_, w)) \<Rightarrow> Some (Inl (Wrap ''libp/files: open: '' e), w)
                | Some ((r, None), (status, w)) \<Rightarrow>
                    let fh = \<lparr>fh_fd = int_of r\<rparr> in
                    if known_status F status then Some (Inr (fh, status), w)
                    else
                      (case fst (FileHandle_Close K fh) w of None \<Rightarrow> None
                       | Some (_, w) \<Rightarrow> Some (Inl (Errorf ''libp/files: open: kernel reported unknown status ''), w)))))"

definition files_Open :: "'w files_kernel \<Rightarrow> files_abi \<Rightarrow> string \<Rightarrow> OpenOptions \<Rightarrow> ('w, FileHandle \<times> u32) io" where
  "files_Open K F path opts = OpenAt K F AT_FDCWD path opts"

section \<open>Mount policies\<close>

record MountPolicy =
  mp_Policy :: u32
  mp_Generation :: u32
  mp_TemplateSD :: bytes

definition mountPolicyCall :: "(mount_args \<times> 'w) syscall \<Rightarrow> mount_args \<Rightarrow> 'w \<Rightarrow> (gerr option \<times> mount_args \<times> 'w) option" where
  "mountPolicyCall trap args w =
     (case Retry trap (args, w) of None \<Rightarrow> None | Some ((_, err), (args, w)) \<Rightarrow> Some (err, args, w))"

definition GetMountPolicy :: "'w files_kernel \<Rightarrow> int \<Rightarrow> ('w, MountPolicy) io" where
  "GetMountPolicy K fd w =
     (case mountPolicyCall (fk_get_mount_policy K fd)
         \<lparr>ma_Policy = 0, ma_Generation = 0, ma_Template = [], ma_Template_len = 0\<rparr> w of None \<Rightarrow> None
      | Some (Some e, _, w) \<Rightarrow> Some (Inl (Wrap ''libp/files: get mount policy: '' e), w)
      | Some (None, a, w) \<Rightarrow>
          let mp = \<lparr>mp_Policy = ma_Policy a, mp_Generation = ma_Generation a, mp_TemplateSD = []\<rparr>;
              buf = zeros (ma_Template_len a) in
          if ma_Template_len a = 0 then Some (Inr mp, w)
          else
            (case mountPolicyCall (fk_get_mount_policy K fd)
                \<lparr>ma_Policy = 0, ma_Generation = 0, ma_Template = buf, ma_Template_len = of_nat (length buf)\<rparr> w of
               None \<Rightarrow> None
             | Some (Some e, _, w) \<Rightarrow> Some (Inl (Wrap ''libp/files: get mount policy: '' e), w)
             | Some (None, a, w) \<Rightarrow> Some (Inr (mp\<lparr>mp_TemplateSD := ma_Template a\<rparr>), w)))"

definition SetMountPolicy :: "'w files_kernel \<Rightarrow> int \<Rightarrow> MountPolicy \<Rightarrow> ('w, unit) io" where
  "SetMountPolicy K fd mp w =
     (case mountPolicyCall (fk_set_mount_policy K fd)
         \<lparr>ma_Policy = mp_Policy mp, ma_Generation = mp_Generation mp, ma_Template = counted (mp_TemplateSD mp),
          ma_Template_len = of_nat (length (mp_TemplateSD mp))\<rparr> w of None \<Rightarrow> None
      | Some (Some e, _, w) \<Rightarrow> Some (Inl (Wrap ''libp/files: set mount policy: '' e), w)
      | Some (None, _, w) \<Rightarrow> Some (Inr (), w))"

lemma mountPolicyCall_eq: "mountPolicyCall = ioctl_rw"
  by (intro ext) (simp add: mountPolicyCall_def ioctl_rw_def)

section \<open>Descriptors\<close>

text \<open>
  What the kernel promises of descriptors: a successful open adds a fresh one, a failed or
  interrupted one adds none, a close frees the one it names whatever it reports.\<close>

definition opened_fd :: "('w \<Rightarrow> int set) \<Rightarrow> int \<Rightarrow> bool \<Rightarrow> 'w \<Rightarrow> 'w \<Rightarrow> bool" where
  "opened_fd fds fd ok w w' \<longleftrightarrow>
     (if ok then 0 \<le> fd \<and> fd \<notin> fds w \<and> fds w' = insert fd (fds w) else fds w' = fds w)"

definition tracks_fds :: "'w files_kernel \<Rightarrow> ('w \<Rightarrow> int set) \<Rightarrow> bool" where
  "tracks_fds K fds \<longleftrightarrow>
     (\<forall>fd p h s r e s'. fk_open K fd p h s = ((r, e), s') \<longrightarrow> opened_fd fds (int_of r) (e = 0) (snd s) (snd s'))
     \<and> (\<forall>fd w q w'. fk_close K fd w = (q, w') \<longrightarrow> fds w' = fds w - {fd})"

lemma tracks_fdsD:
  assumes "tracks_fds K fds"
  shows "fk_open K fd p h s = ((r, e), s') \<Longrightarrow> opened_fd fds (int_of r) (e = 0) (snd s) (snd s')"
    and "fk_close K fd w = (q, w') \<Longrightarrow> fds w' = fds w - {fd}"
  using assms unfolding tracks_fds_def by blast+

lemma tracks_open_interrupted:
  "interrupted (fk_open K fd p h) n s s' \<Longrightarrow> tracks_fds K fds \<Longrightarrow> fds (snd s') = fds (snd s)"
proof (induction rule: interrupted.induct)
  case (interrupted_Suc s r s1 n s2)
  then show ?case using tracks_fdsD(1) [OF _ interrupted_Suc(1)] by (simp add: opened_fd_def)
qed simp

lemma tracks_open:
  assumes "tracks_fds K fds" and "Retry (fk_open K fd p h) (st, w) = Some ((r, err), (st', w'))"
  shows "opened_fd fds (int_of r) (err = None) w w'"
proof -
  obtain n u e where u: "interrupted (fk_open K fd p h) n (st, w) u" "fk_open K fd p h u = ((r, e), (st', w'))"
      "err = (if e = 0 then None else Some (Errno (ucast e)))"
    using Retry_SomeD [OF assms(2)] by auto
  show ?thesis
    using tracks_open_interrupted [OF u(1) assms(1)] tracks_fdsD(1) [OF assms(1) u(2)] u(3)
    by (auto simp: opened_fd_def split: if_splits)
qed

lemma FileHandle_Close_frees:
  assumes "tracks_fds K fds" and "0 \<le> fh_fd f"
  shows "\<exists>q w'. fst (FileHandle_Close K f) w = Some (q, w') \<and> fds w' = fds w - {fh_fd f}"
proof -
  obtain r e w' where c: "fk_close K (fh_fd f) w = ((r, e), w')" by (metis prod.exhaust)
  then have "fds w' = fds w - {fh_fd f}" using tracks_fdsD(2) [OF assms(1)] by blast
  then show ?thesis
    using c assms(2) by (simp add: FileHandle_Close_def close_fd_def wrapIO_def discard_def once_def bindIO_def)
qed

text \<open>C35
  An open owns one descriptor or none. Whenever \<open>OpenAt\<close> fails, because of its arguments, the
  kernel's refusal or a status it does not know, no descriptor is left open; when it succeeds,
  exactly one fresh descriptor is, the one in the handle, with a status of the documented
  four, and closing the handle frees it.\<close>

theorem OpenAt_owns:
  assumes "tracks_fds K fds" and "OpenAt K F dirfd path opts w = Some (r, w')"
  shows "case r of Inl _ \<Rightarrow> fds w' = fds w
    | Inr (f, st) \<Rightarrow> known_status F st \<and> fh_fd f \<notin> fds w \<and> fds w' = insert (fh_fd f) (fds w)
        \<and> (\<exists>q w2. fst (FileHandle_Close K f) w' = Some (q, w2) \<and> fds w2 = fds w)"
proof (cases "\<exists>d p. disposition_kacs F (oo_Disposition opts) = Some d \<and> BytePtrFromString path = Inr p")
  case False
  then show ?thesis using assms(2) by (auto simp: OpenAt_def split: option.splits sum.splits)
next
  case True
  then obtain d p where dp: "disposition_kacs F (oo_Disposition opts) = Some d" "BytePtrFromString path = Inr p" by blast
  then obtain x err st w1 where o: "Retry (fk_open K dirfd p (how_of F d opts)) (0, w) = Some ((x, err), (st, w1))"
    using assms(2) by (cases "Retry (fk_open K dirfd p (how_of F d opts)) (0, w)") (auto simp: OpenAt_def)
  note t = tracks_open [OF assms(1) o, unfolded opened_fd_def]
  show ?thesis
  proof (cases err)
    case (Some e)
    then show ?thesis using assms(2) dp o t by (auto simp: OpenAt_def)
  next
    case None
    let ?f = "\<lparr>fh_fd = int_of x\<rparr>"
    obtain q w2 where c: "fst (FileHandle_Close K ?f) w1 = Some (q, w2)" "fds w2 = fds w1 - {int_of x}"
      using FileHandle_Close_frees [OF assms(1), of ?f w1] t None by auto
    show ?thesis using assms(2) dp o t c None by (auto simp: OpenAt_def Let_def split: if_splits)
  qed
qed

section \<open>Reading back a policy\<close>

text \<open>The kernel's side: the call reports policy, generation and the template's length, and
  fills a buffer that is large enough.\<close>

definition holds_policy :: "'w files_kernel \<Rightarrow> int \<Rightarrow> MountPolicy \<Rightarrow> 'w \<Rightarrow> bool" where
  "holds_policy K fd mp w \<longleftrightarrow> length (mp_TemplateSD mp) < 2 ^ 32 \<and> (\<forall>a.
     fk_get_mount_policy K fd (a, w) = ((0, 0), (a\<lparr>ma_Policy := mp_Policy mp, ma_Generation := mp_Generation mp,
       ma_Template_len := of_nat (length (mp_TemplateSD mp)),
       ma_Template := if length (mp_TemplateSD mp) \<le> length (ma_Template a)
         then fill (mp_TemplateSD mp) (ma_Template a) else ma_Template a\<rparr>, w)))"

lemma GetMountPolicy_holds:
  assumes "holds_policy K fd mp w"
  shows "GetMountPolicy K fd w = Some (Inr mp, w)"
proof -
  let ?d = "mp_TemplateSD mp"
  have n: "length ?d < 2 ^ 32" using assms by (simp add: holds_policy_def)
  have u: "unat (of_nat (length ?d) :: u32) = length ?d" using n by simp
  have c: "ioctl_rw (fk_get_mount_policy K fd) a w = Some (None, a\<lparr>ma_Policy := mp_Policy mp,
      ma_Generation := mp_Generation mp, ma_Template_len := of_nat (length ?d),
      ma_Template := if length ?d \<le> length (ma_Template a) then fill ?d (ma_Template a) else ma_Template a\<rparr>, w)" for a
    using assms ioctl_rw_final [of "fk_get_mount_policy K fd" a w 0 0] by (simp add: holds_policy_def)
  have l: "length (zeros (of_nat (length ?d))) = length ?d" using length_zeros [OF n] .
  show ?thesis
  proof (cases "?d = []")
    case True
    then show ?thesis by (simp add: GetMountPolicy_def mountPolicyCall_eq c Let_def)
  next
    case False
    then have "(of_nat (length ?d) :: u32) \<noteq> 0" using u by auto
    then show ?thesis using l by (simp add: GetMountPolicy_def mountPolicyCall_eq c Let_def fill_def)
  qed
qed

text \<open>A set only reads its argument block; when it succeeds, its policy is in force.\<close>

definition keeps_policy :: "'w files_kernel \<Rightarrow> int \<Rightarrow> bool" where
  "keeps_policy K fd \<longleftrightarrow> (\<forall>s r e s'. fk_set_mount_policy K fd s = ((r, e), s') \<longrightarrow> fst s' = fst s \<and> (e = 0 \<longrightarrow>
     (\<exists>g. holds_policy K fd \<lparr>mp_Policy = ma_Policy (fst s), mp_Generation = g, mp_TemplateSD = ma_Template (fst s)\<rparr> (snd s'))))"

lemma keeps_policyD:
  assumes "keeps_policy K fd" and "fk_set_mount_policy K fd s = ((r, e), s')"
  shows "fst s' = fst s" and "e = 0 \<Longrightarrow>
    \<exists>g. holds_policy K fd \<lparr>mp_Policy = ma_Policy (fst s), mp_Generation = g, mp_TemplateSD = ma_Template (fst s)\<rparr> (snd s')"
  using assms unfolding keeps_policy_def by blast+

lemma keeps_policy_interrupted:
  "interrupted (fk_set_mount_policy K fd) n s s' \<Longrightarrow> keeps_policy K fd \<Longrightarrow> fst s' = fst s"
proof (induction rule: interrupted.induct)
  case (interrupted_Suc s r s1 n s2)
  then show ?case using keeps_policyD(1) [of K fd s r syscall_EINTR s1] by simp
qed simp

text \<open>C36
  A policy that is set is read back: when the kernel keeps what a successful set passes to it,
  under a generation of its choice, the next \<open>GetMountPolicy\<close> returns the same kind and the same
  template byte for byte, with that generation, which the caller can pass back.\<close>

theorem mount_policy_roundtrip:
  assumes "length (mp_TemplateSD mp) < 2 ^ 32"
    and "SetMountPolicy K fd mp w = Some (Inr (), w')"
    and "keeps_policy K fd"
  shows "\<exists>g. GetMountPolicy K fd w' = Some (Inr (mp\<lparr>mp_Generation := g\<rparr>), w')"
proof -
  let ?a = "\<lparr>ma_Policy = mp_Policy mp, ma_Generation = mp_Generation mp, ma_Template = mp_TemplateSD mp,
    ma_Template_len = of_nat (length (mp_TemplateSD mp))\<rparr>"
  have "counted (mp_TemplateSD mp) = mp_TemplateSD mp" using assms(1) by simp
  then obtain a where "ioctl_rw (fk_set_mount_policy K fd) ?a w = Some (None, a, w')"
    using assms(2) by (auto simp: SetMountPolicy_def mountPolicyCall_eq split: option.splits)
  then obtain r where "Retry (fk_set_mount_policy K fd) (?a, w) = Some ((r, None), (a, w'))"
    by (auto simp: ioctl_rw_def split: option.splits)
  then obtain n s where s: "interrupted (fk_set_mount_policy K fd) n (?a, w) s"
      "fk_set_mount_policy K fd s = ((r, 0), (a, w'))"
    by (auto dest!: Retry_SomeD split: if_splits)
  have "fst s = ?a" using keeps_policy_interrupted [OF s(1) assms(3)] by simp
  then obtain g where "holds_policy K fd \<lparr>mp_Policy = mp_Policy mp, mp_Generation = g, mp_TemplateSD = mp_TemplateSD mp\<rparr> w'"
    using keeps_policyD(2) [OF assms(3) s(2) refl] by auto
  moreover have "\<lparr>mp_Policy = mp_Policy mp, mp_Generation = g, mp_TemplateSD = mp_TemplateSD mp\<rparr> = mp\<lparr>mp_Generation := g\<rparr>"
    by simp
  ultimately show ?thesis using GetMountPolicy_holds by metis
qed

text \<open>A policy that changes between two calls.\<close>

definition old_policy :: MountPolicy where
  "old_policy = \<lparr>mp_Policy = 1, mp_Generation = 1, mp_TemplateSD = [1, 2, 3]\<rparr>"
definition new_policy :: MountPolicy where
  "new_policy = \<lparr>mp_Policy = 2, mp_Generation = 2, mp_TemplateSD = [7]\<rparr>"

definition report :: "MountPolicy \<Rightarrow> mount_args \<Rightarrow> mount_args" where
  "report mp a = a\<lparr>ma_Policy := mp_Policy mp, ma_Generation := mp_Generation mp,
     ma_Template_len := of_nat (length (mp_TemplateSD mp)),
     ma_Template := if length (mp_TemplateSD mp) \<le> length (ma_Template a)
       then fill (mp_TemplateSD mp) (ma_Template a) else ma_Template a\<rparr>"

text \<open>The new policy comes into force after the first call.\<close>

definition changing_kernel :: "bool files_kernel" where
  "changing_kernel = \<lparr>fk_open = \<lambda>_ _ _ s. ((3, 0), s), fk_close = \<lambda>_ w. ((0, 0), w),
     fk_get_mount_policy = \<lambda>_ (a, changed). ((0, 0), (report (if changed then new_policy else old_policy) a, True)),
     fk_set_mount_policy = \<lambda>_ s. ((0, 0), s)\<rparr>"


section \<open>Sample kernels\<close>

definition sample_files_abi :: files_abi where
  "sample_files_abi = \<lparr>DISPOSITION_OPEN = 1, DISPOSITION_CREATE = 2, DISPOSITION_OPEN_IF = 3, DISPOSITION_SUPERSEDE = 0,
     DISPOSITION_OVERWRITE = 4, DISPOSITION_OVERWRITE_IF = 5, CREATE_OPT_DIRECTORY = 1, CREATE_OPT_DELETE_ON_CLOSE = 2,
     BACKUP_INTENT = 1, RESTORE_INTENT = 2, StatusOpened = 1, StatusCreated = 2, StatusOverwritten = 3,
     StatusSuperseded = 4\<rparr>"

text \<open>A kernel with one descriptor to give, whose state says whether it is open, and that
  reports a status nobody knows; and one that keeps one policy.\<close>

definition odd_kernel :: "bool files_kernel" where
  "odd_kernel = \<lparr>fk_open = \<lambda>_ _ _ (st, w). if w then ((-1, 24), (st, w)) else ((3, 0), (99, True)),
     fk_close = \<lambda>fd w. ((0, 0), w \<and> fd \<noteq> 3), fk_get_mount_policy = \<lambda>_ s. ((0, 22), s),
     fk_set_mount_policy = \<lambda>_ s. ((0, 22), s)\<rparr>"

definition keeping_kernel :: "MountPolicy files_kernel" where
  "keeping_kernel = \<lparr>fk_open = \<lambda>_ _ _ s. ((3, 0), s), fk_close = \<lambda>_ w. ((0, 0), w),
     fk_get_mount_policy = \<lambda>_ (a, mp). ((0, 0), (report mp a, mp)),
     fk_set_mount_policy = \<lambda>_ (a, mp). if length (ma_Template a) < 2 ^ 32
       then ((0, 0), (a, \<lparr>mp_Policy = ma_Policy a, mp_Generation = mp_Generation mp + 1, mp_TemplateSD = ma_Template a\<rparr>))
       else ((0, 22), (a, mp))\<rparr>"

definition sample_options :: OpenOptions where
  "sample_options = \<lparr>oo_Access = 1, oo_Disposition = DispOpenIf, oo_Directory = False, oo_DeleteOnClose = True,
     oo_BackupIntent = False, oo_RestoreIntent = True, oo_SecurityDescriptor = []\<rparr>"

definition odd_fds :: "bool \<Rightarrow> int set" where "odd_fds w = (if w then {3} else {})"

theorem OpenAt_owns_witness:
  "\<exists>r w'. OpenAt odd_kernel sample_files_abi AT_FDCWD ''f'' sample_options False = Some (r, w') \<and>
     (case r of Inl _ \<Rightarrow> odd_fds w' = odd_fds False
      | Inr (f, st) \<Rightarrow> known_status sample_files_abi st \<and> fh_fd f \<notin> odd_fds False
          \<and> odd_fds w' = insert (fh_fd f) (odd_fds False)
          \<and> (\<exists>q w2. fst (FileHandle_Close odd_kernel f) w' = Some (q, w2) \<and> odd_fds w2 = odd_fds False))"
proof -
  have k: "tracks_fds odd_kernel odd_fds"
    by (auto simp: tracks_fds_def opened_fd_def odd_kernel_def odd_fds_def int_of_def split: prod.splits if_splits)
  have o: "OpenAt odd_kernel sample_files_abi AT_FDCWD ''f'' sample_options False
      = Some (Inl (Errorf ''libp/files: open: kernel reported unknown status ''), False)"
    by code_simp
  show ?thesis using OpenAt_owns [OF k o] o by blast
qed

theorem mount_policy_roundtrip_witness:
  "\<exists>w' g. SetMountPolicy keeping_kernel 3 old_policy new_policy = Some (Inr (), w')
     \<and> GetMountPolicy keeping_kernel 3 w' = Some (Inr (old_policy\<lparr>mp_Generation := g\<rparr>), w')"
proof -
  let ?w = "old_policy\<lparr>mp_Generation := 3\<rparr>"
  have s: "SetMountPolicy keeping_kernel 3 old_policy new_policy = Some (Inr (), ?w)"
    by (simp add: SetMountPolicy_def mountPolicyCall_def Retry.simps keeping_kernel_def old_policy_def new_policy_def)
  have k: "keeps_policy keeping_kernel 3"
    by (auto simp: keeps_policy_def keeping_kernel_def holds_policy_def report_def split: prod.splits if_splits)
  have "\<exists>g. GetMountPolicy keeping_kernel 3 ?w = Some (Inr (old_policy\<lparr>mp_Generation := g\<rparr>), ?w)"
    by (rule mount_policy_roundtrip [OF _ s k]) (simp add: old_policy_def)
  with s show ?thesis by blast
qed

end
