(* ===== verification/Spec2Isabelle.thy ===== *)
theory Spec2Isabelle
  imports WellKnown Claims Inherit AuditContext KernelSd SddlRound SidType RegTxn RegDebug Ring PolicyRace Token Files Vet
begin

text \<open>
  A verification library for libp-go, the Go client library of the Peios operating system:
  security identifiers, access control lists, security descriptors, conditional expressions,
  claims and audit contexts, their textual form SDDL, the layered registry, the event stream,
  and the system calls that carry them.

  \<^bold>\<open>How the program is modelled.\<close> Byte slices are lists of \<open>8 word\<close>, machine integers are words of
  their width, Go strings are byte strings, and every Go \<open>error\<close> or panic is a value of the
  error type of \<^verbatim>\<open>Prelude\<close>: slicing and indexing out of range is the error \<open>Panic\<close>, so a theorem
  that an operation does not return it says that the code does not crash. Arguments that the
  code interpolates into error messages are left out of the message texts. The constants of
  the generated package \<open>uapi\<close>, which is not part of the repository, are records of
  parameters (\<open>ace_abi\<close>, \<open>sd_abi\<close>, \<open>claim_abi\<close>, \<open>audit_abi\<close>, \<open>rights_abi\<close>, \<open>reg_abi\<close>, \<open>watch_abi\<close>,
  \<open>event_abi\<close>, \<open>ring_abi\<close>, \<open>policy_abi\<close>, \<open>token_abi\<close>, \<open>files_abi\<close>); the theorems that need more than their names assume that they are
  distinct, single bits, or a layout the comments document, and the witnesses use concrete
  values. System calls are parameters too: functions on an abstract state of the kernel. What
  a theorem needs of the kernel's answers is a named hypothesis (\<open>holds_value\<close>, \<open>honest\<close>,
  \<open>transactional\<close>, \<open>tracked\<close>, \<open>quiet\<close>, \<open>serves\<close>, \<open>watchable\<close>,
  \<open>notifies\<close>, \<open>identity_ok\<close>, \<open>tracks_fds\<close>, \<open>keeps_policy\<close>), each with a concrete kernel that satisfies it.

  \<^bold>\<open>Shared theories.\<close> \<^verbatim>\<open>Prelude\<close>: errors, slices, byte orders. \<^verbatim>\<open>Codec\<close>: the locales
  \<open>framed_codec\<close> (a writer and a parser of self-delimiting items, and what follows for
  sequences of them) and \<open>text_codec\<close>. \<^verbatim>\<open>Strconv\<close>, \<^verbatim>\<open>Utf\<close>, \<^verbatim>\<open>Quote\<close>: the parts of \<open>strconv\<close>, \<open>strings\<close>,
  \<open>unicode/utf8\<close> and \<open>unicode/utf16\<close> the code uses; \<open>Unquote\<close> inverts \<open>Quote\<close>, whatever the Unicode
  tables say is printable. \<^verbatim>\<open>Abi\<close>: the records of external constants.
  \<^verbatim>\<open>Io\<close>: operations on the kernel's state with errors, \<open>defer\<close>, and the locale \<open>two_pass\<close> of the
  probe-and-regrow protocol, which the reads of the registry interpret.

  \<^bold>\<open>Components.\<close>
  \<^item> \<^verbatim>\<open>Sid\<close>: \<^verbatim>\<open>wire/sid.go\<close>. The parser accepts exactly the canonical encodings, the text form
    round-trips, equality of the fixed arrays is equality of encodings. \<^verbatim>\<open>SidType\<close> collects every operation
    of the library that makes a SID and shows which values a program can ever hold.
  \<^item> \<^verbatim>\<open>Condition\<close>, \<^verbatim>\<open>WellKnown\<close>, \<^verbatim>\<open>Claims\<close>: \<^verbatim>\<open>sd/condition.go\<close>, \<^verbatim>\<open>sd/wellknown.go\<close>, \<^verbatim>\<open>sd/claims.go\<close>,
    \<^verbatim>\<open>sd/objecttree.go\<close>. Shape of the encodings, exact error conditions, reverse lookup.
  \<^item> \<^verbatim>\<open>Ace\<close>, \<^verbatim>\<open>Descriptor\<close>: \<^verbatim>\<open>sd/ace.go\<close>, \<^verbatim>\<open>sd/acl.go\<close>, \<^verbatim>\<open>sd/descriptor.go\<close>. Writers and parsers are
    inverse on normal forms, parsers never crash whatever sizes and offsets the bytes claim.
  \<^item> \<^verbatim>\<open>Inherit\<close>: \<^verbatim>\<open>sd/inherit.go\<close> and the descriptor surgery of \<^verbatim>\<open>sd/getset.go\<close>, specified on wire
    bytes and idempotent.
  \<^item> \<^verbatim>\<open>AuditContext\<close>: \<^verbatim>\<open>sd/auditcontext.go\<close>. The stack machine that validates MessagePack decides
    the recursive grammar; the encoder succeeds exactly under its documented conditions.
  \<^item> \<^verbatim>\<open>Sys\<close>, \<^verbatim>\<open>KernelSd\<close>: \<^verbatim>\<open>internal/sys/sys.go\<close>, \<^verbatim>\<open>errno/errno.go\<close> and the calls of \<^verbatim>\<open>sd/getset.go\<close>,
    \<^verbatim>\<open>sd/accesscheck.go\<close>, \<^verbatim>\<open>sd/caap.go\<close>. The retry loop is a \<open>partial_function\<close>: not returning is \<open>None\<close>.
  \<^item> \<^verbatim>\<open>SddlTables\<close>, \<^verbatim>\<open>SddlCond\<close>, \<^verbatim>\<open>Sddl\<close>, \<^verbatim>\<open>SddlRound\<close>: the package \<^verbatim>\<open>sddl\<close>. Vocabulary, conditional
    expressions, parser and printer; the parser is total and inverts the printer, but for the
    owners with hexadecimal authorities that it refuses.
  \<^item> \<^verbatim>\<open>RegValue\<close>, \<^verbatim>\<open>RegWatch\<close>, \<^verbatim>\<open>Registry\<close>, \<^verbatim>\<open>RegTxn\<close>: the packages \<^verbatim>\<open>registry\<close> and \<^verbatim>\<open>registry/layers\<close>.
    Values and watch records round-trip, reads return what is stored, transactions are atomic,
    the base layer is reserved. \<^verbatim>\<open>RegWatch\<close> also has the classifier of \<^verbatim>\<open>event/policy.go\<close>.
    A body of \<open>Transact\<close> gets the restricted view \<open>Txn\<close>, as in the source. \<^verbatim>\<open>RegDebug\<close> has the
    debug rendering of values and shows that it distinguishes strings and numbers.
  \<^item> \<^verbatim>\<open>Policy\<close>: \<^verbatim>\<open>event/policy.go\<close>, the emission policy. The locale \<open>policy_view\<close> is the interface
    the walk over the policy tree relies on, interpreted on the live registry; \<open>resolve\<close> finds
    the deepest setting and a policy that \<open>OpenPolicy\<close> opened on an existing root refines asking
    the registry at every decision, changes during the walk included. A closed policy decides
    by tier. \<^verbatim>\<open>PolicyRace\<close> runs the search for an ancestor to watch against a registry in which
    another process creates keys, and shows that the creation of the root can be missed.
  \<^item> \<^verbatim>\<open>Token\<close>: the package \<^verbatim>\<open>token\<close>. An OS thread is a lock count beside the kernel's state; a
    thread that goes back to the pool does not impersonate, and the accessors return what the
    stored bytes encode.
  \<^item> \<^verbatim>\<open>Files\<close>: the package \<^verbatim>\<open>files\<close>. An open owns one descriptor or none; mount policies are read
    back, but torn when they change during the read.
  \<^item> \<^verbatim>\<open>Vet\<close>: the analyzer \<^verbatim>\<open>cmd/libp-vet\<close>. What the analysis framework and the type checker hand to
    it is a record of parameters; it reports exactly the forbidden imports and uses.
  \<^item> \<^verbatim>\<open>EventWire\<close>, \<^verbatim>\<open>Ring\<close>: \<^verbatim>\<open>wire/event.go\<close>, \<^verbatim>\<open>event/event.go\<close>, \<^verbatim>\<open>event/emit.go\<close>, \<^verbatim>\<open>event/ring.go\<close>. The
    reader of a shared ring is safe and accounts for losses under every behaviour of the
    producer, and drains a quiet ring completely.

  \<^bold>\<open>Fuel.\<close> The mutual recursion of the expression parser and the loops over watch records take
  fuel; their entry points pass the length of the input plus a constant, which is proved to
  suffice. Loops that the kernel can keep running (retries, enumeration, draining a watch, the
  ring reader) are \<open>partial_function\<close>s. All other loops are total functions with a measure.

  \<^bold>\<open>Not modelled.\<close> The \<open>main\<close> function of \<^verbatim>\<open>cmd/libp-vet\<close>, one call of the third-party driver; the
  values of the constants of \<open>uapi\<close>; the one-line accessors that return a field of a handle,
  which are the fields of its record. Concurrency inside the library (the mutex of the policy,
  goroutines) is left out; what runs concurrently with it, the kernel and other processes, is
  in the laws about the kernel's state.
\<close>

end
